(* ===== verification/Prelude.thy ===== *)
theory Prelude
  imports Complex_Main "HOL-Library.Word"
begin

text \<open>
  The vocabulary every other theory shares: the machine-word synonyms, the named
  collections of rewrite rules, and generic facts on lists, options and words that are
  about no component in particular.
\<close>

unbundle bit_operations_syntax

type_synonym u8 = "8 word"
type_synonym u16 = "16 word"
type_synonym u32 = "32 word"
type_synonym u64 = "64 word"
type_synonym bytes = "8 word list"

named_theorems wire_simps \<open>lengths and round trips of byte encodings\<close>
named_theorems res_simps \<open>evaluation of error-valued computations\<close>

section \<open>Lists\<close>

lemma take_append_exact [simp]: "length xs = n \<Longrightarrow> take n (xs @ ys) = xs"
  by simp

lemma drop_append_exact [simp]: "length xs = n \<Longrightarrow> drop n (xs @ ys) = ys"
  by simp

lemma nth_append_exact: "length xs = n \<Longrightarrow> (xs @ y # ys) ! n = y"
  by (simp add: nth_append)

lemma take_append_le: "n \<le> length xs \<Longrightarrow> take n (xs @ ys) = take n xs"
  by simp

lemma drop_append_le: "n \<le> length xs \<Longrightarrow> drop n (xs @ ys) = drop n xs @ ys"
  by simp

lemma foldl_invariant:
  assumes "P a" and "\<And>a x. P a \<Longrightarrow> x \<in> set xs \<Longrightarrow> P (f a x)"
  shows "P (foldl f a xs)"
  using assms by (induction xs arbitrary: a) auto

lemma length5_cases:
  assumes "length xs = 5"
  obtains a b c d e where "xs = [a, b, c, d, e]"
  using assms by (auto simp: eval_nat_numeral length_Suc_conv)

section \<open>Words as bytes\<close>

lemma unat_u8_less [simp]: "unat (w :: u8) < 256"
  using unsigned_less [of w] by simp

lemma unat_u16_less [simp]: "unat (w :: u16) < 65536"
  using unsigned_less [of w] by simp

lemma unat_u32_less [simp]: "unat (w :: u32) < 4294967296"
  using unsigned_less [of w] by simp

lemma xor_cancel: "(x :: 'a::len word) XOR u = x XOR v \<longleftrightarrow> u = v" "u XOR x = v XOR x \<longleftrightarrow> u = v"
  by (auto simp: bit_eq_iff bit_xor_iff)

lemma bit_u8: "bit (w :: u8) k \<Longrightarrow> k < 8"
  using bit_imp_le_length [of w k] by simp

lemma bit_u8_high [simp]: "8 \<le> k \<Longrightarrow> \<not> bit (w :: u8) k"
  using bit_u8 [of w k] by auto

lemma next_sequence:
  "unat (w :: u64) + Suc n < 2 ^ 64 \<Longrightarrow> unat (w + 1) = unat w + 1 \<and> w < w + 1"
  by (simp add: unat_word_ariths word_less_nat_alt)

end
