(* ===== verification/Types.thy ===== *)
theory Types
  imports Prelude
begin

text \<open>
  \<^verbatim>\<open>include/adaptive/types.h\<close> and \<^verbatim>\<open>src/types.c\<close>: result codes, the five network
  states, the five metrics, the compile-time bounds, and the case-insensitive name
  tables. A C string is the list of its characters before the terminating NUL; a
  pointer the code compares with \<open>NULL\<close> is an option.
\<close>

section \<open>Constants and result codes\<close>

definition ADAPTIVE_STATE_COUNT :: nat where "ADAPTIVE_STATE_COUNT = 5"
definition ADAPTIVE_METRIC_COUNT :: nat where "ADAPTIVE_METRIC_COUNT = 5"
definition ADAPTIVE_MAX_WINDOW :: nat where "ADAPTIVE_MAX_WINDOW = 256"
definition ADAPTIVE_MAX_REPRESENTATION :: nat where
  "ADAPTIVE_MAX_REPRESENTATION = 64 + ADAPTIVE_MAX_WINDOW * 4"
definition ADAPTIVE_MAX_BLOCK_SIZE :: nat where "ADAPTIVE_MAX_BLOCK_SIZE = 1024"
definition ADAPTIVE_MAX_COAP_PACKET :: nat where "ADAPTIVE_MAX_COAP_PACKET = 1152"
definition ADAPTIVE_MAX_URI_PATH :: nat where "ADAPTIVE_MAX_URI_PATH = 63"

lemmas adaptive_bounds = ADAPTIVE_STATE_COUNT_def ADAPTIVE_METRIC_COUNT_def
  ADAPTIVE_MAX_WINDOW_def ADAPTIVE_MAX_REPRESENTATION_def ADAPTIVE_MAX_BLOCK_SIZE_def
  ADAPTIVE_MAX_COAP_PACKET_def ADAPTIVE_MAX_URI_PATH_def

datatype adaptive_result =
    ADAPTIVE_OK | ADAPTIVE_COMPLETE | ADAPTIVE_ERR_ARGUMENT | ADAPTIVE_ERR_RANGE
  | ADAPTIVE_ERR_CAPACITY | ADAPTIVE_ERR_FORMAT | ADAPTIVE_ERR_INTEGRITY
  | ADAPTIVE_ERR_REPLAY | ADAPTIVE_ERR_CRYPTO | ADAPTIVE_ERR_IO | ADAPTIVE_ERR_UNSUPPORTED

fun result_code :: "adaptive_result \<Rightarrow> int" where
  "result_code ADAPTIVE_OK = 0"
| "result_code ADAPTIVE_COMPLETE = 1"
| "result_code ADAPTIVE_ERR_ARGUMENT = -1"
| "result_code ADAPTIVE_ERR_RANGE = -2"
| "result_code ADAPTIVE_ERR_CAPACITY = -3"
| "result_code ADAPTIVE_ERR_FORMAT = -4"
| "result_code ADAPTIVE_ERR_INTEGRITY = -5"
| "result_code ADAPTIVE_ERR_REPLAY = -6"
| "result_code ADAPTIVE_ERR_CRYPTO = -7"
| "result_code ADAPTIVE_ERR_IO = -8"
| "result_code ADAPTIVE_ERR_UNSUPPORTED = -9"

text \<open>
  A function that returns \<open>ADAPTIVE_OK\<close> together with outputs, or an error code, is a
  sum: \<open>Inl\<close> the code, \<open>Inr\<close> the outputs.
\<close>

type_synonym 'a outcome = "adaptive_result + 'a"

fun outcome_bind :: "'a outcome \<Rightarrow> ('a \<Rightarrow> 'b outcome) \<Rightarrow> 'b outcome" where
  "outcome_bind (Inl e) f = Inl e"
| "outcome_bind (Inr x) f = f x"

declare outcome_bind.simps [res_simps]

lemma outcome_bind_Inl [res_simps]:
  "outcome_bind r f = Inl e \<longleftrightarrow> r = Inl e \<or> (\<exists>x. r = Inr x \<and> f x = Inl e)"
  by (cases r) simp_all

lemma outcome_bind_Inr [res_simps]:
  "outcome_bind r f = Inr y \<longleftrightarrow> (\<exists>x. r = Inr x \<and> f x = Inr y)"
  by (cases r) auto

section \<open>States and metrics\<close>

datatype adaptive_state = GOOD | NORMAL | DEGRADED | CONGESTED | RECOVERY

datatype adaptive_metric = QUEUE | LOSS | RTT | RETRY | GOODPUT

fun state_num :: "adaptive_state \<Rightarrow> nat" where
  "state_num GOOD = 0"
| "state_num NORMAL = 1"
| "state_num DEGRADED = 2"
| "state_num CONGESTED = 3"
| "state_num RECOVERY = 4"

fun metric_num :: "adaptive_metric \<Rightarrow> nat" where
  "metric_num QUEUE = 0"
| "metric_num LOSS = 1"
| "metric_num RTT = 2"
| "metric_num RETRY = 3"
| "metric_num GOODPUT = 4"

definition state_of_num :: "nat \<Rightarrow> adaptive_state" where
  "state_of_num n =
     (if n = 0 then GOOD else if n = 1 then NORMAL else if n = 2 then DEGRADED
      else if n = 3 then CONGESTED else RECOVERY)"

definition metric_of_num :: "nat \<Rightarrow> adaptive_metric" where
  "metric_of_num n =
     (if n = 0 then QUEUE else if n = 1 then LOSS else if n = 2 then RTT
      else if n = 3 then RETRY else GOODPUT)"

lemma state_num_less [simp]: "state_num s < 5"
  by (cases s) simp_all

lemma metric_num_less [simp]: "metric_num m < 5"
  by (cases m) simp_all

lemma state_of_num_num [simp]: "state_of_num (state_num s) = s"
  by (cases s) (simp_all add: state_of_num_def)

lemma metric_of_num_num [simp]: "metric_of_num (metric_num m) = m"
  by (cases m) (simp_all add: metric_of_num_def)

lemma state_num_of_num: "n < 5 \<Longrightarrow> state_num (state_of_num n) = n"
  by (auto simp: state_of_num_def)

lemma metric_num_of_num: "n < 5 \<Longrightarrow> metric_num (metric_of_num n) = n"
  by (auto simp: metric_of_num_def)

lemma state_num_inj [simp]: "state_num s = state_num t \<longleftrightarrow> s = t"
  by (metis state_of_num_num)

lemma state_num_eq_iff [simp]:
  "state_num s = 0 \<longleftrightarrow> s = GOOD" "state_num s = 1 \<longleftrightarrow> s = NORMAL"
  "state_num s = 2 \<longleftrightarrow> s = DEGRADED" "state_num s = 3 \<longleftrightarrow> s = CONGESTED"
  "state_num s = 4 \<longleftrightarrow> s = RECOVERY"
  by (cases s; simp)+

text \<open>
  The enumeration order is the order of congestion; \<open>RECOVERY\<close> comes last.
\<close>

instantiation adaptive_state :: linorder
begin

definition less_eq_adaptive_state :: "adaptive_state \<Rightarrow> adaptive_state \<Rightarrow> bool" where
  "s \<le> t \<longleftrightarrow> state_num s \<le> state_num t"

definition less_adaptive_state :: "adaptive_state \<Rightarrow> adaptive_state \<Rightarrow> bool" where
  "s < t \<longleftrightarrow> state_num s < state_num t"

instance
proof
  fix s t u :: adaptive_state
  show "s < t \<longleftrightarrow> s \<le> t \<and> \<not> t \<le> s"
    by (auto simp: less_eq_adaptive_state_def less_adaptive_state_def)
  show "s \<le> s" by (simp add: less_eq_adaptive_state_def)
  show "s \<le> t \<Longrightarrow> t \<le> u \<Longrightarrow> s \<le> u" by (simp add: less_eq_adaptive_state_def)
  show "s \<le> t \<Longrightarrow> t \<le> s \<Longrightarrow> s = t" by (simp add: less_eq_adaptive_state_def eq_iff [symmetric])
  show "s \<le> t \<or> t \<le> s" by (auto simp: less_eq_adaptive_state_def)
qed

end

section \<open>Names\<close>

text \<open>\<open>tolower\<close> in the C locale.\<close>

definition tolower :: "char \<Rightarrow> char" where
  "tolower c =
     (let n = of_char c :: nat in if 65 \<le> n \<and> n \<le> 90 then char_of (n + 32) else c)"

fun names_match :: "string \<Rightarrow> string \<Rightarrow> bool" where
  "names_match (l # ls) (r # rs) = (if tolower l \<noteq> tolower r then False else names_match ls rs)"
| "names_match ls rs = (ls = [] \<and> rs = [])"

definition name_equal :: "string option \<Rightarrow> string option \<Rightarrow> bool" where
  "name_equal left right =
     (case (left, right) of (Some l, Some r) \<Rightarrow> names_match l r | _ \<Rightarrow> False)"

text \<open>An enumeration argument is the number the C caller passes, in range or not.\<close>

definition adaptive_state_name :: "nat \<Rightarrow> string" where
  "adaptive_state_name state =
     (if state < ADAPTIVE_STATE_COUNT
      then [''GOOD'', ''NORMAL'', ''DEGRADED'', ''CONGESTED'', ''RECOVERY''] ! state
      else ''UNKNOWN'')"

definition adaptive_metric_name :: "nat \<Rightarrow> string" where
  "adaptive_metric_name metric =
     (if metric < ADAPTIVE_METRIC_COUNT
      then [''queue'', ''loss'', ''rtt'', ''retry'', ''goodput''] ! metric
      else ''unknown'')"

text \<open>The search loop: the first index from \<open>i\<close> below \<open>count\<close> whose name matches.\<close>

function find_name :: "(nat \<Rightarrow> string) \<Rightarrow> string \<Rightarrow> nat \<Rightarrow> nat \<Rightarrow> nat option" where
  "find_name table name i count =
     (if i < count
      then if name_equal (Some name) (Some (table i)) then Some i
           else find_name table name (i + 1) count
      else None)"
  by pat_completeness auto
termination
  by (relation "measure (\<lambda>(table, name, i, count). count - i)") auto

declare find_name.simps [simp del]

text \<open>The second argument says whether the out-parameter is a valid pointer.\<close>

definition adaptive_state_from_name :: "string option \<Rightarrow> bool \<Rightarrow> adaptive_state outcome" where
  "adaptive_state_from_name name out =
     (case name of
        None \<Rightarrow> Inl ADAPTIVE_ERR_ARGUMENT
      | Some n \<Rightarrow>
          if \<not> out then Inl ADAPTIVE_ERR_ARGUMENT
          else case find_name adaptive_state_name n 0 ADAPTIVE_STATE_COUNT of
                 Some i \<Rightarrow> Inr (state_of_num i)
               | None \<Rightarrow> Inl ADAPTIVE_ERR_FORMAT)"

definition adaptive_metric_from_name :: "string option \<Rightarrow> bool \<Rightarrow> adaptive_metric outcome" where
  "adaptive_metric_from_name name out =
     (case name of
        None \<Rightarrow> Inl ADAPTIVE_ERR_ARGUMENT
      | Some n \<Rightarrow>
          if \<not> out then Inl ADAPTIVE_ERR_ARGUMENT
          else case find_name adaptive_metric_name n 0 ADAPTIVE_METRIC_COUNT of
                 Some i \<Rightarrow> Inr (metric_of_num i)
               | None \<Rightarrow> Inl ADAPTIVE_ERR_FORMAT)"

section \<open>Lemmas\<close>

lemma names_match_iff: "names_match l r \<longleftrightarrow> map tolower l = map tolower r"
  by (induction l r rule: names_match.induct) auto

lemma name_equal_Some [simp]: "name_equal (Some l) (Some r) \<longleftrightarrow> map tolower l = map tolower r"
  by (simp add: name_equal_def names_match_iff)

lemma find_name_find:
  "find_name table name i count =
     List.find (\<lambda>k. map tolower name = map tolower (table k)) [i..<count]"
proof (induction table name i count rule: find_name.induct)
  case (1 table name i count)
  then show ?case by (subst find_name.simps) (simp add: upt_conv_Cons)
qed

lemma find_upt_Some:
  "List.find P [0..<n] = Some k \<longleftrightarrow> k < n \<and> P k \<and> (\<forall>j < k. \<not> P j)"
  by (auto simp: find_Some_iff intro!: exI [of _ k])

lemma find_upt_None: "List.find P [0..<n] = None \<longleftrightarrow> (\<forall>k < n. \<not> P k)"
  by (auto simp: find_None_iff)

lemma less5_cases: "(k::nat) < 5 \<longleftrightarrow> k = 0 \<or> k = 1 \<or> k = 2 \<or> k = 3 \<or> k = 4"
  by auto

lemma state_names_distinct:
  "i < 5 \<Longrightarrow> j < 5 \<Longrightarrow>
   map tolower (adaptive_state_name i) = map tolower (adaptive_state_name j) \<Longrightarrow> i = j"
  unfolding less5_cases
  by (elim disjE; simp add: adaptive_state_name_def ADAPTIVE_STATE_COUNT_def tolower_def)

lemma metric_names_distinct:
  "i < 5 \<Longrightarrow> j < 5 \<Longrightarrow>
   map tolower (adaptive_metric_name i) = map tolower (adaptive_metric_name j) \<Longrightarrow> i = j"
  unfolding less5_cases
  by (elim disjE; simp add: adaptive_metric_name_def ADAPTIVE_METRIC_COUNT_def tolower_def)

end
