(* ===== verification/Byte_Order.thy ===== *)
theory Byte_Order
  imports Types
begin

text \<open>
  The integer serialisers: little-endian in \<^verbatim>\<open>src/codec.c\<close>, big-endian in
  \<^verbatim>\<open>src/aad.c\<close>, \<^verbatim>\<open>src/pipeline.c\<close>, \<^verbatim>\<open>src/security_test.c\<close> and
  \<^verbatim>\<open>src/security_oqs.c\<close>. A writer returns the bytes it stores from the pointer on; a
  reader is given the bytes from the pointer on.
\<close>

definition write_u16 :: "u16 \<Rightarrow> bytes" where
  "write_u16 value = [ucast (value AND 0xff), ucast (drop_bit 8 value)]"

definition write_u32 :: "u32 \<Rightarrow> bytes" where
  "write_u32 value =
     [ucast (value AND 0xff), ucast (drop_bit 8 value AND 0xff),
      ucast (drop_bit 16 value AND 0xff), ucast (drop_bit 24 value)]"

definition read_u16 :: "bytes \<Rightarrow> u16" where
  "read_u16 input = ucast (input ! 0) OR push_bit 8 (ucast (input ! 1))"

definition read_u32 :: "bytes \<Rightarrow> u32" where
  "read_u32 input =
     ucast (input ! 0) OR push_bit 8 (ucast (input ! 1)) OR
     push_bit 16 (ucast (input ! 2)) OR push_bit 24 (ucast (input ! 3))"

definition write_u32_be :: "u32 \<Rightarrow> bytes" where
  "write_u32_be value =
     [ucast (drop_bit 24 value), ucast (drop_bit 16 value), ucast (drop_bit 8 value), ucast value]"

text \<open>
  The 64-bit writer fills the array from its last byte: byte \<open>7 - i\<close> is the value
  shifted right by \<open>8 * i\<close>.
\<close>

definition write_u64_be :: "u64 \<Rightarrow> bytes" where
  "write_u64_be value =
     foldl (\<lambda>output i. output[7 - i := ucast (drop_bit (8 * i) value)]) (replicate 8 0) [0..<8]"

definition read_u64_be :: "bytes \<Rightarrow> u64" where
  "read_u64_be input = foldl (\<lambda>value i. push_bit 8 value OR ucast (input ! i)) 0 [0..<8]"

section \<open>Lengths and round trips\<close>

lemma length_write [simp, wire_simps]:
  "length (write_u16 a) = 2" "length (write_u32 b) = 4" "length (write_u32_be b) = 4"
  by (simp_all add: write_u16_def write_u32_def write_u32_be_def)

lemma write_u64_be_eq:
  "write_u64_be v =
     [ucast (drop_bit 56 v), ucast (drop_bit 48 v), ucast (drop_bit 40 v), ucast (drop_bit 32 v),
      ucast (drop_bit 24 v), ucast (drop_bit 16 v), ucast (drop_bit 8 v), ucast v]"
  by (simp add: write_u64_be_def upt_rec numeral_eq_Suc)

lemma length_write_u64_be [simp, wire_simps]: "length (write_u64_be v) = 8"
  by (simp add: write_u64_be_eq)

lemma ucast_low_byte16: "(ucast ((x :: u16) AND 0xff) :: u8) = ucast x"
proof -
  have "x AND 0xff = take_bit 8 x" by (simp add: take_bit_eq_mask mask_eq_exp_minus_1)
  then show ?thesis by (auto intro!: bit_word_eqI simp: bit_simps)
qed

lemma ucast_low_byte32: "(ucast ((x :: u32) AND 0xff) :: u8) = ucast x"
proof -
  have "x AND 0xff = take_bit 8 x" by (simp add: take_bit_eq_mask mask_eq_exp_minus_1)
  then show ?thesis by (auto intro!: bit_word_eqI simp: bit_simps)
qed

lemma read_write_u16 [simp, wire_simps]: "read_u16 (write_u16 v @ rest) = v"
proof (rule bit_word_eqI)
  fix n assume "n < LENGTH(16)"
  then have "n < 8 \<or> (8 \<le> n \<and> n < 16)" by auto
  then show "bit (read_u16 (write_u16 v @ rest)) n = bit v n"
    by (elim disjE) (auto simp: read_u16_def write_u16_def ucast_low_byte16 bit_simps)
qed

lemma read_write_u32 [simp, wire_simps]: "read_u32 (write_u32 v @ rest) = v"
proof (rule bit_word_eqI)
  fix n assume "n < LENGTH(32)"
  then have "n < 8 \<or> (8 \<le> n \<and> n < 16) \<or> (16 \<le> n \<and> n < 24) \<or> (24 \<le> n \<and> n < 32)" by auto
  then show "bit (read_u32 (write_u32 v @ rest)) n = bit v n"
    by (elim disjE) (auto simp: read_u32_def write_u32_def ucast_low_byte32 bit_simps)
qed

lemma push_drop_byte: "push_bit 8 (drop_bit 8 w) OR ucast (ucast w :: u8) = (w :: u64)"
proof (rule bit_word_eqI)
  fix n assume "n < LENGTH(64)"
  then show "bit (push_bit 8 (drop_bit 8 w) OR ucast (ucast w :: u8)) n = bit w n"
    by (cases "n < 8") (simp_all add: bit_simps)
qed

lemma write_u64_be_nth: "i < 8 \<Longrightarrow> write_u64_be v ! i = ucast (drop_bit (56 - 8 * i) v)"
  by (auto simp: write_u64_be_eq less_Suc_eq numeral_eq_Suc)

lemma read_prefix_u64_be:
  "k \<le> 8 \<Longrightarrow>
   foldl (\<lambda>value i. push_bit 8 value OR ucast ((write_u64_be v @ rest) ! i)) 0 [0..<k]
   = drop_bit (64 - 8 * k) v"
proof (induction k)
  case 0
  show ?case by (rule bit_word_eqI) (simp add: bit_simps)
next
  case (Suc k)
  have "drop_bit 8 (drop_bit (56 - 8 * k) v) = drop_bit (64 - 8 * k) v"
    using Suc.prems by (simp add: drop_bit_drop_bit)
  then show ?case
    using Suc push_drop_byte [of "drop_bit (56 - 8 * k) v"]
    by (simp add: nth_append write_u64_be_nth)
qed

lemma read_write_u64_be [simp, wire_simps]: "read_u64_be (write_u64_be v @ rest) = v"
  using read_prefix_u64_be [of 8 v rest] by (simp add: read_u64_be_def)

lemma write_u32_be_inj: "write_u32_be v = write_u32_be w \<longleftrightarrow> v = w"
proof
  assume eq: "write_u32_be v = write_u32_be w"
  have bits: "bit v n = bit w n" if "n < 32" for n
  proof -
    have b: "\<And>k. k \<in> {0, 8, 16, 24} \<Longrightarrow> ucast (drop_bit k v) = (ucast (drop_bit k w) :: u8)"
      using eq by (auto simp: write_u32_be_def)
    have "bit (ucast (drop_bit (8 * (n div 8)) v) :: u8) (n mod 8)
        = bit (ucast (drop_bit (8 * (n div 8)) w) :: u8) (n mod 8)"
      using that by (subst b) auto
    then show ?thesis using that by (simp add: bit_simps)
  qed
  then show "v = w" by (intro bit_word_eqI) simp
qed simp

end
