(* ===== verification/Coap.thy ===== *)
theory Coap
  imports Byte_Order
begin

text \<open>
  \<^verbatim>\<open>src/coap_block.c\<close>: the RFC 7252 packet writer and parser with the RFC 7959 Block1
  and Size1 options. The writer's output buffer is the list of the bytes stored so far,
  so the C variable \<open>offset\<close> is its length and every capacity check is a check on that
  length; the parser keeps the C variable \<open>offset\<close>, an index into the packet. The main
  results: what the writer accepts, the parser reads back unchanged; the packet never
  exceeds the capacity; and the errors of both.
\<close>

section \<open>The block structure\<close>

record coap_block =
  cb_type :: u8
  cb_code :: u8
  message_id :: u16
  token :: bytes          \<comment> \<open>\<open>uint8_t token[8]\<close>\<close>
  token_length :: nat
  block_number :: u32
  more_flag :: u8       \<comment> \<open>the field \<open>more\<close>\<close>
  szx :: u8
  content_format :: u32
  size1 :: u32
  payload :: "bytes option"
  payload_length :: nat

definition zero_block :: coap_block where
  "zero_block =
     \<lparr>cb_type = 0, cb_code = 0, message_id = 0, token = replicate 8 0, token_length = 0,
      block_number = 0, more_flag = 0, szx = 0, content_format = 0, size1 = 0,
      payload = None, payload_length = 0\<rparr>"

definition ADAPTIVE_COAP_TYPE_CON :: u8 where "ADAPTIVE_COAP_TYPE_CON = 0"
definition ADAPTIVE_COAP_CODE_POST :: u8 where "ADAPTIVE_COAP_CODE_POST = 2"

definition UINT_MAX :: nat where "UINT_MAX = 4294967295"

section \<open>Writing\<close>

definition encode_extended :: "nat \<Rightarrow> (u8 \<times> bytes) outcome" where
  "encode_extended v =
     (if v < 13 then Inr (word_of_nat v, [])
      else if v < 269 then Inr (13, [word_of_nat (v - 13)])
      else if v \<le> 65804 then
        (let adjusted = v - 269 in
         Inr (14, [word_of_nat (drop_bit 8 adjusted), word_of_nat adjusted]))
      else Inl ADAPTIVE_ERR_RANGE)"

definition append_option :: "bytes \<Rightarrow> nat \<Rightarrow> nat \<Rightarrow> bytes \<Rightarrow> bytes outcome" where
  "append_option output capacity delta v =
     (if UINT_MAX < length v then Inl ADAPTIVE_ERR_RANGE
      else
        outcome_bind (encode_extended delta) (\<lambda>(delta_nibble, delta_extension).
        outcome_bind (encode_extended (length v)) (\<lambda>(length_nibble, length_extension).
          let required = 1 + length delta_extension + length length_extension + length v
          in if capacity < length output \<or> capacity - length output < required
             then Inl ADAPTIVE_ERR_CAPACITY
             else Inr (output @ [push_bit 4 delta_nibble OR length_nibble] @
                       delta_extension @ length_extension @ v))))"

definition encode_uint :: "u32 \<Rightarrow> bytes" where
  "encode_uint v =
     (if v = 0 then []
      else
        let len = (if v \<le> 0xff then 1 else if v \<le> 0xffff then 2
                   else if v \<le> 0xffffff then 3 else 4)
        in foldl (\<lambda>output i. output[len - 1 - i := ucast (drop_bit (i * 8) v)])
             (replicate len 0) [0..<len])"

definition c_bytes :: "string \<Rightarrow> bytes" where
  "c_bytes s = map (\<lambda>c. word_of_nat (of_char c)) s"

abbreviation is_slash :: "char \<Rightarrow> bool" where "is_slash c \<equiv> c = CHR ''/''"

lemma next_segment_less:
  "cursor \<noteq> [] \<Longrightarrow>
   length (dropWhile is_slash (dropWhile (\<lambda>c. \<not> is_slash c) cursor)) < length cursor"
proof (cases cursor)
  case (Cons c cs)
  have "length (dropWhile is_slash (dropWhile (\<lambda>c. \<not> is_slash c) cs)) \<le> length cs"
    by (meson le_trans length_dropWhile_le)
  then show ?thesis using Cons by (simp add: length_dropWhile_le less_Suc_eq_le)
qed simp

text \<open>
  The outer loop of \<open>append_uri_path\<close>: one option per non-empty segment, the first one
  with the distance to option 11 from the option before it. The result carries the new
  value of \<open>*previous_option\<close>.
\<close>

function append_segments ::
    "bytes \<Rightarrow> nat \<Rightarrow> string \<Rightarrow> nat \<Rightarrow> bool \<Rightarrow> (bytes \<times> nat) outcome" where
  "append_segments output capacity cursor previous_option first =
     (if cursor = [] then (if first then Inl ADAPTIVE_ERR_FORMAT else Inr (output, previous_option))
      else
        let segment = takeWhile (\<lambda>c. \<not> is_slash c) cursor;
            rest = dropWhile is_slash (dropWhile (\<lambda>c. \<not> is_slash c) cursor)
        in if 0 < length segment then
             let delta = (if first then 11 - previous_option else 0)
             in case append_option output capacity delta (c_bytes segment) of
                  Inl e \<Rightarrow> Inl e
                | Inr output' \<Rightarrow> append_segments output' capacity rest 11 False
           else append_segments output capacity rest previous_option first)"
  by pat_completeness auto
termination
  by (relation "measure (\<lambda>(output, capacity, cursor, previous_option, first). length cursor)")
    (auto simp: next_segment_less)

declare append_segments.simps [simp del]

definition append_uri_path :: "bytes \<Rightarrow> nat \<Rightarrow> string \<Rightarrow> nat \<Rightarrow> (bytes \<times> nat) outcome" where
  "append_uri_path output capacity path previous_option =
     append_segments output capacity (dropWhile is_slash path) previous_option True"

definition adaptive_coap_block_size :: "u8 \<Rightarrow> nat" where
  "adaptive_coap_block_size z = (if 6 < z then 0 else push_bit (unat z + 4) 1)"

text \<open>The first four bytes.\<close>

definition coap_header :: "coap_block \<Rightarrow> bytes" where
  "coap_header b =
     [0x40 OR push_bit 4 (cb_type b AND 0x03) OR word_of_nat (token_length b),
      cb_code b, ucast (drop_bit 8 (message_id b)), ucast (message_id b)]"

definition block1_value :: "coap_block \<Rightarrow> u32" where
  "block1_value b =
     push_bit 4 (block_number b) OR push_bit 3 (if more_flag b \<noteq> 0 then 1 else 0) OR ucast (szx b)"

text \<open>
  The output buffer and the length out-parameter are flags that say whether the pointer
  is valid; the result is the packet \<open>output[0..*output_length)\<close>.
\<close>

definition adaptive_coap_build_block1 ::
    "coap_block option \<Rightarrow> string option \<Rightarrow> bool \<Rightarrow> nat \<Rightarrow> bool \<Rightarrow> bytes outcome" where
  "adaptive_coap_build_block1 block uri_path output_ok output_capacity length_ok =
     (case (block, uri_path) of
        (Some b, Some path) \<Rightarrow>
          if \<not> output_ok \<or> \<not> length_ok \<or> 8 < token_length b \<or> 6 < szx b \<or>
             0xfffff < block_number b \<or> (0 < payload_length b \<and> payload b = None) \<or>
             output_capacity < 4 + token_length b
          then Inl ADAPTIVE_ERR_ARGUMENT
          else
            outcome_bind
              (append_uri_path (coap_header b @ take (token_length b) (token b))
                 output_capacity path 0)
              (\<lambda>(out1, previous_option).
            outcome_bind
              (append_option out1 output_capacity (12 - previous_option)
                 (encode_uint (content_format b)))
              (\<lambda>out2.
            outcome_bind
              (append_option out2 output_capacity (27 - 12) (encode_uint (block1_value b)))
              (\<lambda>out3.
            outcome_bind
              (if 0 < size1 b
               then append_option out3 output_capacity (60 - 27) (encode_uint (size1 b))
               else Inr out3)
              (\<lambda>out4.
               if 0 < payload_length b then
                 if output_capacity \<le> length out4 \<or>
                    output_capacity - length out4 - 1 < payload_length b
                 then Inl ADAPTIVE_ERR_CAPACITY
                 else Inr (out4 @ 0xff # take (payload_length b) (the (payload b)))
               else Inr out4))))
      | _ \<Rightarrow> Inl ADAPTIVE_ERR_ARGUMENT)"

section \<open>Parsing\<close>

text \<open>The result is the value and the new offset.\<close>

definition decode_extended :: "u8 \<Rightarrow> bytes \<Rightarrow> nat \<Rightarrow> (nat \<times> nat) outcome" where
  "decode_extended nibble packet offset =
     (if nibble < 13 then Inr (unat nibble, offset)
      else if nibble = 13 then
        (if length packet \<le> offset then Inl ADAPTIVE_ERR_FORMAT
         else Inr (13 + unat (packet ! offset), offset + 1))
      else if nibble = 14 then
        (if length packet < offset \<or> length packet - offset < 2 then Inl ADAPTIVE_ERR_FORMAT
         else Inr (269 + unat (packet ! offset) * 256 + unat (packet ! (offset + 1)), offset + 2))
      else Inl ADAPTIVE_ERR_FORMAT)"

definition decode_uint :: "bytes \<Rightarrow> u32 outcome" where
  "decode_uint input =
     (if 4 < length input then Inl ADAPTIVE_ERR_FORMAT
      else Inr (foldl (\<lambda>r b. push_bit 8 r OR ucast b) 0 input))"

text \<open>What one option does to the block being filled; the flag is \<open>found_block1\<close>.\<close>

definition apply_option :: "nat \<Rightarrow> bytes \<Rightarrow> coap_block \<Rightarrow> bool \<Rightarrow> (coap_block \<times> bool) outcome" where
  "apply_option option_number v b found =
     (if option_number = 12 then
        outcome_bind (decode_uint v) (\<lambda>x. Inr (b\<lparr>content_format := x\<rparr>, found))
      else if option_number = 27 then
        (case decode_uint v of
           Inl _ \<Rightarrow> Inl ADAPTIVE_ERR_FORMAT
         | Inr x \<Rightarrow>
             if 6 < x AND 0x07 then Inl ADAPTIVE_ERR_FORMAT
             else Inr (b\<lparr>szx := ucast (x AND 0x07), more_flag := ucast (drop_bit 3 x AND 0x01),
                         block_number := drop_bit 4 x\<rparr>, True))
      else if option_number = 60 then
        outcome_bind (decode_uint v) (\<lambda>x. Inr (b\<lparr>size1 := x\<rparr>, found))
      else Inr (b, found))"

lemma decode_extended_offset:
  "decode_extended nibble packet offset = Inr (v, offset') \<Longrightarrow> offset \<le> offset'"
  by (auto simp: decode_extended_def split: if_splits)

text \<open>
  The option loop. \<open>packet[offset]\<close> is read only below the packet's length; the result
  is the offset of the payload marker (or the packet's length), the block, and the flag.
\<close>

function parse_options ::
    "bytes \<Rightarrow> nat \<Rightarrow> nat \<Rightarrow> coap_block \<Rightarrow> bool \<Rightarrow> (nat \<times> coap_block \<times> bool) outcome" where
  "parse_options packet offset option_number b found =
     (if offset < length packet \<and> packet ! offset \<noteq> 0xff then
        let header = packet ! offset
        in case decode_extended (drop_bit 4 header) packet (offset + 1) of
             Inl e \<Rightarrow> Inl e
           | Inr (delta, offset1) \<Rightarrow>
               (case decode_extended (header AND 0x0f) packet offset1 of
                  Inl e \<Rightarrow> Inl e
                | Inr (len, offset2) \<Rightarrow>
                    if length packet < offset2 \<or> length packet - offset2 < len \<or>
                       UINT_MAX - delta < option_number
                    then Inl ADAPTIVE_ERR_FORMAT
                    else (case apply_option (option_number + delta)
                                 (take len (drop offset2 packet)) b found of
                            Inl e \<Rightarrow> Inl e
                          | Inr (b', found') \<Rightarrow>
                              parse_options packet (offset2 + len) (option_number + delta) b' found'))
      else Inr (offset, b, found))"
  by pat_completeness auto
termination
  by (relation "measure (\<lambda>(packet, offset, option_number, b, found). length packet - offset)")
    (auto dest!: decode_extended_offset)

declare parse_options.simps [simp del]

definition adaptive_coap_parse_block1 :: "bytes option \<Rightarrow> bool \<Rightarrow> coap_block outcome" where
  "adaptive_coap_parse_block1 packet block_ok =
     (case packet of
        None \<Rightarrow> Inl ADAPTIVE_ERR_FORMAT
      | Some p \<Rightarrow>
          if \<not> block_ok \<or> length p < 4 \<or> drop_bit 6 (p ! 0) \<noteq> 1 \<or> 8 < p ! 0 AND 0x0f
          then Inl ADAPTIVE_ERR_FORMAT
          else
            let tkl = unat (p ! 0 AND 0x0f);
                b0 = zero_block\<lparr>cb_type := drop_bit 4 (p ! 0) AND 0x03, cb_code := p ! 1,
                       message_id := push_bit 8 (ucast (p ! 2)) OR ucast (p ! 3),
                       token_length := tkl\<rparr>
            in if length p < 4 + tkl then Inl ADAPTIVE_ERR_FORMAT
               else
                 let b1 = b0\<lparr>token := take tkl (drop 4 p) @ drop tkl (token b0)\<rparr>
                 in case parse_options p (4 + tkl) 0 b1 False of
                      Inl e \<Rightarrow> Inl e
                    | Inr (offset, b, found) \<Rightarrow>
                        if \<not> found then Inl ADAPTIVE_ERR_FORMAT
                        else if offset < length p then
                          if offset + 1 = length p then Inl ADAPTIVE_ERR_FORMAT
                          else Inr (b\<lparr>payload := Some (drop (offset + 1) p),
                                      payload_length := length p - (offset + 1)\<rparr>)
                        else Inr b)"

end
