(* ===== verification/Coap_Roundtrip.thy ===== *)
theory Coap_Roundtrip
  imports Coap
begin

text \<open>
  The writer and the parser of \<^verbatim>\<open>src/coap_block.c\<close> against each other. A written
  option is \<open>option_bytes\<close>; the parser consumes it in one iteration of its loop, whatever
  surrounds it; a packet is a header, a token, a run of options and perhaps a payload, so
  the parser reads back the block the writer was given.
\<close>

section \<open>Extended nibbles\<close>

lemma u8_le14: "(n :: u8) \<le> 14 \<Longrightarrow> unat n \<le> 14"
  by (simp add: word_le_nat_alt)

lemma encode_extended_Inr:
  "(\<exists>r. encode_extended v = Inr r) \<longleftrightarrow> v \<le> 65804"
  by (auto simp: encode_extended_def Let_def)

lemma encode_extended_nibble:
  "encode_extended v = Inr (n, ext) \<Longrightarrow> unat n \<le> 14 \<and> length ext \<le> 2"
  by (auto simp: encode_extended_def Let_def unat_of_nat split: if_splits)

lemma decode_encode_extended:
  assumes "encode_extended v = Inr (n, ext)"
  shows "decode_extended n (pre @ ext @ post) (length pre) = Inr (v, length pre + length ext)"
proof -
  consider "v < 13" | "13 \<le> v" "v < 269" | "269 \<le> v" "v \<le> 65804"
    using assms by (auto simp: encode_extended_def split: if_splits)
  then show ?thesis
  proof cases
    case 1
    then have "(word_of_nat v :: u8) < 13" "unat (word_of_nat v :: u8) = v"
      by (simp_all add: word_less_nat_alt unat_of_nat)
    then show ?thesis using assms 1
      by (auto simp: encode_extended_def decode_extended_def)
  next
    case 2
    then show ?thesis using assms
      by (auto simp: encode_extended_def decode_extended_def nth_append unat_of_nat
          simp del: of_nat_diff)
  next
    case 3
    let ?a = "v - 269"
    have "?a div 256 < 256" using 3 by auto
    then have "unat (word_of_nat (drop_bit 8 ?a) :: u8) * 256 + unat (word_of_nat ?a :: u8) = ?a"
      by (simp add: unat_of_nat drop_bit_eq_div take_bit_eq_mod)
    then show ?thesis using assms 3
      by (auto simp: encode_extended_def decode_extended_def nth_append Let_def)
  qed
qed

lemma nibble_take_bit: "unat (n :: u8) < 16 \<Longrightarrow> take_bit 4 n = n"
proof -
  assume "unat n < 16"
  then have "take_bit 4 (unat n) = unat n" by (simp add: take_bit_nat_eq_self_iff)
  then show ?thesis by (metis unsigned_take_bit_eq word_unat_eq_iff)
qed

lemma nibble_pack:
  assumes "unat a < 16" "unat b < 16"
  shows "drop_bit 4 (push_bit 4 a OR b) = (a :: u8)" "(push_bit 4 a OR b) AND 0x0f = b"
proof -
  have ab: "take_bit 4 a = a" "take_bit 4 b = b" using assms by (simp_all add: nibble_take_bit)
  have a4: "bit a k \<Longrightarrow> k < 4" and b4: "bit b k \<Longrightarrow> k < 4" for k
    using ab by (metis bit_take_bit_iff)+
  show "drop_bit 4 (push_bit 4 a OR b) = a"
    by (rule bit_word_eqI) (auto simp: bit_simps dest: a4 b4)
  have "(push_bit 4 a OR b) AND 0x0f = take_bit 4 (push_bit 4 a OR b)"
    by (simp add: take_bit_eq_mask mask_eq_exp_minus_1)
  also have "\<dots> = b"
    by (rule bit_word_eqI) (auto simp: bit_simps dest: b4)
  finally show "(push_bit 4 a OR b) AND 0x0f = b" .
qed

section \<open>One option\<close>

definition option_bytes :: "nat \<Rightarrow> bytes \<Rightarrow> bytes" where
  "option_bytes delta v =
     (case (encode_extended delta, encode_extended (length v)) of
        (Inr (dn, dx), Inr (nl, xl)) \<Rightarrow> [push_bit 4 dn OR nl] @ dx @ xl @ v
      | _ \<Rightarrow> [])"

lemma append_option_Inr:
  "append_option buf capacity delta v = Inr buf' \<longleftrightarrow>
     delta \<le> 65804 \<and> length v \<le> 65804 \<and> buf' = buf @ option_bytes delta v \<and>
     length buf' \<le> capacity"
proof (cases "delta \<le> 65804 \<and> length v \<le> 65804")
  case True
  then obtain dn dx nl xl where
    "encode_extended delta = Inr (dn, dx)" "encode_extended (length v) = Inr (nl, xl)"
    using encode_extended_Inr by (metis surj_pair)
  with True show ?thesis
    by (auto simp: append_option_def option_bytes_def UINT_MAX_def)
next
  case False
  then have "(\<nexists>r. encode_extended delta = Inr r) \<or> (\<nexists>r. encode_extended (length v) = Inr r)"
    unfolding encode_extended_Inr by auto
  with False show ?thesis
    by (auto simp: append_option_def res_simps)
qed

lemma append_option_error:
  "append_option buf capacity delta v = Inl e \<Longrightarrow>
     (e = ADAPTIVE_ERR_RANGE \<and> (65804 < delta \<or> 65804 < length v)) \<or>
     (e = ADAPTIVE_ERR_CAPACITY \<and> capacity < length buf + length (option_bytes delta v))"
  by (auto simp: append_option_def option_bytes_def encode_extended_def UINT_MAX_def Let_def
      split: if_splits)

lemma parse_option_step:
  assumes d: "delta \<le> 65804" and v: "length v \<le> 65804" and n: "number + delta \<le> UINT_MAX"
    and p: "p = pre @ option_bytes delta v @ post"
  shows "parse_options p (length pre) number b found =
    (case apply_option (number + delta) v b found of
       Inl e \<Rightarrow> Inl e
     | Inr (b', found') \<Rightarrow>
         parse_options p (length pre + length (option_bytes delta v)) (number + delta) b' found')"
proof -
  obtain dn dx where dx: "encode_extended delta = Inr (dn, dx)"
    using d encode_extended_Inr by (metis surj_pair)
  obtain nl xl where xl: "encode_extended (length v) = Inr (nl, xl)"
    using v encode_extended_Inr by (metis surj_pair)
  have small: "unat dn < 16" "unat nl < 16" "unat dn \<le> 14"
    using encode_extended_nibble [OF dx] encode_extended_nibble [OF xl] by auto
  define h where "h = push_bit 4 dn OR nl"
  have h: "drop_bit 4 h = dn" "h AND 0x0f = nl"
    unfolding h_def by (rule nibble_pack [OF small(1,2)])+
  have ob: "option_bytes delta v = [h] @ dx @ xl @ v"
    by (simp add: option_bytes_def dx xl h_def)
  have "h \<noteq> 0xff" using h(1) small(3) by auto
  moreover have "p ! length pre = h" by (simp add: p ob)
  moreover have "decode_extended dn p (length pre + 1) = Inr (delta, length pre + 1 + length dx)"
    using decode_encode_extended [OF dx, of "pre @ [h]" "xl @ v @ post"] by (simp add: p ob)
  moreover have "decode_extended nl p (length pre + 1 + length dx)
      = Inr (length v, length pre + 1 + length dx + length xl)"
    using decode_encode_extended [OF xl, of "pre @ [h] @ dx" "v @ post"] by (simp add: p ob)
  moreover have "take (length v) (drop (length pre + 1 + length dx + length xl) p) = v"
    by (simp add: p ob)
  moreover have "\<not> UINT_MAX - delta < number" using n by simp
  ultimately show ?thesis
    by (subst parse_options.simps) (simp add: h p ob add.assoc split: sum.split prod.split)
qed

section \<open>Integers\<close>

lemma push_drop_byte32: "push_bit 8 (drop_bit 8 w) OR ucast (ucast w :: u8) = (w :: u32)"
proof (rule bit_word_eqI)
  fix n assume "n < LENGTH(32)"
  then show "bit (push_bit 8 (drop_bit 8 w) OR ucast (ucast w :: u8)) n = bit w n"
    by (cases "n < 8") (simp_all add: bit_simps)
qed

lemma encode_uint_eq:
  "encode_uint v =
     (if v = 0 then [] else if v \<le> 0xff then [ucast v]
      else if v \<le> 0xffff then [ucast (drop_bit 8 v), ucast v]
      else if v \<le> 0xffffff then [ucast (drop_bit 16 v), ucast (drop_bit 8 v), ucast v]
      else [ucast (drop_bit 24 v), ucast (drop_bit 16 v), ucast (drop_bit 8 v), ucast v])"
  by (simp add: encode_uint_def upt_rec numeral_eq_Suc)

lemma length_encode_uint: "length (encode_uint v) \<le> 4"
  by (simp add: encode_uint_eq)

lemma drop_bit_zero_iff: "drop_bit k (v :: u32) = 0 \<longleftrightarrow> unat v < 2 ^ k"
proof -
  have "drop_bit k v = 0 \<longleftrightarrow> drop_bit k (unat v) = 0"
    by (metis unat_drop_bit_eq unsigned_0 word_unat_eq_iff)
  then show ?thesis by (simp add: drop_bit_eq_div div_eq_0_iff)
qed

lemma decode_encode_uint [simp]: "decode_uint (encode_uint v) = Inr v"
proof -
  define s where "s = (\<lambda>r b. push_bit 8 r OR ucast (b :: u8) :: u32)"
  have step: "s (drop_bit 8 w) (ucast w) = w" for w
    unfolding s_def by (rule push_drop_byte32)
  have s3: "s (drop_bit 24 v) (ucast (drop_bit 16 v)) = drop_bit 16 v"
    and s2: "s (drop_bit 16 v) (ucast (drop_bit 8 v)) = drop_bit 8 v"
    and s1: "s (drop_bit 8 v) (ucast v) = v"
    using step [of "drop_bit 16 v"] step [of "drop_bit 8 v"] step [of v]
    by (simp_all add: drop_bit_drop_bit)
  have s4: "s 0 (ucast (drop_bit 24 v)) = drop_bit 24 v"
  proof -
    have "drop_bit 32 v = 0" by (rule bit_word_eqI) (simp add: bit_simps)
    then show ?thesis using step [of "drop_bit 24 v"] by (simp add: drop_bit_drop_bit)
  qed
  have z: "v \<le> 0xff \<Longrightarrow> drop_bit 8 v = 0" "v \<le> 0xffff \<Longrightarrow> drop_bit 16 v = 0"
    "v \<le> 0xffffff \<Longrightarrow> drop_bit 24 v = 0"
    by (simp_all add: drop_bit_zero_iff word_le_nat_alt)
  have "decode_uint x = (if 4 < length x then Inl ADAPTIVE_ERR_FORMAT else Inr (foldl s 0 x))" for x
    by (simp add: decode_uint_def s_def)
  then show ?thesis
    using s1 s2 s3 s4 z by (auto simp: encode_uint_eq)
qed

section \<open>The URI path\<close>

text \<open>What \<open>append_uri_path\<close> computes: the non-empty pieces between slashes.\<close>

fun split_slash :: "string \<Rightarrow> string list" where
  "split_slash [] = [[]]"
| "split_slash (c # cs) =
     (if is_slash c then [] # split_slash cs
      else (c # hd (split_slash cs)) # tl (split_slash cs))"

definition path_segments :: "string \<Rightarrow> string list" where
  "path_segments s = filter (\<lambda>x. x \<noteq> []) (split_slash s)"

lemma path_segments_Nil [simp]: "path_segments [] = []"
  by (simp add: path_segments_def)

lemma path_segments_slash [simp]: "path_segments (dropWhile is_slash s) = path_segments s"
  by (induction s) (auto simp: path_segments_def)

lemma split_slash_segment:
  "split_slash s = takeWhile (\<lambda>c. \<not> is_slash c) s #
     (case dropWhile (\<lambda>c. \<not> is_slash c) s of [] \<Rightarrow> [] | _ # cs \<Rightarrow> split_slash cs)"
  by (induction s) auto

lemma path_segments_Cons:
  assumes "takeWhile (\<lambda>c. \<not> is_slash c) s \<noteq> []"
  shows "path_segments s = takeWhile (\<lambda>c. \<not> is_slash c) s #
    path_segments (dropWhile is_slash (dropWhile (\<lambda>c. \<not> is_slash c) s))"
proof -
  have eq: "path_segments s = takeWhile (\<lambda>c. \<not> is_slash c) s #
      filter (\<lambda>x. x \<noteq> []) (case dropWhile (\<lambda>c. \<not> is_slash c) s of [] \<Rightarrow> [] | _ # cs \<Rightarrow> split_slash cs)"
    using assms by (simp only: path_segments_def split_slash_segment [of s] filter.simps simp_thms if_True)
  show ?thesis
  proof (cases "dropWhile (\<lambda>c. \<not> is_slash c) s")
    case Nil
    show ?thesis unfolding eq unfolding Nil by simp
  next
    case (Cons c cs)
    then have "is_slash c" using hd_dropWhile [of "\<lambda>c. \<not> is_slash c" s] by simp
    then have "path_segments (dropWhile is_slash (c # cs)) = path_segments cs" by simp
    then show ?thesis unfolding eq unfolding Cons by (simp add: path_segments_def)
  qed
qed

lemma path_segments_skip:
  assumes "takeWhile (\<lambda>c. \<not> is_slash c) s = []"
  shows "dropWhile is_slash (dropWhile (\<lambda>c. \<not> is_slash c) s) = dropWhile is_slash s"
  using assms by (cases s) (auto split: if_splits)

text \<open>The options of a list of segments: the first with delta \<open>d\<close>, the others with 0.\<close>

fun segment_bytes :: "nat \<Rightarrow> string list \<Rightarrow> bytes" where
  "segment_bytes d [] = []"
| "segment_bytes d (x # xs) = option_bytes d (c_bytes x) @ segment_bytes 0 xs"

lemma length_c_bytes [simp]: "length (c_bytes s) = length s"
  by (simp add: c_bytes_def)

lemma append_segments_Inr:
  "prev \<le> 11 \<Longrightarrow> length buf \<le> capacity \<Longrightarrow>
   append_segments buf capacity cursor prev first = Inr (buf', prev') \<longleftrightarrow>
     (first \<longrightarrow> path_segments cursor \<noteq> []) \<and>
     (\<forall>x \<in> set (path_segments cursor). length x \<le> 65804) \<and>
     buf' = buf @ segment_bytes (if first then 11 - prev else 0) (path_segments cursor) \<and>
     prev' = (if path_segments cursor = [] then prev else 11) \<and> length buf' \<le> capacity"
proof (induction buf capacity cursor prev first arbitrary: buf' prev' rule: append_segments.induct)
  case (1 buf capacity cursor prev first)
  let ?seg = "takeWhile (\<lambda>c. \<not> is_slash c) cursor"
  let ?rest = "dropWhile is_slash (dropWhile (\<lambda>c. \<not> is_slash c) cursor)"
  let ?d = "if first then 11 - prev else 0"
  consider "cursor = []" | "cursor \<noteq> []" "?seg = []" | "cursor \<noteq> []" "?seg \<noteq> []" by blast
  then show ?case
  proof cases
    case 1
    then show ?thesis using "1.prems" by (subst append_segments.simps) auto
  next
    case 2
    then have "append_segments buf capacity cursor prev first
        = append_segments buf capacity ?rest prev first"
      by (subst append_segments.simps) simp
    moreover have "path_segments ?rest = path_segments cursor"
      using path_segments_skip [OF 2(2)] by simp
    ultimately show ?thesis
      using "1.IH"(2) [OF 2(1) refl refl] 2(2) "1.prems" by simp
  next
    case 3
    note IH = "1.IH"(1) [OF 3(1) refl refl _ refl, simplified 3(2)]
    have ps: "path_segments cursor = ?seg # path_segments ?rest"
      by (rule path_segments_Cons [OF 3(2)])
    have step: "append_segments buf capacity cursor prev first =
        (case append_option buf capacity ?d (c_bytes ?seg) of Inl e \<Rightarrow> Inl e
         | Inr b \<Rightarrow> append_segments b capacity ?rest 11 False)"
      using 3 by (subst append_segments.simps) (simp add: Let_def)
    show ?thesis
    proof (cases "append_option buf capacity ?d (c_bytes ?seg)")
      case (Inl e)
      then have "\<nexists>b. append_option buf capacity ?d (c_bytes ?seg) = Inr b" by simp
      then have "65804 < length ?seg \<or> capacity < length (buf @ option_bytes ?d (c_bytes ?seg))"
        unfolding append_option_Inr using "1.prems" by (auto simp: not_le)
      with Inl step show ?thesis by (auto simp: ps)
    next
      case (Inr b)
      then have b: "length ?seg \<le> 65804" "b = buf @ option_bytes ?d (c_bytes ?seg)"
          "length b \<le> capacity"
        unfolding append_option_Inr by auto
      have "append_segments b capacity ?rest 11 False = Inr (buf', prev') \<longleftrightarrow>
          (\<forall>x \<in> set (path_segments ?rest). length x \<le> 65804) \<and>
          buf' = b @ segment_bytes 0 (path_segments ?rest) \<and> prev' = 11 \<and> length buf' \<le> capacity"
        using IH [OF _ Inr] b(3) 3(2) by simp
      with Inr step b show ?thesis by (auto simp: ps)
    qed
  qed
qed

lemma append_uri_path_Inr:
  "length buf \<le> capacity \<Longrightarrow>
   append_uri_path buf capacity path 0 = Inr (buf', prev') \<longleftrightarrow>
     path_segments path \<noteq> [] \<and> (\<forall>x \<in> set (path_segments path). length x \<le> 65804) \<and>
     buf' = buf @ segment_bytes 11 (path_segments path) \<and> prev' = 11 \<and> length buf' \<le> capacity"
  by (auto simp: append_uri_path_def append_segments_Inr)

lemma apply_option_other:
  "n \<noteq> 12 \<Longrightarrow> n \<noteq> 27 \<Longrightarrow> n \<noteq> 60 \<Longrightarrow> apply_option n v b found = Inr (b, found)"
  by (simp add: apply_option_def)

lemma parse_segments:
  "\<forall>x \<in> set xs. length x \<le> 65804 \<Longrightarrow> n + d = 11 \<Longrightarrow> p = pre @ segment_bytes d xs @ post \<Longrightarrow>
   parse_options p (length pre) n b found =
   parse_options p (length pre + length (segment_bytes d xs)) (if xs = [] then n else 11) b found"
proof (induction xs arbitrary: pre n d)
  case Nil
  then show ?case by simp
next
  case (Cons x xs)
  have "parse_options p (length pre) n b found =
      parse_options p (length (pre @ option_bytes d (c_bytes x))) 11 b found"
    using Cons.prems parse_option_step [of d "c_bytes x" n p pre "segment_bytes 0 xs @ post"]
    by (simp add: UINT_MAX_def apply_option_other)
  also have "\<dots> = parse_options p
      (length (pre @ option_bytes d (c_bytes x)) + length (segment_bytes 0 xs)) 11 b found"
    using Cons.prems Cons.IH [of 11 0 "pre @ option_bytes d (c_bytes x)"] by simp
  finally show ?case by (simp add: add.assoc)
qed

section \<open>The packet\<close>

text \<open>
  What a C caller guarantees of the structure: the token array has eight bytes, and the
  payload pointer, when there is one, has \<open>payload_length\<close> readable bytes.
\<close>

definition block_wf :: "coap_block \<Rightarrow> bool" where
  "block_wf b \<longleftrightarrow> length (token b) = 8 \<and>
     (\<forall>d. payload b = Some d \<longrightarrow> payload_length b \<le> length d)"

definition sent_payload :: "coap_block \<Rightarrow> bytes" where
  "sent_payload b = (if 0 < payload_length b then take (payload_length b) (the (payload b)) else [])"

definition build_args_ok :: "coap_block \<Rightarrow> nat \<Rightarrow> bool" where
  "build_args_ok b capacity \<longleftrightarrow>
     token_length b \<le> 8 \<and> szx b \<le> 6 \<and> block_number b \<le> 0xfffff \<and>
     (0 < payload_length b \<longrightarrow> payload b \<noteq> None) \<and> 4 + token_length b \<le> capacity"

definition packet_bytes :: "coap_block \<Rightarrow> string list \<Rightarrow> bytes" where
  "packet_bytes b segments =
     coap_header b @ take (token_length b) (token b) @ segment_bytes 11 segments @
     option_bytes 1 (encode_uint (content_format b)) @
     option_bytes 15 (encode_uint (block1_value b)) @
     (if 0 < size1 b then option_bytes 33 (encode_uint (size1 b)) else []) @
     (if 0 < payload_length b then 0xff # sent_payload b else [])"

lemma length_sent_payload:
  "block_wf b \<Longrightarrow> (0 < payload_length b \<longrightarrow> payload b \<noteq> None) \<Longrightarrow>
   length (sent_payload b) = payload_length b"
  by (auto simp: block_wf_def sent_payload_def)

lemma length_coap_header [simp]: "length (coap_header b) = 4"
  by (simp add: coap_header_def)

lemma length_encode_uint_small [simp]: "length (encode_uint v) \<le> 65804"
  using length_encode_uint [of v] by simp

lemma build_Inr:
  assumes wf: "block_wf b"
  shows "adaptive_coap_build_block1 (Some b) (Some path) True capacity True = Inr pkt \<longleftrightarrow>
    build_args_ok b capacity \<and> path_segments path \<noteq> [] \<and>
    (\<forall>x \<in> set (path_segments path). length x \<le> 65804) \<and>
    pkt = packet_bytes b (path_segments path) \<and> length pkt \<le> capacity"
proof (cases "build_args_ok b capacity")
  case False
  then show ?thesis
    by (auto simp: adaptive_coap_build_block1_def build_args_ok_def not_le)
next
  case True
  then have tl: "token_length b \<le> 8" and pl: "0 < payload_length b \<longrightarrow> payload b \<noteq> None"
    and cap: "4 + token_length b \<le> capacity"
    by (auto simp: build_args_ok_def)
  have lt: "length (take (token_length b) (token b)) = token_length b"
    using wf tl by (simp add: block_wf_def)
  have guard: "\<not> (\<not> True \<or> \<not> True \<or> 8 < token_length b \<or> 6 < szx b \<or> 0xfffff < block_number b \<or>
      (0 < payload_length b \<and> payload b = None) \<or> capacity < 4 + token_length b)"
    using True by (auto simp: build_args_ok_def)
  have lp: "0 < payload_length b \<longrightarrow> length (take (payload_length b) (the (payload b))) = payload_length b"
    using length_sent_payload [OF wf pl] by (cases "payload_length b = 0") (auto simp: sent_payload_def)
  show ?thesis
    using True guard lp cap
    unfolding adaptive_coap_build_block1_def option.case prod.case if_not_P [OF guard]
    by (auto simp: res_simps append_uri_path_Inr lt append_option_Inr packet_bytes_def
        sent_payload_def split: if_splits)
qed

section \<open>Block1 fields\<close>

lemma block1_bits:
  assumes z: "szx b \<le> 6" and n: "block_number b \<le> 0xfffff"
  shows "block1_value b AND 0x07 = ucast (szx b)"
    and "drop_bit 3 (block1_value b) AND 0x01 = (if more_flag b \<noteq> 0 then 1 else 0)"
    and "drop_bit 4 (block1_value b) = block_number b"
proof -
  have z3: "take_bit 3 (szx b) = szx b"
  proof -
    have "unat (szx b) < 2 ^ 3" using z by (simp add: word_le_nat_alt)
    then show ?thesis by (metis take_bit_nat_eq_self_iff unsigned_take_bit_eq word_unat_eq_iff)
  qed
  then have zb: "bit (szx b) k \<Longrightarrow> k < 3" for k by (metis bit_take_bit_iff)
  have "take_bit 20 (block_number b) = block_number b"
  proof -
    have "unat (block_number b) < 2 ^ 20" using n by (simp add: word_le_nat_alt)
    then show ?thesis by (metis take_bit_nat_eq_self_iff unsigned_take_bit_eq word_unat_eq_iff)
  qed
  then have nb: "bit (block_number b) k \<Longrightarrow> k < 20" for k by (metis bit_take_bit_iff)
  have and7: "x AND 0x07 = take_bit 3 x" for x :: u32
    by (simp add: take_bit_eq_mask mask_eq_exp_minus_1)
  show "block1_value b AND 0x07 = ucast (szx b)"
    unfolding and7 block1_value_def
    by (rule bit_word_eqI) (auto simp: bit_simps dest: zb)
  show "drop_bit 3 (block1_value b) AND 0x01 = (if more_flag b \<noteq> 0 then 1 else 0)"
  proof -
    have "bit (block1_value b) 3 \<longleftrightarrow> more_flag b \<noteq> 0"
      by (auto simp: block1_value_def bit_simps dest: zb)
    then have "odd (drop_bit 3 (block1_value b)) \<longleftrightarrow> more_flag b \<noteq> 0"
      by (simp add: bit_iff_odd_drop_bit)
    then show ?thesis
      by (auto simp: and_one_eq even_iff_mod_2_eq_zero odd_iff_mod_2_eq_one)
  qed
  show "drop_bit 4 (block1_value b) = block_number b"
    unfolding block1_value_def
    by (rule bit_word_eqI) (auto simp: bit_simps bit_1_iff dest: zb nb)
qed

lemma header_bits:
  fixes t :: u8
  assumes "n \<le> 8"
  assumes h_def: "h = 0x40 OR push_bit 4 (t AND 0x03) OR word_of_nat n"
  shows "drop_bit 6 h = (1 :: u8)" "h AND 0x0f = word_of_nat n" "drop_bit 4 h AND 0x03 = t AND 0x03"
proof -
  define w where "w = (word_of_nat n :: u8)"
  have "unat w < 16" using assms(1) by (simp add: w_def unat_of_nat)
  then have "take_bit 4 w = w" by (rule nibble_take_bit)
  then have nb: "bit w k \<Longrightarrow> k < 4" for k by (metis bit_take_bit_iff)
  have c: "(0x40 :: u8) = push_bit 6 1" by simp
  have and3: "x AND 0x03 = take_bit 2 x" for x :: u8
    by (simp add: take_bit_eq_mask mask_eq_exp_minus_1)
  have and15: "x AND 0x0f = take_bit 4 x" for x :: u8
    by (simp add: take_bit_eq_mask mask_eq_exp_minus_1)
  show "drop_bit 6 h = 1" unfolding h_def w_def [symmetric] c and3
    by (rule bit_word_eqI) (auto simp: bit_simps bit_1_iff dest: nb)
  show "h AND 0x0f = word_of_nat n" unfolding h_def w_def [symmetric] c and3 and15
    by (rule bit_word_eqI) (auto simp: bit_simps bit_1_iff dest: nb)
  show "drop_bit 4 h AND 0x03 = t AND 0x03" unfolding h_def w_def [symmetric] c and3
    by (rule bit_word_eqI) (auto simp: bit_simps bit_1_iff dest: nb)
qed

lemma message_id_bytes:
  "push_bit 8 (ucast (ucast (drop_bit 8 m) :: u8)) OR ucast (ucast m :: u8) = (m :: u16)"
proof (rule bit_word_eqI)
  fix n assume "n < LENGTH(16)"
  then show "bit (push_bit 8 (ucast (ucast (drop_bit 8 m) :: u8)) OR ucast (ucast m :: u8) :: u16) n = bit m n"
    by (cases "n < 8") (auto simp: bit_simps)
qed

section \<open>Reading back\<close>

text \<open>
  The block a receiver sees: type reduced to two bits, the unused token bytes zero, the
  More flag normalised, the payload cut to its length.
\<close>

definition received_block :: "coap_block \<Rightarrow> coap_block" where
  "received_block b =
     b\<lparr>cb_type := cb_type b AND 0x03,
       token := take (token_length b) (token b) @ replicate (8 - token_length b) 0,
       more_flag := (if more_flag b \<noteq> 0 then 1 else 0),
       payload := (if 0 < payload_length b then Some (sent_payload b) else None)\<rparr>"

lemma apply_option_fields:
  "apply_option 12 (encode_uint c) b found = Inr (b\<lparr>content_format := c\<rparr>, found)"
  "apply_option 60 (encode_uint z) b found = Inr (b\<lparr>size1 := z\<rparr>, found)"
  by (simp_all add: apply_option_def)

lemma apply_option_block1:
  assumes "szx a \<le> 6" "block_number a \<le> 0xfffff"
  shows "apply_option 27 (encode_uint (block1_value a)) b found =
    Inr (b\<lparr>szx := szx a, more_flag := (if more_flag a \<noteq> 0 then 1 else 0),
           block_number := block_number a\<rparr>, True)"
proof -
  have "\<not> 6 < (ucast (szx a) :: u32)"
    using assms(1) unat_u8_less [of "szx a"]
    by (simp add: word_le_nat_alt word_less_nat_alt unsigned_ucast_eq take_bit_nat_eq_self)
  moreover have "ucast (ucast (szx a) :: u32) = szx a"
    by (rule bit_word_eqI) (simp add: bit_simps)
  ultimately show ?thesis
    by (simp add: apply_option_def block1_bits [OF assms])
qed

lemma parse_options_end:
  "offset = length p \<or> p ! offset = 0xff \<Longrightarrow> parse_options p offset n b found = Inr (offset, b, found)"
  by (subst parse_options.simps) auto

text \<open>The option loop on a whole packet, from just after the token.\<close>

lemma parse_packet_options:
  assumes b: "szx b \<le> 6" "block_number b \<le> 0xfffff"
    and xs: "xs \<noteq> []" "\<forall>x \<in> set xs. length x \<le> 65804"
    and tail: "tail = [] \<or> (\<exists>d. tail = 0xff # d)"
    and p: "p = pre @ segment_bytes 11 xs @ option_bytes 1 (encode_uint (content_format b)) @
      option_bytes 15 (encode_uint (block1_value b)) @
      (if 0 < size1 b then option_bytes 33 (encode_uint (size1 b)) else []) @ tail"
  shows "parse_options p (length pre) 0 a False =
    Inr (length p - length tail,
         a\<lparr>content_format := content_format b, szx := szx b,
           more_flag := (if more_flag b \<noteq> 0 then 1 else 0), block_number := block_number b,
           size1 := (if 0 < size1 b then size1 b else size1 a)\<rparr>, True)"
proof -
  let ?o1 = "option_bytes 1 (encode_uint (content_format b))"
  let ?o2 = "option_bytes 15 (encode_uint (block1_value b))"
  let ?o3 = "option_bytes 33 (encode_uint (size1 b))"
  let ?r3 = "(if 0 < size1 b then ?o3 else []) @ tail"
  let ?p0 = "pre @ segment_bytes 11 xs"
  let ?a1 = "a\<lparr>content_format := content_format b\<rparr>"
  let ?a2 = "?a1\<lparr>szx := szx b, more_flag := (if more_flag b \<noteq> 0 then 1 else 0),
    block_number := block_number b\<rparr>"
  have p0: "p = pre @ segment_bytes 11 xs @ (?o1 @ ?o2 @ ?r3)" using p by simp
  have p1: "p = ?p0 @ ?o1 @ (?o2 @ ?r3)" using p by simp
  have p2: "p = (?p0 @ ?o1) @ ?o2 @ ?r3" using p by simp
  have s0: "parse_options p (length pre) 0 a False = parse_options p (length ?p0) 11 a False"
    using parse_segments [OF xs(2) _ p0, of 0] xs(1) by simp
  have s1: "parse_options p (length ?p0) 11 a False
      = parse_options p (length (?p0 @ ?o1)) 12 ?a1 False"
    using parse_option_step [OF _ _ _ p1, of 11]
    by (simp add: UINT_MAX_def apply_option_fields add.assoc)
  have s2: "parse_options p (length (?p0 @ ?o1)) 12 ?a1 False
      = parse_options p (length (?p0 @ ?o1 @ ?o2)) 27 ?a2 True"
    using parse_option_step [OF _ _ _ p2, of 12]
    by (simp add: UINT_MAX_def apply_option_block1 [OF b] add.assoc)
  note s = s0 s1 s2
  show ?thesis
  proof (cases "0 < size1 b")
    case True
    have p3: "p = (?p0 @ ?o1 @ ?o2) @ ?o3 @ tail" using p True by simp
    have "parse_options p (length (?p0 @ ?o1 @ ?o2)) 27 ?a2 True
        = parse_options p (length (?p0 @ ?o1 @ ?o2 @ ?o3)) 60 (?a2\<lparr>size1 := size1 b\<rparr>) True"
      using parse_option_step [OF _ _ _ p3, of 27]
      by (simp add: UINT_MAX_def apply_option_fields add.assoc)
    also have "\<dots> = Inr (length (?p0 @ ?o1 @ ?o2 @ ?o3), ?a2\<lparr>size1 := size1 b\<rparr>, True)"
      using tail p True by (intro parse_options_end) (auto simp: nth_append)
    finally show ?thesis using s p True by (simp add: add.assoc)
  next
    case False
    have "parse_options p (length (?p0 @ ?o1 @ ?o2)) 27 ?a2 True
        = Inr (length (?p0 @ ?o1 @ ?o2), ?a2, True)"
      using tail p False by (intro parse_options_end) (auto simp: nth_append)
    with s p False show ?thesis by (simp add: add.assoc)
  qed
qed

lemma parse_packet_bytes:
  assumes wf: "block_wf b" and args: "build_args_ok b capacity"
    and xs: "xs \<noteq> []" "\<forall>x \<in> set xs. length x \<le> 65804"
  shows "adaptive_coap_parse_block1 (Some (packet_bytes b xs)) True = Inr (received_block b)"
proof -
  let ?p = "packet_bytes b xs" and ?t = "take (token_length b) (token b)"
  let ?tail = "if 0 < payload_length b then 0xff # sent_payload b else []"
  have tl: "token_length b \<le> 8" and z: "szx b \<le> 6" "block_number b \<le> 0xfffff"
    and pl: "0 < payload_length b \<longrightarrow> payload b \<noteq> None"
    using args by (auto simp: build_args_ok_def)
  have lt: "length ?t = token_length b" using wf tl by (simp add: block_wf_def)
  have hd: "?p ! 0 = 0x40 OR push_bit 4 (cb_type b AND 0x03) OR word_of_nat (token_length b)"
    by (simp add: packet_bytes_def coap_header_def)
  note hb = header_bits [OF tl hd]
  have un: "unat (word_of_nat (token_length b) :: u8) = token_length b"
    using tl by (simp add: unat_of_nat)
  have len: "4 + token_length b \<le> length ?p"
    using lt by (simp add: packet_bytes_def)
  define a where "a = zero_block\<lparr>cb_type := cb_type b AND 0x03, cb_code := cb_code b,
    message_id := message_id b, token_length := token_length b,
    token := ?t @ replicate (8 - token_length b) 0\<rparr>"
  have opts: "parse_options ?p (4 + token_length b) 0 a False =
      Inr (length ?p - length ?tail,
        a\<lparr>content_format := content_format b, szx := szx b,
          more_flag := (if more_flag b \<noteq> 0 then 1 else 0), block_number := block_number b,
          size1 := (if 0 < size1 b then size1 b else size1 a)\<rparr>, True)"
    using parse_packet_options [OF z xs, of ?tail ?p "coap_header b @ ?t" a] lt
    by (simp add: packet_bytes_def)
  have size: "(if 0 < size1 b then size1 b else 0) = size1 b"
    by (cases "size1 b = 0") (simp_all add: word_greater_zero_iff)
  have sp: "length (sent_payload b) = payload_length b" by (rule length_sent_payload [OF wf pl])
  have drop: "drop (length ?p - payload_length b) ?p = sent_payload b" if "0 < payload_length b"
    using that sp by (simp add: packet_bytes_def)
  have tok: "take (token_length b) (drop 4 ?p) = ?t"
    using lt by (simp add: packet_bytes_def)
  have h123: "?p ! 1 = cb_code b" "push_bit 8 (ucast (?p ! 2)) OR ucast (?p ! 3) = message_id b"
    by (simp_all add: packet_bytes_def coap_header_def message_id_bytes)
  have l4: "\<not> length ?p < 4" "\<not> length ?p < 4 + token_length b" using len by auto
  have tkl: "unat (?p ! 0 AND 0x0f) = token_length b" by (simp only: hb un)
  have guard: "\<not> 8 < ?p ! 0 AND 0x0f"
    using tl un by (simp only: hb) (simp add: word_less_nat_alt)
  have parse: "adaptive_coap_parse_block1 (Some ?p) True =
      (case parse_options ?p (4 + token_length b) 0 a False of
         Inl e \<Rightarrow> Inl e
       | Inr (offset, b, found) \<Rightarrow>
           if \<not> found then Inl ADAPTIVE_ERR_FORMAT
           else if offset < length ?p then
             if offset + 1 = length ?p then Inl ADAPTIVE_ERR_FORMAT
             else Inr (b\<lparr>payload := Some (drop (offset + 1) ?p),
                         payload_length := length ?p - (offset + 1)\<rparr>)
           else Inr b)"
    using l4 by (simp add: adaptive_coap_parse_block1_def hb(1,3) guard tkl h123 [simplified] tok
        a_def zero_block_def Let_def)
  show ?thesis
  proof (cases "0 < payload_length b")
    case True
    then have k: "length ?p - length ?tail + 1 = length ?p - payload_length b"
        "length ?p - length ?tail < length ?p" "length ?p - payload_length b \<noteq> length ?p"
        "length ?p - (length ?p - payload_length b) = payload_length b"
      using sp by (auto simp: packet_bytes_def)
    show ?thesis
      unfolding parse opts sum.case prod.case k drop [OF True] using k(2,3) True size
      by (auto simp: a_def zero_block_def received_block_def intro!: coap_block.equality)
  next
    case False
    then have k: "length ?p - length ?tail = length ?p" and pl0: "payload_length b = 0" by simp_all
    show ?thesis
      unfolding parse opts sum.case prod.case k using size
      by (auto simp: pl0 a_def zero_block_def received_block_def intro!: coap_block.equality)
  qed
qed

section \<open>What the parser guarantees of any packet\<close>

text \<open>
  The state of the option loop stays inside the packet, leaves the fields the header set
  alone, and keeps the Block1 fields in range.
\<close>

definition block1_ok :: "coap_block \<Rightarrow> bool" where
  "block1_ok b \<longleftrightarrow> szx b \<le> 6 \<and> more_flag b \<le> 1 \<and> block_number b \<le> 0xfffffff"

definition same_header :: "coap_block \<Rightarrow> coap_block \<Rightarrow> bool" where
  "same_header a b \<longleftrightarrow>
     cb_type a = cb_type b \<and> cb_code a = cb_code b \<and> message_id a = message_id b \<and>
     token a = token b \<and> token_length a = token_length b \<and>
     payload a = payload b \<and> payload_length a = payload_length b"

lemma same_header_refl [simp]: "same_header a a"
  by (simp add: same_header_def)

lemma same_header_trans: "same_header a b \<Longrightarrow> same_header b c \<Longrightarrow> same_header a c"
  by (simp add: same_header_def)

lemma block1_field_bounds:
  fixes x :: u32
  assumes "\<not> 6 < x AND 0x07"
  shows "(ucast (x AND 0x07) :: u8) \<le> 6" "(ucast (drop_bit 3 x AND 0x01) :: u8) \<le> 1"
    "drop_bit 4 x \<le> 0xfffffff"
proof -
  have "unat (x AND 0x07) \<le> 6" using assms by (simp add: word_less_nat_alt)
  then show "(ucast (x AND 0x07) :: u8) \<le> 6"
    by (simp add: word_le_nat_alt unsigned_ucast_eq take_bit_nat_eq_self)
  have "unat (drop_bit 3 x AND 0x01) \<le> 1"
    by (auto simp: and_one_eq mod_2_eq_odd)
  then show "(ucast (drop_bit 3 x AND 0x01) :: u8) \<le> 1"
    by (simp add: word_le_nat_alt unsigned_ucast_eq take_bit_nat_eq_self)
  have "unat (drop_bit 4 x) = unat x div 16" by (simp add: drop_bit_eq_div unat_div_distrib)
  also have "\<dots> \<le> 0xfffffff" using unat_u32_less [of x] by linarith
  finally show "drop_bit 4 x \<le> 0xfffffff" by (simp add: word_le_nat_alt)
qed

lemma apply_option_keeps:
  "apply_option n v b found = Inr (b', found') \<Longrightarrow>
   same_header b b' \<and> (block1_ok b \<longrightarrow> block1_ok b') \<and> (found \<longrightarrow> found')"
  by (auto simp: apply_option_def res_simps same_header_def block1_ok_def
      dest: block1_field_bounds split: if_splits sum.splits)

lemma parse_options_keeps:
  "parse_options p offset n b found = Inr (offset', b', found') \<Longrightarrow> offset \<le> length p \<Longrightarrow>
   offset \<le> offset' \<and> offset' \<le> length p \<and> (offset' < length p \<longrightarrow> p ! offset' = 0xff) \<and>
   same_header b b' \<and> (block1_ok b \<longrightarrow> block1_ok b') \<and> (found \<longrightarrow> found')"
proof (induction p offset n b found rule: parse_options.induct)
  case (1 p offset n b found)
  show ?case
  proof (cases "offset < length p \<and> p ! offset \<noteq> 0xff")
    case False
    then have "parse_options p offset n b found = Inr (offset, b, found)"
      using "1.prems"(2) by (intro parse_options_end) auto
    with False "1.prems" show ?thesis by auto
  next
    case True
    with "1.prems"(1) obtain d o1 l o2 b1 f1 where
      d: "decode_extended (drop_bit 4 (p ! offset)) p (offset + 1) = Inr (d, o1)" and
      l: "decode_extended (p ! offset AND 0x0f) p o1 = Inr (l, o2)" and
      g: "\<not> (length p < o2 \<or> length p - o2 < l \<or> UINT_MAX - d < n)" and
      a: "apply_option (n + d) (take l (drop o2 p)) b found = Inr (b1, f1)" and
      r: "parse_options p (o2 + l) (n + d) b1 f1 = Inr (offset', b', found')"
      by (subst (asm) parse_options.simps) (auto simp: Let_def split: sum.splits if_splits)
    have "offset < o2 + l" "o2 + l \<le> length p"
      using decode_extended_offset [OF d] decode_extended_offset [OF l] g by auto
    with "1.IH" [OF True refl d refl l refl g a refl r] apply_option_keeps [OF a]
    show ?thesis by (auto intro: same_header_trans)
  qed
qed

section \<open>Properties\<close>

text \<open>
  C7: a packet the writer produced is read back by the parser as the block the writer was
  given (type cut to its two bits, unused token bytes zero, More normalised to 0 or 1, the
  URI path dropped), for every block, path and capacity on which the writer succeeds.
\<close>

theorem coap_build_parse_roundtrip:
  assumes "block_wf b"
    and "adaptive_coap_build_block1 (Some b) (Some path) True capacity True = Inr pkt"
  shows "adaptive_coap_parse_block1 (Some pkt) True = Inr (received_block b)"
  using assms parse_packet_bytes by (auto simp: build_Inr)

definition example_block :: coap_block where
  "example_block = zero_block\<lparr>cb_code := 2, message_id := 0x1234,
     token := [87, 48, 48, 49, 0, 0, 0, 0], token_length := 4, block_number := 3,
     more_flag := 1, szx := 2, content_format := 42, size1 := 200,
     payload := Some [1, 2, 3], payload_length := 3\<rparr>"

definition example_packet :: bytes where
  "example_packet =
     [68, 2, 18, 52, 87, 48, 48, 49, 185, 116, 101, 108, 101, 109, 101, 116, 114, 121,
      4, 100, 97, 116, 97, 17, 42, 209, 2, 58, 209, 20, 200, 255, 1, 2, 3]"

lemma example_block_wf: "block_wf example_block"
  by (simp add: block_wf_def example_block_def)

lemma example_packet_bytes:
  "packet_bytes example_block [''telemetry'', ''data''] = example_packet"
  by (simp add: packet_bytes_def coap_header_def example_block_def zero_block_def example_packet_def
      option_bytes_def encode_extended_def encode_uint_eq block1_value_def c_bytes_def
      sent_payload_def)

lemma example_path: "path_segments ''/telemetry/data'' = [''telemetry'', ''data'']"
  by (simp add: path_segments_def)

lemma example_build:
  "adaptive_coap_build_block1 (Some example_block) (Some ''/telemetry/data'') True 256 True
   = Inr example_packet"
  unfolding build_Inr [OF example_block_wf] example_path example_packet_bytes
  by (simp add: build_args_ok_def example_block_def zero_block_def example_packet_def)

lemma example_parse:
  "adaptive_coap_parse_block1 (Some example_packet) True = Inr (received_block example_block)"
  unfolding example_packet_bytes [symmetric]
  by (rule parse_packet_bytes [OF example_block_wf, of 256])
    (simp_all add: build_args_ok_def example_block_def zero_block_def)

theorem coap_build_parse_roundtrip_witness:
  "adaptive_coap_parse_block1 (Some example_packet) True = Inr (received_block example_block)"
  by (rule coap_build_parse_roundtrip [OF example_block_wf example_build])

text \<open>
  C8: the writer succeeds exactly when its arguments are in range, the path has a
  non-empty segment, no segment is longer than an option can carry, and the packet fits
  the capacity; and then the packet is the header, the token, one Uri-Path option per
  non-empty segment, Content-Format, Block1, Size1 if it is not zero, and the payload
  behind its marker.
\<close>

theorem coap_build_exact:
  assumes "block_wf b"
  shows "adaptive_coap_build_block1 (Some b) (Some path) True capacity True = Inr pkt \<longleftrightarrow>
    build_args_ok b capacity \<and> path_segments path \<noteq> [] \<and>
    list_all (\<lambda>x. length x \<le> 65804) (path_segments path) \<and>
    pkt = packet_bytes b (path_segments path) \<and> length pkt \<le> capacity"
  using build_Inr [OF assms] by (simp add: list_all_iff)

theorem coap_build_exact_witness:
  "example_packet = packet_bytes example_block (path_segments ''/telemetry/data'')"
  using coap_build_exact [OF example_block_wf, of "''/telemetry/data''" 256 example_packet]
    example_build by simp

lemma coap_parse_wf:
  assumes "adaptive_coap_parse_block1 (Some p) True = Inr b"
  shows "block_wf b \<and> block1_ok b \<and> token_length b \<le> 8 \<and> 4 + token_length b \<le> length p \<and>
    payload b = (if payload_length b = 0 then None else Some (drop (length p - payload_length b) p)) \<and>
    payload_length b \<le> length p"
proof -
  let ?tkl = "unat (p ! 0 AND 0x0f)"
  define b1 where "b1 = zero_block\<lparr>cb_type := drop_bit 4 (p ! 0) AND 0x03, cb_code := p ! 1,
      message_id := push_bit 8 (ucast (p ! 2)) OR ucast (p ! 3), token_length := ?tkl,
      token := take ?tkl (drop 4 p) @ drop ?tkl (replicate 8 0)\<rparr>"
  from assms obtain offset b' where
    tk: "\<not> 8 < p ! 0 AND 0x0f" and len: "\<not> length p < 4 + ?tkl" and
    po: "parse_options p (4 + ?tkl) 0 b1 False = Inr (offset, b', True)" and
    off: "offset + 1 \<noteq> length p" and
    b: "b = (if offset < length p then b'\<lparr>payload := Some (drop (offset + 1) p),
        payload_length := length p - (offset + 1)\<rparr> else b')"
    by (auto simp: adaptive_coap_parse_block1_def b1_def zero_block_def Let_def
        split: if_splits sum.splits)
  have tl: "?tkl \<le> 8" using tk by (simp add: word_less_nat_alt)
  have k: "same_header b1 b'" "offset \<le> length p" "4 + ?tkl \<le> offset" "block1_ok b1 \<longrightarrow> block1_ok b'"
    using parse_options_keeps [OF po] len by auto
  have ok: "block1_ok b'" using k(4) by (simp add: block1_ok_def b1_def zero_block_def)
  have "length (token b1) = 8" "payload b1 = None" "payload_length b1 = 0" "token_length b1 = ?tkl"
    using tl len by (simp_all add: b1_def zero_block_def)
  with k(1) have h: "length (token b') = 8" "payload b' = None" "payload_length b' = 0"
      "token_length b' = ?tkl"
    by (simp_all add: same_header_def)
  show ?thesis
  proof (cases "offset < length p")
    case True
    then show ?thesis using b h tl k off ok by (auto simp: block_wf_def block1_ok_def)
  next
    case False
    then show ?thesis using b h tl len k ok by (auto simp: block_wf_def)
  qed
qed

text \<open>
  C9: whatever bytes arrive, a block the parser accepts is well formed: the token length is
  at most eight, the SZX is not the reserved 7, More is 0 or 1, a payload is present
  exactly when its length is not zero, and it is the end of the packet.
\<close>

theorem coap_parse_safe:
  assumes "adaptive_coap_parse_block1 (Some p) True = Inr b"
  shows "block_wf b \<and> block1_ok b \<and> token_length b \<le> 8 \<and> 4 + token_length b \<le> length p \<and>
    payload b = (if payload_length b = 0 then None else Some (drop (length p - payload_length b) p)) \<and>
    payload_length b \<le> length p"
  by (rule coap_parse_wf [OF assms])

theorem coap_parse_safe_witness: "block1_ok (received_block example_block)"
  using coap_parse_safe [OF example_parse] by simp

end
