(* ===== verification/Aad.thy ===== *)
theory Aad
  imports Coap
begin

text \<open>
  \<^verbatim>\<open>src/aad.c\<close>: the additional data that binds a sealed record to the CoAP block it
  travels in, and exactly which header fields it binds.
\<close>

text \<open>The bytes written; the returned length is the length of the list.\<close>

definition adaptive_pipeline_build_aad :: "coap_block option \<Rightarrow> bool \<Rightarrow> bytes" where
  "adaptive_pipeline_build_aad block output_ok =
     (case block of
        None \<Rightarrow> []
      | Some b \<Rightarrow>
          if \<not> output_ok then []
          else
            let copy = (if token_length b < 4 then token_length b else 4)
            in [0xa1, cb_type b, cb_code b, szx b, more_flag b, word_of_nat (token_length b)] @
               write_u32_be (block_number b) @
               take copy (token b) @ replicate (4 - copy) 0 @
               [ucast (drop_bit 8 (content_format b)), ucast (content_format b)])"

lemma build_aad_length:
  "length (token b) = 8 \<Longrightarrow> length (adaptive_pipeline_build_aad (Some b) True) = 16"
  by (simp add: adaptive_pipeline_build_aad_def Let_def)

text \<open>The additional data does not see the message id, Size1 and the payload.\<close>

lemma build_aad_ignores [simp]:
  "adaptive_pipeline_build_aad (Some (b\<lparr>message_id := m\<rparr>)) ok = adaptive_pipeline_build_aad (Some b) ok"
  "adaptive_pipeline_build_aad (Some (b\<lparr>size1 := s\<rparr>)) ok = adaptive_pipeline_build_aad (Some b) ok"
  "adaptive_pipeline_build_aad (Some (b\<lparr>payload := p\<rparr>)) ok = adaptive_pipeline_build_aad (Some b) ok"
  "adaptive_pipeline_build_aad (Some (b\<lparr>payload_length := n\<rparr>)) ok = adaptive_pipeline_build_aad (Some b) ok"
  by (simp_all add: adaptive_pipeline_build_aad_def)

text \<open>What two blocks must share for a record of one to open as a record of the other.\<close>

definition same_aad_fields :: "coap_block \<Rightarrow> coap_block \<Rightarrow> bool" where
  "same_aad_fields a b \<longleftrightarrow>
     cb_type a = cb_type b \<and> cb_code a = cb_code b \<and> szx a = szx b \<and> more_flag a = more_flag b \<and>
     token_length a = token_length b \<and> block_number a = block_number b \<and>
     take (min 4 (token_length a)) (token a) = take (min 4 (token_length b)) (token b) \<and>
     take_bit 16 (content_format a) = take_bit 16 (content_format b)"

lemma low_half_bytes:
  "(ucast (drop_bit 8 (x :: u32)) :: u8) = ucast (drop_bit 8 y) \<and> (ucast x :: u8) = ucast y
   \<longleftrightarrow> take_bit 16 x = take_bit 16 (y :: u32)"
proof
  assume eq: "(ucast (drop_bit 8 x) :: u8) = ucast (drop_bit 8 y) \<and> (ucast x :: u8) = ucast y"
  have bits: "bit (ucast (drop_bit 8 x) :: u8) n = bit (ucast (drop_bit 8 y) :: u8) n"
    "bit (ucast x :: u8) n = bit (ucast y :: u8) n" for n using eq by simp_all
  show "take_bit 16 x = take_bit 16 y"
  proof (rule bit_word_eqI)
    fix n assume "n < LENGTH(32)"
    show "bit (take_bit 16 x) n = bit (take_bit 16 y) n"
      using bits(1) [of "n - 8"] bits(2) [of n] by (cases "n < 8") (auto simp: bit_simps)
  qed
next
  assume eq: "take_bit 16 x = take_bit 16 y"
  have "bit (take_bit 16 x) n = bit (take_bit 16 y) n" for n using eq by simp
  then have b: "n < 16 \<Longrightarrow> bit x n = bit y n" for n by (auto simp: bit_simps)
  show "(ucast (drop_bit 8 x) :: u8) = ucast (drop_bit 8 y) \<and> (ucast x :: u8) = ucast y"
    by (intro conjI bit_word_eqI) (simp_all add: bit_simps b)
qed

lemma word_of_nat_u8_inj: "m < 256 \<Longrightarrow> n < 256 \<Longrightarrow> (word_of_nat m :: u8) = word_of_nat n \<longleftrightarrow> m = n"
  by (simp add: word_of_nat_eq_iff take_bit_nat_eq_self)

text \<open>
  C13: the additional data of two blocks is equal exactly when they agree in type, code,
  SZX, More, token length, block number, the first four token bytes and the low sixteen
  bits of Content-Format. Message id, Size1 and token bytes five to eight are not bound.
\<close>

theorem build_aad_binding:
  assumes "length (token a) = 8" "length (token b) = 8" "token_length a \<le> 8" "token_length b \<le> 8"
  shows "adaptive_pipeline_build_aad (Some a) True = adaptive_pipeline_build_aad (Some b) True
    \<longleftrightarrow> same_aad_fields a b"
proof -
  have tl: "(word_of_nat (token_length a) :: u8) = word_of_nat (token_length b) \<longleftrightarrow>
      token_length a = token_length b"
    by (rule word_of_nat_u8_inj) (use assms in linarith)+
  have copy: "(if n < 4 then n else 4) = min 4 n" for n :: nat by auto
  show ?thesis
    unfolding same_aad_fields_def low_half_bytes [symmetric]
    using assms tl write_u32_be_inj [of "block_number a" "block_number b"]
    by (auto simp: adaptive_pipeline_build_aad_def Let_def copy append_eq_append_conv)
qed

theorem build_aad_binding_witness:
  "same_aad_fields (zero_block\<lparr>token_length := 4, message_id := 7\<rparr>) (zero_block\<lparr>token_length := 4\<rparr>) \<and>
   adaptive_pipeline_build_aad (Some (zero_block\<lparr>token_length := 4, message_id := 7\<rparr>)) True =
   adaptive_pipeline_build_aad (Some (zero_block\<lparr>token_length := 4\<rparr>)) True"
  using build_aad_binding [of "zero_block\<lparr>token_length := 4, message_id := 7\<rparr>" "zero_block\<lparr>token_length := 4\<rparr>"]
  by (simp add: zero_block_def same_aad_fields_def)

end
