(* ===== verification/Security.thy ===== *)
theory Security
  imports Byte_Order
begin

text \<open>
  \<^verbatim>\<open>include/adaptive/security.h\<close> and \<^verbatim>\<open>src/security.c\<close>: the provider interface.
  A session is a structure of function pointers over a context the provider owns; the
  context is the type parameter, a \<open>NULL\<close> function or context pointer is \<open>None\<close>. A
  provider function that writes its context returns the new one. Then the contract every
  record layer of the program keeps (the locale \<open>record_layer\<close>) and what a user of it
  gets: any sequence of records is opened to the plaintexts that were sealed.
\<close>

section \<open>Sessions\<close>

definition ADAPTIVE_SECURITY_RECORD_VERSION :: u8 where "ADAPTIVE_SECURITY_RECORD_VERSION = 1"
definition ADAPTIVE_SECURITY_SEQUENCE_BYTES :: nat where "ADAPTIVE_SECURITY_SEQUENCE_BYTES = 8"
definition ADAPTIVE_SECURITY_TAG_BYTES :: nat where "ADAPTIVE_SECURITY_TAG_BYTES = 16"
definition ADAPTIVE_SECURITY_OVERHEAD :: nat where
  "ADAPTIVE_SECURITY_OVERHEAD =
     1 + ADAPTIVE_SECURITY_SEQUENCE_BYTES + ADAPTIVE_SECURITY_TAG_BYTES"

lemmas security_constants = ADAPTIVE_SECURITY_RECORD_VERSION_def
  ADAPTIVE_SECURITY_SEQUENCE_BYTES_def ADAPTIVE_SECURITY_TAG_BYTES_def
  ADAPTIVE_SECURITY_OVERHEAD_def

text \<open>
  Seal and open take the context, the input bytes, the additional data and the capacity
  of the output buffer; destroy returns what is left in the context's memory.
\<close>

type_synonym 'c seal_fn = "'c option \<Rightarrow> bytes \<Rightarrow> bytes \<Rightarrow> nat \<Rightarrow> bytes outcome \<times> 'c option"
type_synonym 'c open_fn = "'c option \<Rightarrow> bytes \<Rightarrow> bytes \<Rightarrow> nat \<Rightarrow> bytes outcome \<times> 'c option"
type_synonym 'c destroy_fn = "'c \<Rightarrow> 'c"

record 'c security_session =
  sess_context :: "'c option"
  sess_seal :: "'c seal_fn option"
  sess_open :: "'c open_fn option"
  sess_destroy :: "'c destroy_fn option"
  sess_overhead :: nat
  sess_production :: bool

definition zero_session :: "'c security_session" where
  "zero_session =
     \<lparr>sess_context = None, sess_seal = None, sess_open = None, sess_destroy = None,
      sess_overhead = 0, sess_production = False\<rparr>"

definition adaptive_security_session_reset ::
    "'c security_session option \<Rightarrow> 'c security_session option" where
  "adaptive_security_session_reset session = map_option (\<lambda>_. zero_session) session"

text \<open>The second result is the context memory the provider's destructor left behind.\<close>

definition adaptive_security_session_destroy ::
    "'c security_session option \<Rightarrow> 'c security_session option \<times> 'c option" where
  "adaptive_security_session_destroy session =
     (case session of
        None \<Rightarrow> (None, None)
      | Some s \<Rightarrow>
          (adaptive_security_session_reset (Some s),
           (case (sess_destroy s, sess_context s) of
              (Some f, Some c) \<Rightarrow> Some (f c)
            | (_, c) \<Rightarrow> c)))"

text \<open>
  A pointer with a length is an option and a number; the provider sees the bytes. The
  output buffer and its length out-parameter are flags that say whether the pointer is
  valid.
\<close>

definition pointed_bytes :: "bytes option \<Rightarrow> nat \<Rightarrow> bytes" where
  "pointed_bytes p n = (case p of None \<Rightarrow> [] | Some b \<Rightarrow> take n b)"

definition adaptive_security_seal ::
    "'c security_session option \<Rightarrow> bytes option \<Rightarrow> nat \<Rightarrow> bytes option \<Rightarrow> nat \<Rightarrow> bool \<Rightarrow> nat \<Rightarrow> bool \<Rightarrow>
     bytes outcome \<times> 'c security_session option" where
  "adaptive_security_seal session plaintext plaintext_length aad aad_length
       record_ok record_capacity length_ok =
     (case session of
        None \<Rightarrow> (Inl ADAPTIVE_ERR_ARGUMENT, None)
      | Some s \<Rightarrow>
          (case sess_seal s of
             None \<Rightarrow> (Inl ADAPTIVE_ERR_ARGUMENT, session)
           | Some seal \<Rightarrow>
               if (0 < plaintext_length \<and> plaintext = None) \<or> (0 < aad_length \<and> aad = None) \<or>
                  \<not> record_ok \<or> \<not> length_ok
               then (Inl ADAPTIVE_ERR_ARGUMENT, session)
               else
                 let (r, c) = seal (sess_context s) (pointed_bytes plaintext plaintext_length)
                                (pointed_bytes aad aad_length) record_capacity
                 in (r, Some (s\<lparr>sess_context := c\<rparr>))))"

definition adaptive_security_open ::
    "'c security_session option \<Rightarrow> bytes option \<Rightarrow> nat \<Rightarrow> bytes option \<Rightarrow> nat \<Rightarrow> bool \<Rightarrow> nat \<Rightarrow> bool \<Rightarrow>
     bytes outcome \<times> 'c security_session option" where
  "adaptive_security_open session rec rec_length aad aad_length
       plaintext_ok plaintext_capacity length_ok =
     (case session of
        None \<Rightarrow> (Inl ADAPTIVE_ERR_ARGUMENT, None)
      | Some s \<Rightarrow>
          (case sess_open s of
             None \<Rightarrow> (Inl ADAPTIVE_ERR_ARGUMENT, session)
           | Some opn \<Rightarrow>
               if rec = None \<or> (0 < aad_length \<and> aad = None) \<or> \<not> plaintext_ok \<or> \<not> length_ok
               then (Inl ADAPTIVE_ERR_ARGUMENT, session)
               else
                 let (r, c) = opn (sess_context s) (pointed_bytes rec rec_length)
                                (pointed_bytes aad aad_length) plaintext_capacity
                 in (r, Some (s\<lparr>sess_context := c\<rparr>))))"

lemma pointed_bytes_all [simp]: "length b = n \<Longrightarrow> pointed_bytes (Some b) n = b"
  by (simp add: pointed_bytes_def)

lemma security_seal_ready:
  assumes "sess_seal s = Some f"
  shows "adaptive_security_seal (Some s) (Some p) (length p) (Some a) (length a) True cap True =
    (fst (f (sess_context s) p a cap), Some (s\<lparr>sess_context := snd (f (sess_context s) p a cap)\<rparr>))"
  using assms by (simp add: adaptive_security_seal_def split: prod.split)

lemma security_open_ready:
  assumes "sess_open s = Some f"
  shows "adaptive_security_open (Some s) (Some r) (length r) (Some a) (length a) True cap True =
    (fst (f (sess_context s) r a cap), Some (s\<lparr>sess_context := snd (f (sess_context s) r a cap)\<rparr>))"
  using assms by (simp add: adaptive_security_open_def split: prod.split)

text \<open>Sealing, and opening, a list of messages one after the other.\<close>

fun send_all :: "'c seal_fn \<Rightarrow> 'c option \<Rightarrow> (bytes \<times> bytes) list \<Rightarrow> nat \<Rightarrow> bytes outcome list \<times> 'c option" where
  "send_all seal c [] cap = ([], c)"
| "send_all seal c ((p, a) # ms) cap =
     (let (r, c') = seal c p a cap; (rs, c'') = send_all seal c' ms cap in (r # rs, c''))"

fun receive_all :: "'c open_fn \<Rightarrow> 'c option \<Rightarrow> (bytes \<times> bytes) list \<Rightarrow> nat \<Rightarrow> bytes outcome list \<times> 'c option" where
  "receive_all opn s [] cap = ([], s)"
| "receive_all opn s ((r, a) # ms) cap =
     (let (p, s') = opn s r a cap; (ps, s'') = receive_all opn s' ms cap in (p # ps, s''))"

section \<open>The contract of a record layer\<close>

text \<open>
  \<open>synced n c s\<close>: the sender's context \<open>c\<close> and the receiver's context \<open>s\<close> belong
  together, the receiver has seen nothing the sender has still to send, and the sender has
  sequence numbers left for \<open>n\<close> more records. \<open>fits\<close> says which lengths of plaintext and
  additional data the layer can seal at all; a CoAP block is always among them. A sealed record has the announced overhead;
  the peer opens it to the plaintext and stays in step; and opening it a second time is
  refused as a replay and changes nothing.
\<close>

locale record_layer =
  fixes seal :: "'c seal_fn"
    and opn :: "'c open_fn"
    and overhead :: nat
    and fits :: "nat \<Rightarrow> nat \<Rightarrow> bool"
    and synced :: "nat \<Rightarrow> 'c option \<Rightarrow> 'c option \<Rightarrow> bool"
  assumes overhead_pos: "0 < overhead"
    and block_fits: "m \<le> ADAPTIVE_MAX_BLOCK_SIZE \<Longrightarrow> n \<le> 16 \<Longrightarrow> fits m n"
    and seal_total:
      "synced (Suc n) c s \<Longrightarrow> length p + overhead \<le> cap \<Longrightarrow> fits (length p) (length a) \<Longrightarrow>
       \<exists>r c'. seal c p a cap = (Inr r, c')"
    and seal_length:
      "synced (Suc n) c s \<Longrightarrow> seal c p a cap = (Inr r, c') \<Longrightarrow> length r = length p + overhead"
    and open_sealed:
      "synced (Suc n) c s \<Longrightarrow> seal c p a cap = (Inr r, c') \<Longrightarrow> length p \<le> pcap \<Longrightarrow>
       \<exists>s'. opn s r a pcap = (Inr p, s') \<and> synced n c' s'"
    and synced_fewer: "synced (Suc n) c s \<Longrightarrow> synced n c s"
begin

lemma synced_less: "k \<le> n \<Longrightarrow> synced n c s \<Longrightarrow> synced k c s"
  by (induction rule: dec_induct) (auto intro: synced_fewer)

lemma seal_open_step:
  assumes "synced (Suc n) c s" "length p + overhead \<le> cap" "fits (length p) (length a)" "length p \<le> pcap"
  obtains r c' s' where "seal c p a cap = (Inr r, c')" "length r = length p + overhead"
    "opn s r a pcap = (Inr p, s')" "synced n c' s'"
  using seal_total [OF assms(1-3)] seal_length [OF assms(1)] open_sealed [OF assms(1) _ assms(4)] by metis

lemma channel_delivers:
  "synced (length ms) c s \<Longrightarrow>
   \<forall>(p, a) \<in> set ms. length p + overhead \<le> cap \<and> fits (length p) (length a) \<and> length p \<le> pcap \<Longrightarrow>
   \<exists>rs c' s'. send_all seal c ms cap = (map Inr rs, c') \<and>
     map length rs = map (\<lambda>(p, a). length p + overhead) ms \<and>
     receive_all opn s (zip rs (map snd ms)) pcap = (map (Inr \<circ> fst) ms, s') \<and> synced 0 c' s'"
proof (induction ms arbitrary: c s)
  case Nil
  then show ?case by simp
next
  case (Cons m ms)
  obtain p a where m: "m = (p, a)" by (cases m)
  have lens: "length p + overhead \<le> cap" "fits (length p) (length a)" "length p \<le> pcap"
    and sync: "synced (Suc (length ms)) c s" using Cons.prems m by simp_all
  obtain r c' s' where 1: "seal c p a cap = (Inr r, c')" "length r = length p + overhead"
      "opn s r a pcap = (Inr p, s')" "synced (length ms) c' s'"
    by (rule seal_open_step [OF sync lens])
  obtain rs c'' s'' where 2: "send_all seal c' ms cap = (map Inr rs, c'')"
      "map length rs = map (\<lambda>(p, a). length p + overhead) ms"
      "map length rs = map (\<lambda>(p, a). length p + overhead) ms"
      "receive_all opn s' (zip rs (map snd ms)) pcap = (map (Inr \<circ> fst) ms, s'')" "synced 0 c'' s''"
    using Cons.IH [OF 1(4)] Cons.prems by auto
  have "send_all seal c (m # ms) cap = (map Inr (r # rs), c'')"
    "receive_all opn s (zip (r # rs) (map snd (m # ms))) pcap = (map (Inr \<circ> fst) (m # ms), s'')"
    using 1 2 by (simp_all add: m)
  moreover have "map length (r # rs) = map (\<lambda>(p, a). length p + overhead) (m # ms)"
    using 1 2 by (simp add: m)
  ultimately show ?case using 2 by blast
qed

end

text \<open>
  A record layer with replay protection: once a record has been opened, the same record is
  refused, as a replay when its additional data is the same, and the context stays as it is.
\<close>

locale replay_protected = record_layer +
  assumes replay_refused:
    "opn s r a pcap = (Inr p, s') \<Longrightarrow> \<exists>e. opn s' r a' pcap' = (Inl e, s') \<and> (a' = a \<longrightarrow> e = ADAPTIVE_ERR_REPLAY)"
    and open_error_keeps: "opn s r a pcap = (Inl e, s') \<Longrightarrow> s' = s"
begin

lemma replay_sealed:
  assumes "synced (Suc n) c s" "seal c p a cap = (Inr r, c')" "length p \<le> pcap"
  shows "\<exists>s'. opn s r a pcap = (Inr p, s') \<and> opn s' r a pcap = (Inl ADAPTIVE_ERR_REPLAY, s')"
  using open_sealed [OF assms] replay_refused by blast

end

end
