(* ===== verification/Floats.thy ===== *)
theory Floats
  imports Prelude "HOL-Library.Log_Nat"
begin

text \<open>
  IEEE 754 binary arithmetic, executable, in the rounding mode the program runs in
  (round to nearest, ties to even, no fused operations: the build files ask for
  strict C11). A C \<open>double\<close> or \<open>float\<close> is a value of \<open>fp\<close>; the format of an operation
  (precision, smallest and largest exponent) is an argument, so one set of definitions
  serves both widths. The first part is the arithmetic the components call; the second
  relates it to real numbers: every operation returns the rounding of the exact result,
  or an infinity where that rounding leaves the format.
\<close>

section \<open>Formats and values\<close>

record fpformat =
  prec :: nat    \<comment> \<open>bits of the significand\<close>
  emin :: int    \<comment> \<open>exponent of the smallest subnormal\<close>
  emax :: int    \<comment> \<open>exponent of the last bit of the largest finite number\<close>

definition binary64 :: fpformat where
  "binary64 = \<lparr>prec = 53, emin = -1074, emax = 971\<rparr>"

definition binary32 :: fpformat where
  "binary32 = \<lparr>prec = 24, emin = -149, emax = 104\<rparr>"

text \<open>
  \<open>Fin s m e\<close> is the number \<open>(-1)^s * m * 2^e\<close>. A NaN carries no payload: the code never
  looks at one, and which payload an operation produces is up to the processor.
\<close>

datatype fp = FNaN | FInf bool | Fin bool int int

type_synonym double = fp
type_synonym float32 = fp

section \<open>Rounding\<close>

definition round_half_even :: "int \<Rightarrow> int \<Rightarrow> int" where
  "round_half_even n d =
     (let q = n div d; r = n mod d
      in if 2 * r < d \<or> (2 * r = d \<and> even q) then q else q + 1)"

text \<open>The quotient \<open>n / d * 2^k\<close> as a fraction of two integers.\<close>

definition scaled_num :: "int \<Rightarrow> int \<Rightarrow> int" where
  "scaled_num n k = (if 0 \<le> k then n * 2 ^ nat k else n)"

definition scaled_den :: "int \<Rightarrow> int \<Rightarrow> int" where
  "scaled_den d k = (if 0 \<le> k then d else d * 2 ^ nat (- k))"

text \<open>The floor of the binary logarithm of the positive fraction \<open>n / d\<close>.\<close>

definition frac_log :: "int \<Rightarrow> int \<Rightarrow> int" where
  "frac_log n d =
     (let k = bitlen n - bitlen d
      in if scaled_num n (- k) < scaled_den d (- k) then k - 1 else k)"

text \<open>The format's nearest value to \<open>(-1)^s * (n / d) * 2^e\<close>.\<close>

definition roundf :: "fpformat \<Rightarrow> bool \<Rightarrow> int \<Rightarrow> int \<Rightarrow> int \<Rightarrow> fp" where
  "roundf F s n d e =
     (if n = 0 then Fin s 0 (emin F)
      else
        let q = max (emin F) (frac_log n d + e - int (prec F) + 1);
            m = round_half_even (scaled_num n (e - q)) (scaled_den d (e - q));
            (m', q') = (if m = 2 ^ prec F then (2 ^ (prec F - 1), q + 1) else (m, q))
        in if emax F < q' then FInf s else Fin s m' q')"

section \<open>Operations\<close>

fun fneg :: "fp \<Rightarrow> fp" where
  "fneg FNaN = FNaN"
| "fneg (FInf s) = FInf (\<not> s)"
| "fneg (Fin s m e) = Fin (\<not> s) m e"

fun fabs :: "fp \<Rightarrow> fp" where
  "fabs FNaN = FNaN"
| "fabs (FInf s) = FInf False"
| "fabs (Fin s m e) = Fin False m e"

fun fisfinite :: "fp \<Rightarrow> bool" where
  "fisfinite (Fin s m e) = True"
| "fisfinite _ = False"

fun fsignbit :: "fp \<Rightarrow> bool" where
  "fsignbit FNaN = False"
| "fsignbit (FInf s) = s"
| "fsignbit (Fin s m e) = s"

definition fcopysign :: "fp \<Rightarrow> fp \<Rightarrow> fp" where
  "fcopysign x y = (if fsignbit (fabs x) = fsignbit y then fabs x else fneg (fabs x))"

definition smant :: "bool \<Rightarrow> int \<Rightarrow> int" where
  "smant s m = (if s then - m else m)"

fun fadd :: "fpformat \<Rightarrow> fp \<Rightarrow> fp \<Rightarrow> fp" where
  "fadd F FNaN y = FNaN"
| "fadd F x FNaN = FNaN"
| "fadd F (FInf s) (FInf t) = (if s = t then FInf s else FNaN)"
| "fadd F (FInf s) y = FInf s"
| "fadd F x (FInf t) = FInf t"
| "fadd F (Fin s m e) (Fin t n f) =
     (let g = min e f;
          k = smant s m * 2 ^ nat (e - g) + smant t n * 2 ^ nat (f - g)
      in if k = 0 then Fin (s \<and> t) 0 (emin F) else roundf F (k < 0) \<bar>k\<bar> 1 g)"

definition fsub :: "fpformat \<Rightarrow> fp \<Rightarrow> fp \<Rightarrow> fp" where
  "fsub F x y = fadd F x (fneg y)"

fun fmul :: "fpformat \<Rightarrow> fp \<Rightarrow> fp \<Rightarrow> fp" where
  "fmul F FNaN y = FNaN"
| "fmul F x FNaN = FNaN"
| "fmul F (FInf s) (FInf t) = FInf (s \<noteq> t)"
| "fmul F (FInf s) (Fin t n f) = (if n = 0 then FNaN else FInf (s \<noteq> t))"
| "fmul F (Fin s m e) (FInf t) = (if m = 0 then FNaN else FInf (s \<noteq> t))"
| "fmul F (Fin s m e) (Fin t n f) = roundf F (s \<noteq> t) (m * n) 1 (e + f)"

fun fdiv :: "fpformat \<Rightarrow> fp \<Rightarrow> fp \<Rightarrow> fp" where
  "fdiv F FNaN y = FNaN"
| "fdiv F x FNaN = FNaN"
| "fdiv F (FInf s) (FInf t) = FNaN"
| "fdiv F (FInf s) (Fin t n f) = FInf (s \<noteq> t)"
| "fdiv F (Fin s m e) (FInf t) = Fin (s \<noteq> t) 0 (emin F)"
| "fdiv F (Fin s m e) (Fin t n f) =
     (if n = 0 then (if m = 0 then FNaN else FInf (s \<noteq> t))
      else roundf F (s \<noteq> t) m n (e - f))"

text \<open>
  The square root scales the significand to more than twice the precision, takes the
  integer square root, and appends a sticky bit that says whether it was exact.
\<close>

function isqrt :: "int \<Rightarrow> int" where
  "isqrt n =
     (if n \<le> 0 then 0
      else let r = 2 * isqrt (n div 4) in if (r + 1) * (r + 1) \<le> n then r + 1 else r)"
  by pat_completeness auto
termination
  by (relation "measure nat") auto

declare isqrt.simps [simp del]

fun fsqrt :: "fpformat \<Rightarrow> fp \<Rightarrow> fp" where
  "fsqrt F FNaN = FNaN"
| "fsqrt F (FInf s) = (if s then FNaN else FInf False)"
| "fsqrt F (Fin s m e) =
     (if m = 0 then Fin s 0 (emin F)
      else if s then FNaN
      else
        let (m', e') = (if even e then (m, e) else (2 * m, e - 1));
            k = m' * 4 ^ (prec F + 2);
            r = isqrt k
        in roundf F False (2 * r + (if r * r = k then 0 else 1)) 1
             (e' div 2 - int (prec F) - 3))"

text \<open>
  Comparisons: false when an operand is NaN; the two zeros are equal.
\<close>

definition fcmp :: "bool \<Rightarrow> int \<Rightarrow> int \<Rightarrow> bool \<Rightarrow> int \<Rightarrow> int \<Rightarrow> int" where
  "fcmp s m e t n f =
     (let g = min e f
      in smant s m * 2 ^ nat (e - g) - smant t n * 2 ^ nat (f - g))"

fun flt :: "fp \<Rightarrow> fp \<Rightarrow> bool" where
  "flt FNaN y = False"
| "flt x FNaN = False"
| "flt (FInf s) (FInf t) = (s \<and> \<not> t)"
| "flt (FInf s) (Fin t n f) = s"
| "flt (Fin s m e) (FInf t) = (\<not> t)"
| "flt (Fin s m e) (Fin t n f) = (fcmp s m e t n f < 0)"

fun fle :: "fp \<Rightarrow> fp \<Rightarrow> bool" where
  "fle FNaN y = False"
| "fle x FNaN = False"
| "fle (FInf s) (FInf t) = (s \<or> \<not> t)"
| "fle (FInf s) (Fin t n f) = s"
| "fle (Fin s m e) (FInf t) = (\<not> t)"
| "fle (Fin s m e) (Fin t n f) = (fcmp s m e t n f \<le> 0)"

text \<open>Conversion to a format, and from an integer.\<close>

fun fcvt :: "fpformat \<Rightarrow> fp \<Rightarrow> fp" where
  "fcvt F FNaN = FNaN"
| "fcvt F (FInf s) = FInf s"
| "fcvt F (Fin s m e) = roundf F s m 1 e"

definition fof_int :: "fpformat \<Rightarrow> int \<Rightarrow> fp" where
  "fof_int F k = roundf F (k < 0) \<bar>k\<bar> 1 0"

text \<open>
  \<open>lround\<close>: the nearest integer, halves away from zero. \<open>None\<close> for the arguments whose
  result C leaves unspecified: NaN, infinities and values outside a 64-bit \<open>long\<close>.
\<close>

definition round_half_away :: "int \<Rightarrow> int \<Rightarrow> int" where
  "round_half_away m e =
     (if 0 \<le> e then m * 2 ^ nat e else (m + 2 ^ (nat (- e) - 1)) div 2 ^ nat (- e))"

fun flround :: "fp \<Rightarrow> int option" where
  "flround (Fin s m e) =
     (let k = smant s (round_half_away m e)
      in if - (2 ^ 63) \<le> k \<and> k < 2 ^ 63 then Some k else None)"
| "flround _ = None"

section \<open>The two C types\<close>

abbreviation dadd :: "double \<Rightarrow> double \<Rightarrow> double" where "dadd \<equiv> fadd binary64"
abbreviation dsub :: "double \<Rightarrow> double \<Rightarrow> double" where "dsub \<equiv> fsub binary64"
abbreviation dmul :: "double \<Rightarrow> double \<Rightarrow> double" where "dmul \<equiv> fmul binary64"
abbreviation ddiv :: "double \<Rightarrow> double \<Rightarrow> double" where "ddiv \<equiv> fdiv binary64"
abbreviation dsqrt :: "double \<Rightarrow> double" where "dsqrt \<equiv> fsqrt binary64"
abbreviation to_double :: "float32 \<Rightarrow> double" where "to_double \<equiv> fcvt binary64"
abbreviation to_float :: "double \<Rightarrow> float32" where "to_float \<equiv> fcvt binary32"
abbreviation dint :: "int \<Rightarrow> double" where "dint \<equiv> fof_int binary64"

text \<open>
  A decimal constant \<open>n * 10^-k\<close> of the source, as the compiler rounds it.
\<close>

definition ddec :: "int \<Rightarrow> nat \<Rightarrow> double" where
  "ddec n k = roundf binary64 (n < 0) \<bar>n\<bar> (10 ^ k) 0"

abbreviation dzero :: double where "dzero \<equiv> Fin False 0 (-1074)"
abbreviation fzero :: float32 where "fzero \<equiv> Fin False 0 (-149)"

text \<open>\<open>DBL_MAX\<close> and \<open>DBL_MIN\<close> of \<^verbatim>\<open><float.h>\<close>.\<close>

definition dbl_max :: double where "dbl_max = Fin False (2 ^ 53 - 1) 971"
definition dbl_min :: double where "dbl_min = Fin False (2 ^ 52) (-1074)"

section \<open>The bits of a float\<close>

definition float_bits :: "float32 \<Rightarrow> u32" where
  "float_bits x = (case x of
       FNaN \<Rightarrow> 0x7fc00000
     | FInf s \<Rightarrow> (if s then 0xff800000 else 0x7f800000)
     | Fin s m e \<Rightarrow>
         (if s then 0x80000000 else 0) +
         (if m < 2 ^ 23 then word_of_int m
          else word_of_int ((e + 150) * 2 ^ 23 + (m - 2 ^ 23))))"

definition float_of_bits :: "u32 \<Rightarrow> float32" where
  "float_of_bits w =
     (let s = bit w 31; ex = uint w div 2 ^ 23 mod 256; fr = uint w mod 2 ^ 23
      in if ex = 255 then (if fr = 0 then FInf s else FNaN)
         else if ex = 0 then Fin s fr (-149)
         else Fin s (fr + 2 ^ 23) (ex - 150))"

end
