(* ===== verification/Config.thy ===== *)
theory Config
  imports Types Floats
begin

text \<open>
  \<^verbatim>\<open>include/adaptive/config.h\<close> and \<^verbatim>\<open>src/config.c\<close>: the configuration, its
  defaults, the parser of the key-value file and the validation. A C string is its list of
  characters before the NUL; an array is a list of its five entries; an \<open>unsigned\<close> is a
  natural number, with the truncation of the assignments written out. The file the loader
  opens is an argument: its contents and whether reading it ends in an error, or \<open>None\<close>
  when it cannot be opened.
\<close>

section \<open>The configuration\<close>

record adaptive_config =
  baseline_alpha :: double
  baseline_epsilon :: double
  emission_alpha :: double
  transition_forgetting :: double
  transition_smoothing :: double
  transition_prior_strength :: double
  min_emission_variance :: double
  recovery_hold :: nat
  initial_probability :: "double list"
  transition_prior :: "double list list"
  emission_mean :: "double list list"
  emission_variance :: "double list list"
  window_size :: nat
  wavelet_levels :: nat
  threshold_gain :: "double list"
  quant_bits :: "nat list"
  block_szx :: "u8 list"
  sampling_factor :: "double list"
  uri_path :: string
  config_content_format :: u32  \<comment> \<open>the field \<open>content_format\<close>\<close>

definition zero_config :: adaptive_config where
  "zero_config =
     \<lparr>baseline_alpha = dzero, baseline_epsilon = dzero, emission_alpha = dzero,
      transition_forgetting = dzero, transition_smoothing = dzero,
      transition_prior_strength = dzero, min_emission_variance = dzero, recovery_hold = 0,
      initial_probability = replicate 5 dzero, transition_prior = replicate 5 (replicate 5 dzero),
      emission_mean = replicate 5 (replicate 5 dzero),
      emission_variance = replicate 5 (replicate 5 dzero), window_size = 0, wavelet_levels = 0,
      threshold_gain = replicate 5 dzero, quant_bits = replicate 5 0, block_szx = replicate 5 0,
      sampling_factor = replicate 5 dzero, uri_path = [], config_content_format = 0\<rparr>"

text \<open>The centers are the constants -1.0, 0.0, 0.75, 1.5 and 0.25.\<close>

definition initialize_emissions :: "adaptive_config \<Rightarrow> adaptive_config" where
  "initialize_emissions config =
     config\<lparr>
       emission_mean := map (\<lambda>center. replicate 5 center)
         [ddec (-10) 1, ddec 0 1, ddec 75 2, ddec 15 1, ddec 25 2],
       emission_variance := replicate 5 (replicate 5 (ddec 10 1))\<rparr>"

definition adaptive_config_defaults :: "adaptive_config option \<Rightarrow> adaptive_config option" where
  "adaptive_config_defaults config =
     (case config of
        None \<Rightarrow> None
      | Some _ \<Rightarrow>
          let c1 = zero_config\<lparr>
                baseline_alpha := ddec 4 2,
                baseline_epsilon := ddec 1 9,
                emission_alpha := ddec 25 3,
                transition_forgetting := ddec 995 3,
                transition_smoothing := ddec 25 2,
                transition_prior_strength := ddec 80 1,
                min_emission_variance := ddec 5 2,
                recovery_hold := 3,
                initial_probability := (initial_probability zero_config)[state_num NORMAL := ddec 10 1],
                transition_prior :=
                  [[ddec 75 2, ddec 20 2, ddec 4 2, ddec 1 2, ddec 0 2],
                   [ddec 10 2, ddec 70 2, ddec 16 2, ddec 4 2, ddec 0 2],
                   [ddec 2 2, ddec 12 2, ddec 60 2, ddec 26 2, ddec 0 2],
                   [ddec 0 2, ddec 0 2, ddec 2 2, ddec 76 2, ddec 22 2],
                   [ddec 4 2, ddec 36 2, ddec 20 2, ddec 5 2, ddec 35 2]]\<rparr>;
              c2 = (initialize_emissions c1)\<lparr>
                window_size := 128,
                wavelet_levels := 3,
                threshold_gain := [ddec 75 2, ddec 100 2, ddec 135 2, ddec 200 2, ddec 120 2],
                quant_bits := [14, 12, 10, 8, 10],
                block_szx := [2, 2, 1, 1, 1],
                sampling_factor := [ddec 100 2, ddec 100 2, ddec 80 2, ddec 50 2, ddec 75 2],
                uri_path := ''telemetry'',
                config_content_format := 42\<rparr>
          in Some (c2\<lparr>emission_mean := (emission_mean c2)[state_num RECOVERY :=
               map (\<lambda>i. dadd (emission_mean c2 ! state_num NORMAL ! i) (ddec 25 2))
                 [0..<ADAPTIVE_METRIC_COUNT]]\<rparr>))"

section \<open>Text\<close>

text \<open>
  The caller's error buffer is its capacity, or \<open>None\<close> for a null pointer; the result is
  the text written to it, if any.
\<close>

definition set_error :: "nat option \<Rightarrow> string \<Rightarrow> string option" where
  "set_error error message =
     (case error of
        Some capacity \<Rightarrow> if 0 < capacity then Some (take (capacity - 1) message) else None
      | None \<Rightarrow> None)"

text \<open>\<open>isspace\<close> in the C locale.\<close>

definition c_isspace :: "char \<Rightarrow> bool" where
  "c_isspace c = (let n = of_char c :: nat in n = 32 \<or> (9 \<le> n \<and> n \<le> 13))"

definition trim :: "string \<Rightarrow> string" where
  "trim txt =
     (let t = dropWhile c_isspace txt
      in if t = [] then [] else rev (dropWhile c_isspace (rev t)))"

definition digit_value :: "char \<Rightarrow> nat option" where
  "digit_value c =
     (let n = of_char c :: nat
      in if 48 \<le> n \<and> n \<le> 57 then Some (n - 48)
         else if 97 \<le> n \<and> n \<le> 102 then Some (n - 87)
         else if 65 \<le> n \<and> n \<le> 70 then Some (n - 55) else None)"

definition is_digit :: "nat \<Rightarrow> char \<Rightarrow> bool" where
  "is_digit base c = (case digit_value c of Some d \<Rightarrow> d < base | None \<Rightarrow> False)"

definition digits_value :: "nat \<Rightarrow> string \<Rightarrow> nat" where
  "digits_value base ds = foldl (\<lambda>v c. v * base + the (digit_value c)) 0 ds"

text \<open>A sign in front of a number: whether it is a neg, and the rest.\<close>

definition read_sign :: "string \<Rightarrow> bool \<times> string" where
  "read_sign s =
     (case s of
        c # cs \<Rightarrow> if c = CHR ''-'' then (True, cs) else if c = CHR ''+'' then (False, cs) else (False, s)
      | [] \<Rightarrow> (False, s))"

text \<open>
  \<open>strtoul\<close> in base 10, for a 64-bit \<open>unsigned long\<close>: the value, the rest of the text and
  whether \<open>errno\<close> is set; \<open>None\<close> when nothing is converted (\<open>end == text\<close>). A neg sign
  negates modulo \<open>2^64\<close>.
\<close>

definition strtoul :: "string \<Rightarrow> (nat \<times> string \<times> bool) option" where
  "strtoul txt =
     (let (neg, s) = read_sign (dropWhile c_isspace txt);
          ds = takeWhile (is_digit 10) s;
          v = digits_value 10 ds
      in if ds = [] then None
         else if 2 ^ 64 \<le> v then Some (2 ^ 64 - 1, drop (length ds) s, True)
         else Some ((if neg then (2 ^ 64 - v) mod 2 ^ 64 else v), drop (length ds) s, False))"

text \<open>
  \<open>strtod\<close>: an optional sign, then an infinity, a NaN, a hexadecimal or a decimal number.
  The significand is the digits before and after the point; the exponent part counts only
  when a digit follows its letter. \<open>errno\<close> is set when the value overflows, or is below the
  normal range and not exact.
\<close>

definition read_exponent :: "char \<Rightarrow> string \<Rightarrow> int \<times> string" where
  "read_exponent letter s =
     (case s of
        c # cs \<Rightarrow>
          if tolower c = letter then
            let (neg, t) = read_sign cs; ds = takeWhile (is_digit 10) t
            in if ds = [] then (0, s)
               else (if neg then - int (digits_value 10 ds) else int (digits_value 10 ds),
                     drop (length ds) t)
          else (0, s)
      | [] \<Rightarrow> (0, s))"

text \<open>Integer digits, an optional point and fraction digits: digits, fraction length, rest.\<close>

definition read_significand :: "nat \<Rightarrow> string \<Rightarrow> string \<times> nat \<times> string" where
  "read_significand base s =
     (let ip = takeWhile (is_digit base) s; r = drop (length ip) s
      in case r of
           c # cs \<Rightarrow>
             if c = CHR ''.'' then
               let fp = takeWhile (is_digit base) cs
               in if ip = [] \<and> fp = [] then ([], 0, s)
                  else (ip @ fp, length fp, drop (length fp) cs)
             else (ip, 0, r)
         | [] \<Rightarrow> (ip, 0, r))"

definition scaled_double :: "bool \<Rightarrow> int \<Rightarrow> int \<Rightarrow> int \<Rightarrow> double \<times> bool" where
  "scaled_double neg n base k =
     (let num = (if 0 \<le> k then n * base ^ nat k else n);
          den = (if 0 \<le> k then 1 else base ^ nat (- k));
          x = roundf binary64 neg num den 0
      in (x, case x of
               Fin s m e \<Rightarrow>
                 m < 2 ^ 52 \<and> e = -1074 \<and> m * den \<noteq> num * 2 ^ 1074
             | _ \<Rightarrow> True))"

definition has_prefix :: "string \<Rightarrow> string \<Rightarrow> bool" where
  "has_prefix p s = (take (length p) (map tolower s) = p)"

definition strtod :: "string \<Rightarrow> (double \<times> string \<times> bool) option" where
  "strtod txt =
     (let (neg, s) = read_sign (dropWhile c_isspace txt)
      in if has_prefix ''infinity'' s then Some (FInf neg, drop 8 s, False)
         else if has_prefix ''inf'' s then Some (FInf neg, drop 3 s, False)
         else if has_prefix ''nan'' s then Some (FNaN, drop 3 s, False)
         else
           let hex = has_prefix ''0x'' s \<and> fst (read_significand 16 (drop 2 s)) \<noteq> [];
               base = (if hex then 16 else 10);
               (ds, fraction, r) = read_significand base (if hex then drop 2 s else s);
               (ex, rest) = read_exponent (if hex then CHR ''p'' else CHR ''e'') r;
               n = int (digits_value base ds);
               (x, range) =
                 (if hex then scaled_double neg n 2 (ex - 4 * int fraction)
                  else scaled_double neg n 10 (ex - int fraction))
           in if ds = [] then None else Some (x, rest, range))"

definition parse_double :: "string \<Rightarrow> double outcome" where
  "parse_double txt =
     (case strtod txt of
        None \<Rightarrow> Inl ADAPTIVE_ERR_FORMAT
      | Some (parsed, end_ptr, errno) \<Rightarrow>
          if errno \<or> trim end_ptr \<noteq> [] \<or> \<not> fisfinite parsed then Inl ADAPTIVE_ERR_FORMAT
          else Inr parsed)"

definition parse_unsigned :: "string \<Rightarrow> nat outcome" where
  "parse_unsigned txt =
     (case strtoul txt of
        None \<Rightarrow> Inl ADAPTIVE_ERR_FORMAT
      | Some (parsed, end_ptr, errno) \<Rightarrow>
          if errno \<or> trim end_ptr \<noteq> [] then Inl ADAPTIVE_ERR_FORMAT else Inr parsed)"

section \<open>Applying a key\<close>

text \<open>
  The setters return the updated array when they handle the key (C: 1), \<open>Inr None\<close> when the
  key is not theirs (C: 0), or the error.
\<close>

definition set_state_value ::
    "string \<Rightarrow> string \<Rightarrow> string \<Rightarrow> double list \<Rightarrow> double list option outcome" where
  "set_state_value key prefix v target =
     (if take (length prefix) key \<noteq> prefix then Inr None
      else
        case adaptive_state_from_name (Some (drop (length prefix) key)) True of
          Inl _ \<Rightarrow> Inl ADAPTIVE_ERR_FORMAT
        | Inr state \<Rightarrow>
            (case parse_double v of
               Inl _ \<Rightarrow> Inl ADAPTIVE_ERR_FORMAT
             | Inr parsed \<Rightarrow> Inr (Some (target[state_num state := parsed]))))"

definition set_state_unsigned ::
    "string \<Rightarrow> string \<Rightarrow> string \<Rightarrow> nat list \<Rightarrow> nat list option outcome" where
  "set_state_unsigned key prefix v target =
     (if take (length prefix) key \<noteq> prefix then Inr None
      else
        case adaptive_state_from_name (Some (drop (length prefix) key)) True of
          Inl _ \<Rightarrow> Inl ADAPTIVE_ERR_FORMAT
        | Inr state \<Rightarrow>
            (case parse_unsigned v of
               Inl _ \<Rightarrow> Inl ADAPTIVE_ERR_FORMAT
             | Inr parsed \<Rightarrow> Inr (Some (target[state_num state := parsed mod 2 ^ 32]))))"

definition set_state_u8 ::
    "string \<Rightarrow> string \<Rightarrow> string \<Rightarrow> u8 list \<Rightarrow> u8 list option outcome" where
  "set_state_u8 key prefix v target =
     (if take (length prefix) key \<noteq> prefix then Inr None
      else
        case adaptive_state_from_name (Some (drop (length prefix) key)) True of
          Inl _ \<Rightarrow> Inl ADAPTIVE_ERR_FORMAT
        | Inr state \<Rightarrow>
            (case parse_unsigned v of
               Inl _ \<Rightarrow> Inl ADAPTIVE_ERR_FORMAT
             | Inr parsed \<Rightarrow>
                 if 255 < parsed then Inl ADAPTIVE_ERR_FORMAT
                 else Inr (Some (target[state_num state := word_of_nat parsed]))))"

definition split_at_dot :: "string \<Rightarrow> (string \<times> string) option" where
  "split_at_dot names =
     (if CHR ''.'' \<in> set names
      then Some (takeWhile (\<lambda>c. c \<noteq> CHR ''.'') names, tl (dropWhile (\<lambda>c. c \<noteq> CHR ''.'') names))
      else None)"

definition set_matrix_value ::
    "string \<Rightarrow> string \<Rightarrow> string \<Rightarrow> double list list \<Rightarrow> double list list option outcome" where
  "set_matrix_value key prefix v target =
     (if take (length prefix) key \<noteq> prefix then Inr None
      else if 64 \<le> length (drop (length prefix) key) then Inl ADAPTIVE_ERR_FORMAT
      else
        case split_at_dot (drop (length prefix) key) of
          None \<Rightarrow> Inl ADAPTIVE_ERR_FORMAT
        | Some (names, dot) \<Rightarrow>
            (case (adaptive_state_from_name (Some names) True,
                   adaptive_state_from_name (Some dot) True, parse_double v) of
               (Inr row, Inr column, Inr parsed) \<Rightarrow>
                 Inr (Some (target[state_num row := (target ! state_num row)[state_num column := parsed]]))
             | _ \<Rightarrow> Inl ADAPTIVE_ERR_FORMAT))"

definition set_emission_value ::
    "string \<Rightarrow> string \<Rightarrow> string \<Rightarrow> double list list \<Rightarrow> double list list option outcome" where
  "set_emission_value key prefix v target =
     (if take (length prefix) key \<noteq> prefix then Inr None
      else if 64 \<le> length (drop (length prefix) key) then Inl ADAPTIVE_ERR_FORMAT
      else
        case split_at_dot (drop (length prefix) key) of
          None \<Rightarrow> Inl ADAPTIVE_ERR_FORMAT
        | Some (names, dot) \<Rightarrow>
            (case (adaptive_state_from_name (Some names) True,
                   adaptive_metric_from_name (Some dot) True, parse_double v) of
               (Inr state, Inr metric, Inr parsed) \<Rightarrow>
                 Inr (Some (target[state_num state := (target ! state_num state)[metric_num metric := parsed]]))
             | _ \<Rightarrow> Inl ADAPTIVE_ERR_FORMAT))"

text \<open>The two macros \<open>SET_DOUBLE\<close> and \<open>SET_UNSIGNED\<close>, after their key has matched.\<close>

definition SET_DOUBLE :: "string \<Rightarrow> (double \<Rightarrow> adaptive_config) \<Rightarrow> adaptive_config option outcome" where
  "SET_DOUBLE v set_field = outcome_bind (parse_double v) (\<lambda>parsed. Inr (Some (set_field parsed)))"

definition SET_UNSIGNED :: "string \<Rightarrow> (nat \<Rightarrow> adaptive_config) \<Rightarrow> adaptive_config option outcome" where
  "SET_UNSIGNED v set_field =
     outcome_bind (parse_unsigned v) (\<lambda>parsed. Inr (Some (set_field (parsed mod 2 ^ 32))))"

text \<open>One setter of the chain: its result if the key is its own, otherwise the next one.\<close>

definition or_else ::
    "'a option outcome \<Rightarrow> ('a \<Rightarrow> adaptive_config) \<Rightarrow> adaptive_config option outcome \<Rightarrow>
     adaptive_config option outcome" where
  "or_else handled store next =
     (case handled of
        Inl e \<Rightarrow> Inl e
      | Inr (Some target) \<Rightarrow> Inr (Some (store target))
      | Inr None \<Rightarrow> next)"

definition apply_key :: "adaptive_config \<Rightarrow> string \<Rightarrow> string \<Rightarrow> adaptive_config option outcome" where
  "apply_key config key v =
     (if key = ''baseline.alpha'' then SET_DOUBLE v (\<lambda>p. config\<lparr>baseline_alpha := p\<rparr>)
      else if key = ''baseline.epsilon'' then SET_DOUBLE v (\<lambda>p. config\<lparr>baseline_epsilon := p\<rparr>)
      else if key = ''hmm.emission_alpha'' then SET_DOUBLE v (\<lambda>p. config\<lparr>emission_alpha := p\<rparr>)
      else if key = ''hmm.transition_forgetting'' then
        SET_DOUBLE v (\<lambda>p. config\<lparr>transition_forgetting := p\<rparr>)
      else if key = ''hmm.transition_smoothing'' then
        SET_DOUBLE v (\<lambda>p. config\<lparr>transition_smoothing := p\<rparr>)
      else if key = ''hmm.transition_prior_strength'' then
        SET_DOUBLE v (\<lambda>p. config\<lparr>transition_prior_strength := p\<rparr>)
      else if key = ''hmm.min_variance'' then SET_DOUBLE v (\<lambda>p. config\<lparr>min_emission_variance := p\<rparr>)
      else if key = ''hmm.recovery_hold'' then SET_UNSIGNED v (\<lambda>p. config\<lparr>recovery_hold := p\<rparr>)
      else if key = ''wavelet.window_size'' then
        outcome_bind (parse_unsigned v) (\<lambda>p. Inr (Some (config\<lparr>window_size := p\<rparr>)))
      else if key = ''wavelet.levels'' then SET_UNSIGNED v (\<lambda>p. config\<lparr>wavelet_levels := p\<rparr>)
      else if key = ''coap.content_format'' then
        SET_UNSIGNED v (\<lambda>p. config\<lparr>config_content_format := word_of_nat p\<rparr>)
      else if key = ''coap.uri_path'' then
        (if ADAPTIVE_MAX_URI_PATH < length v then Inl ADAPTIVE_ERR_RANGE
         else Inr (Some (config\<lparr>uri_path := v\<rparr>)))
      else
        or_else (set_state_value key ''hmm.initial.'' v (initial_probability config))
          (\<lambda>t. config\<lparr>initial_probability := t\<rparr>)
        (or_else (set_state_value key ''policy.threshold_gain.'' v (threshold_gain config))
          (\<lambda>t. config\<lparr>threshold_gain := t\<rparr>)
        (or_else (set_state_unsigned key ''policy.quant_bits.'' v (quant_bits config))
          (\<lambda>t. config\<lparr>quant_bits := t\<rparr>)
        (or_else (set_state_u8 key ''policy.block_szx.'' v (block_szx config))
          (\<lambda>t. config\<lparr>block_szx := t\<rparr>)
        (or_else (set_state_value key ''policy.sampling_factor.'' v (sampling_factor config))
          (\<lambda>t. config\<lparr>sampling_factor := t\<rparr>)
        (or_else (set_matrix_value key ''hmm.transition.'' v (transition_prior config))
          (\<lambda>t. config\<lparr>transition_prior := t\<rparr>)
        (or_else (set_emission_value key ''hmm.mean.'' v (emission_mean config))
          (\<lambda>t. config\<lparr>emission_mean := t\<rparr>)
        (or_else (set_emission_value key ''hmm.variance.'' v (emission_variance config))
          (\<lambda>t. config\<lparr>emission_variance := t\<rparr>)
        (Inr None)))))))))"

section \<open>Validation\<close>

definition is_power_of_two :: "nat \<Rightarrow> bool" where
  "is_power_of_two v = (v \<noteq> 0 \<and> v AND (v - 1) = 0)"

text \<open>One state of the validation loop; \<open>None\<close> when it passes.\<close>

definition validate_row :: "double list \<Rightarrow> double + string" where
  "validate_row prior =
     foldl (\<lambda>row p. case row of
         Inr m \<Rightarrow> Inr m
       | Inl acc \<Rightarrow> if flt p dzero then Inr ''negative transition probability'' else Inl (dadd acc p))
       (Inl dzero) (take ADAPTIVE_STATE_COUNT prior)"

definition validate_state :: "adaptive_config \<Rightarrow> nat \<Rightarrow> string option" where
  "validate_state config state =
     (if flt (threshold_gain config ! state) dzero \<or>
         quant_bits config ! state < 2 \<or> 15 < quant_bits config ! state \<or>
         6 < block_szx config ! state \<or>
         fle (sampling_factor config ! state) dzero \<or>
         flt (ddec 10 1) (sampling_factor config ! state)
      then Some ''invalid state policy''
      else if \<exists>metric \<in> set [0..<ADAPTIVE_METRIC_COUNT].
                fle (emission_variance config ! state ! metric) dzero
      then Some ''emission variance must be positive''
      else
        case validate_row (transition_prior config ! state) of
          Inr message \<Rightarrow> Some message
        | Inl row \<Rightarrow> if fle row dzero then Some ''transition row must have mass'' else None)"

fun validate_states :: "adaptive_config \<Rightarrow> nat list \<Rightarrow> double \<Rightarrow> double + string" where
  "validate_states config [] mass = Inl mass"
| "validate_states config (state # states) mass =
     (let mass' = dadd mass (initial_probability config ! state)
      in case validate_state config state of
           Some message \<Rightarrow> Inr message
         | None \<Rightarrow> validate_states config states mass')"

definition adaptive_config_validate ::
    "adaptive_config option \<Rightarrow> nat option \<Rightarrow> adaptive_result \<times> string option" where
  "adaptive_config_validate config error =
     (case config of
        None \<Rightarrow> (ADAPTIVE_ERR_ARGUMENT, set_error error ''configuration is required'')
      | Some c \<Rightarrow>
          if fle (baseline_alpha c) dzero \<or> fle (ddec 10 1) (baseline_alpha c) \<or>
             fle (emission_alpha c) dzero \<or> fle (ddec 10 1) (emission_alpha c) \<or>
             fle (transition_forgetting c) dzero \<or>
             flt (ddec 10 1) (transition_forgetting c) \<or>
             flt (transition_smoothing c) dzero \<or>
             fle (transition_prior_strength c) dzero \<or>
             fle (min_emission_variance c) dzero
          then (ADAPTIVE_ERR_RANGE, set_error error ''invalid adaptive learning parameter'')
          else if \<not> is_power_of_two (window_size c) \<or>
             ADAPTIVE_MAX_WINDOW < window_size c \<or>
             wavelet_levels c = 0 \<or> 64 \<le> wavelet_levels c \<or>
             drop_bit (wavelet_levels c - 1) (window_size c) < 8
          then (ADAPTIVE_ERR_RANGE, set_error error ''invalid wavelet window or level'')
          else if uri_path c = []
          then (ADAPTIVE_ERR_RANGE, set_error error ''CoAP URI path must not be empty'')
          else
            case validate_states c [0..<ADAPTIVE_STATE_COUNT] dzero of
              Inr message \<Rightarrow> (ADAPTIVE_ERR_RANGE, set_error error message)
            | Inl mass \<Rightarrow>
                if fle mass dzero
                then (ADAPTIVE_ERR_RANGE, set_error error ''initial probabilities must have mass'')
                else (ADAPTIVE_OK, None))"

section \<open>Loading a file\<close>

text \<open>
  \<open>fgets\<close> with a buffer of 256 bytes: at most 255 characters, up to and including a
  newline. The code then sees the C string in the buffer.
\<close>

function file_lines :: "string \<Rightarrow> string list" where
  "file_lines contents =
     (if contents = [] then []
      else
        let chunk = take 255 contents;
            upto = takeWhile (\<lambda>c. c \<noteq> CHR 0x0A) chunk;
            n = (if length upto < length chunk then length upto + 1 else length chunk)
        in takeWhile (\<lambda>c. c \<noteq> CHR 0x00) (take n contents) # file_lines (drop n contents))"
  by pat_completeness auto
termination
  by (relation "measure length") (auto simp: Let_def)

declare file_lines.simps [simp del]

function show_nat :: "nat \<Rightarrow> string" where
  "show_nat n = (if n < 10 then [char_of (48 + n)] else show_nat (n div 10) @ [char_of (48 + n mod 10)])"
  by pat_completeness auto
termination
  by (relation "measure id") auto

declare show_nat.simps [simp del]

text \<open>The body of the loop: \<open>Inr\<close> the configuration after the line, or the error.\<close>

definition load_line ::
    "adaptive_config \<Rightarrow> nat option \<Rightarrow> nat \<Rightarrow> string \<Rightarrow>
     (adaptive_result \<times> string option) + adaptive_config" where
  "load_line config error line_number line =
     (let code = takeWhile (\<lambda>c. c \<noteq> CHR ''#'') line;
          key0 = trim code
      in if key0 = [] then Inr config
         else if CHR ''='' \<notin> set key0
         then Inl (ADAPTIVE_ERR_FORMAT,
                set_error error (''line '' @ show_nat line_number @ '': expected key=value''))
         else
           let key = trim (takeWhile (\<lambda>c. c \<noteq> CHR ''='') key0);
               v = trim (tl (dropWhile (\<lambda>c. c \<noteq> CHR ''='') key0))
           in case apply_key config key v of
                Inr (Some config') \<Rightarrow> Inr config'
              | Inr None \<Rightarrow>
                  Inl (ADAPTIVE_ERR_FORMAT,
                    set_error error (''line '' @ show_nat line_number @ '': invalid key or value''))
              | Inl result \<Rightarrow>
                  Inl (result,
                    set_error error (''line '' @ show_nat line_number @ '': invalid key or value'')))"

fun load_lines ::
    "adaptive_config \<Rightarrow> nat option \<Rightarrow> nat \<Rightarrow> string list \<Rightarrow>
     (adaptive_result \<times> string option) option \<times> adaptive_config" where
  "load_lines config error line_number [] = (None, config)"
| "load_lines config error line_number (line # rest) =
     (case load_line config error ((line_number + 1) mod 2 ^ 32) line of
        Inl failure \<Rightarrow> (Some failure, config)
      | Inr config' \<Rightarrow> load_lines config' error ((line_number + 1) mod 2 ^ 32) rest)"

definition adaptive_config_load ::
    "adaptive_config option \<Rightarrow> string option \<Rightarrow> nat option \<Rightarrow> (string \<times> bool) option \<Rightarrow>
     adaptive_result \<times> string option \<times> adaptive_config option" where
  "adaptive_config_load config path error file =
     (case (config, path) of
        (Some c, Some p) \<Rightarrow>
          (case file of
             None \<Rightarrow> (ADAPTIVE_ERR_IO, set_error error ''unable to open configuration file'', config)
           | Some (contents, ferror) \<Rightarrow>
               (case load_lines c error 0 (file_lines contents) of
                  (Some (result, message), c') \<Rightarrow> (result, message, Some c')
                | (None, c') \<Rightarrow>
                    if ferror
                    then (ADAPTIVE_ERR_IO, set_error error ''error while reading configuration'', Some c')
                    else
                      let (result, message) = adaptive_config_validate (Some c') error
                      in (result, message, Some c')))
      | _ \<Rightarrow> (ADAPTIVE_ERR_ARGUMENT, set_error error ''config and path are required'', config))"

end
