(* ===== verification/Wavelet.thy ===== *)
theory Wavelet
  imports Types Floats
begin

text \<open>
  \<^verbatim>\<open>src/wavelet_db4.c\<close>: the periodic Daubechies transform, the noise estimate and
  the soft threshold. The two transforms take the arithmetic as an argument, so that the
  same definitions run on the machine's floats (\<open>machine_arith\<close>, what the program
  computes) and on the real numbers (\<open>real_arith\<close>, what the reconstruction theorem is
  about).
\<close>

section \<open>Arithmetic\<close>

text \<open>
  \<open>'d\<close> is the type of the accumulators (\<open>double\<close>), \<open>'f\<close> of the samples (\<open>float\<close>).
\<close>

record ('d, 'f) arith =
  ar_dzero :: 'd
  ar_promote :: "'f \<Rightarrow> 'd"
  ar_dadd :: "'d \<Rightarrow> 'd \<Rightarrow> 'd"
  ar_dmul :: "'d \<Rightarrow> 'd \<Rightarrow> 'd"
  ar_dneg :: "'d \<Rightarrow> 'd"
  ar_narrow :: "'d \<Rightarrow> 'f"
  ar_fzero :: 'f
  ar_fadd :: "'f \<Rightarrow> 'f \<Rightarrow> 'f"

definition machine_arith :: "(double, float32) arith" where
  "machine_arith =
     \<lparr>ar_dzero = dzero, ar_promote = to_double, ar_dadd = dadd, ar_dmul = dmul, ar_dneg = fneg,
      ar_narrow = to_float, ar_fzero = fzero, ar_fadd = fadd binary32\<rparr>"

definition real_arith :: "(real, real) arith" where
  "real_arith =
     \<lparr>ar_dzero = 0, ar_promote = (\<lambda>x. x), ar_dadd = (+), ar_dmul = (*), ar_dneg = uminus,
      ar_narrow = (\<lambda>x. x), ar_fzero = 0, ar_fadd = (+)\<rparr>"

section \<open>The filters\<close>

text \<open>The eighteen decimals of each constant.\<close>

definition db4_low_digits :: "int list" where
  "db4_low_digits =
     [-10597401784997278, 32883011666982945, 30841381835986965, -187034811718881140,
      -27983769416983850, 630880767929858700, 714846570552915400, 230377813308896400]"

definition db4_low :: "double list" where
  "db4_low = map (\<lambda>n. ddec n 18) db4_low_digits"

definition db4_high :: "('d, 'f) arith \<Rightarrow> 'd list \<Rightarrow> nat \<Rightarrow> 'd" where
  "db4_high ar low index =
     (let v = low ! (7 - index) in if index AND 1 \<noteq> 0 then v else ar_dneg ar v)"

section \<open>The transforms\<close>

definition validate_transform :: "nat \<Rightarrow> nat \<Rightarrow> nat \<Rightarrow> unit outcome" where
  "validate_transform count levels scratch_count =
     (if count < 8 \<or> ADAPTIVE_MAX_WINDOW < count \<or> levels = 0 \<or> 64 \<le> levels \<or> scratch_count < count
      then Inl ADAPTIVE_ERR_RANGE
      else if drop_bit (levels - 1) count < 8 then Inl ADAPTIVE_ERR_RANGE
      else
        let divisor = push_bit levels 1
        in if count mod divisor \<noteq> 0 \<or> count div divisor < 1 then Inl ADAPTIVE_ERR_RANGE
           else Inr ())"

text \<open>One output pair: the low-pass and the high-pass sum at position \<open>i\<close>.\<close>

definition analyse :: "('d, 'f) arith \<Rightarrow> 'd list \<Rightarrow> 'f list \<Rightarrow> nat \<Rightarrow> nat \<Rightarrow> 'd \<times> 'd" where
  "analyse ar low v current i =
     foldl (\<lambda>(l, h) k.
         let x = ar_promote ar (v ! ((2 * i + k) mod current))
         in (ar_dadd ar l (ar_dmul ar (low ! k) x), ar_dadd ar h (ar_dmul ar (db4_high ar low k) x)))
       (ar_dzero ar, ar_dzero ar) [0..<8]"

definition forward_level :: "('d, 'f) arith \<Rightarrow> 'd list \<Rightarrow> 'f list \<Rightarrow> nat \<Rightarrow> 'f list" where
  "forward_level ar low v current =
     (let half = current div 2;
          lows = map (\<lambda>i. ar_narrow ar (fst (analyse ar low v current i))) [0..<half];
          highs = map (\<lambda>i. ar_narrow ar (snd (analyse ar low v current i))) [0..<half]
      in lows @ highs @ drop (2 * half) v)"

fun forward_levels :: "('d, 'f) arith \<Rightarrow> 'd list \<Rightarrow> nat \<Rightarrow> 'f list \<Rightarrow> nat \<Rightarrow> 'f list" where
  "forward_levels ar low 0 v current = v"
| "forward_levels ar low (Suc levels) v current =
     forward_levels ar low levels (forward_level ar low v current) (current div 2)"

text \<open>One term of the synthesis sum: \<open>scratch[index] += (float)(...)\<close>.\<close>

definition synthesise :: "('d, 'f) arith \<Rightarrow> 'd list \<Rightarrow> 'f list \<Rightarrow> nat \<Rightarrow> nat \<Rightarrow> 'f list \<Rightarrow> nat \<Rightarrow> 'f list" where
  "synthesise ar low c current i scratch k =
     (let index = (2 * i + k) mod (current * 2)
      in scratch[index := ar_fadd ar (scratch ! index) (ar_narrow ar
           (ar_dadd ar (ar_dmul ar (low ! k) (ar_promote ar (c ! i)))
              (ar_dmul ar (db4_high ar low k) (ar_promote ar (c ! (current + i))))))])"

definition inverse_level :: "('d, 'f) arith \<Rightarrow> 'd list \<Rightarrow> 'f list \<Rightarrow> nat \<Rightarrow> 'f list" where
  "inverse_level ar low c current =
     (let reconstructed = current * 2;
          scratch = foldl (\<lambda>s i. foldl (synthesise ar low c current i) s [0..<8])
                      (replicate reconstructed (ar_fzero ar)) [0..<current]
      in scratch @ drop reconstructed c)"

fun inverse_levels :: "('d, 'f) arith \<Rightarrow> 'd list \<Rightarrow> nat \<Rightarrow> 'f list \<Rightarrow> nat \<Rightarrow> 'f list" where
  "inverse_levels ar low 0 c current = c"
| "inverse_levels ar low (Suc levels) c current =
     inverse_levels ar low levels (inverse_level ar low c current) (current * 2)"

definition db4_forward ::
    "('d, 'f) arith \<Rightarrow> 'd list \<Rightarrow> 'f list option \<Rightarrow> nat \<Rightarrow> nat \<Rightarrow> bool \<Rightarrow> nat \<Rightarrow> 'f list outcome" where
  "db4_forward ar low v count levels scratch_ok scratch_count =
     (case v of
        None \<Rightarrow> Inl ADAPTIVE_ERR_ARGUMENT
      | Some xs \<Rightarrow>
          if \<not> scratch_ok then Inl ADAPTIVE_ERR_ARGUMENT
          else outcome_bind (validate_transform count levels scratch_count)
                 (\<lambda>_. Inr (forward_levels ar low levels xs count)))"

definition db4_inverse ::
    "('d, 'f) arith \<Rightarrow> 'd list \<Rightarrow> 'f list option \<Rightarrow> nat \<Rightarrow> nat \<Rightarrow> bool \<Rightarrow> nat \<Rightarrow> 'f list outcome" where
  "db4_inverse ar low c count levels scratch_ok scratch_count =
     (case c of
        None \<Rightarrow> Inl ADAPTIVE_ERR_ARGUMENT
      | Some xs \<Rightarrow>
          if \<not> scratch_ok then Inl ADAPTIVE_ERR_ARGUMENT
          else outcome_bind (validate_transform count levels scratch_count)
                 (\<lambda>_. Inr (inverse_levels ar low levels xs (drop_bit levels count))))"

definition adaptive_db4_forward ::
    "float32 list option \<Rightarrow> nat \<Rightarrow> nat \<Rightarrow> bool \<Rightarrow> nat \<Rightarrow> float32 list outcome" where
  "adaptive_db4_forward = db4_forward machine_arith db4_low"

definition adaptive_db4_inverse ::
    "float32 list option \<Rightarrow> nat \<Rightarrow> nat \<Rightarrow> bool \<Rightarrow> nat \<Rightarrow> float32 list outcome" where
  "adaptive_db4_inverse = db4_inverse machine_arith db4_low"

section \<open>Noise estimate and threshold\<close>

definition compare_float :: "float32 \<Rightarrow> float32 \<Rightarrow> int" where
  "compare_float a b = (if flt b a then 1 else 0) - (if flt a b then 1 else 0)"

text \<open>
  \<open>qsort\<close> with this comparison, as an insertion sort. The order of the result is fixed by
  the values when there is no NaN; the C library leaves it open otherwise.
\<close>

fun insert_float :: "float32 \<Rightarrow> float32 list \<Rightarrow> float32 list" where
  "insert_float x [] = [x]"
| "insert_float x (y # ys) = (if compare_float x y \<le> 0 then x # y # ys else y # insert_float x ys)"

definition qsort_float :: "float32 list \<Rightarrow> float32 list" where
  "qsort_float xs = foldr insert_float xs []"

definition adaptive_wavelet_noise_sigma :: "float32 list option \<Rightarrow> nat \<Rightarrow> bool \<Rightarrow> nat \<Rightarrow> double" where
  "adaptive_wavelet_noise_sigma coefficients count scratch_ok scratch_count =
     (case coefficients of
        None \<Rightarrow> dzero
      | Some c \<Rightarrow>
          if \<not> scratch_ok \<or> count < 2 \<or> scratch_count < count div 2 then dzero
          else
            let detail_count = count div 2;
                scratch = qsort_float (map (\<lambda>i. fabs (c ! (detail_count + i))) [0..<detail_count]);
                median =
                  (if detail_count AND 1 \<noteq> 0 then to_double (scratch ! (detail_count div 2))
                   else dmul (ddec 5 1) (to_double (fadd binary32 (scratch ! (detail_count div 2 - 1))
                                                     (scratch ! (detail_count div 2)))))
            in ddiv median (ddec 6744897501960817 16))"

definition soft_threshold :: "double \<Rightarrow> float32 \<Rightarrow> float32" where
  "soft_threshold threshold c =
     (let v = to_double c; magnitude = fabs v
      in if fle magnitude threshold then fzero
         else to_float (fcopysign (dsub magnitude threshold) v))"

definition adaptive_wavelet_soft_threshold ::
    "float32 list option \<Rightarrow> nat \<Rightarrow> nat \<Rightarrow> double \<Rightarrow> float32 list option" where
  "adaptive_wavelet_soft_threshold coefficients first_detail count threshold =
     (case coefficients of
        None \<Rightarrow> None
      | Some c \<Rightarrow>
          if count < first_detail \<or> flt threshold dzero then Some c
          else Some (foldl (\<lambda>c i. c[i := soft_threshold threshold (c ! i)]) c [first_detail..<count]))"

section \<open>Shapes\<close>

lemma validate_transform_cases:
  "validate_transform count levels sc = Inr u \<longleftrightarrow>
     8 \<le> count \<and> count \<le> 256 \<and> 0 < levels \<and> levels < 64 \<and> count \<le> sc \<and>
     8 \<le> count div 2 ^ (levels - 1) \<and> 2 ^ levels dvd count"
  by (auto simp: validate_transform_def adaptive_bounds drop_bit_eq_div push_bit_eq_mult
      Let_def not_less dvd_eq_mod_eq_0 div_eq_0_iff intro: le_less_trans)

lemma validate_transform_error:
  "validate_transform count levels sc = Inl e \<Longrightarrow> e = ADAPTIVE_ERR_RANGE"
  by (auto simp: validate_transform_def Let_def split: if_splits)

lemma length_forward_level:
  "even current \<Longrightarrow> current \<le> length v \<Longrightarrow> length (forward_level ar low v current) = length v"
  by (auto simp: forward_level_def Let_def elim!: evenE)

lemma length_synthesise [simp]: "length (synthesise ar low c current i s k) = length s"
  by (simp add: synthesise_def Let_def)

lemma length_foldl_same: "(\<And>s x. length (f s x) = length s) \<Longrightarrow> length (foldl f s xs) = length s"
  by (induction xs arbitrary: s) simp_all

lemma length_inverse_level:
  "current * 2 \<le> length c \<Longrightarrow> length (inverse_level ar low c current) = length c"
  by (simp add: inverse_level_def Let_def length_foldl_same)

lemma length_forward_levels:
  "2 ^ levels dvd current \<Longrightarrow> current \<le> length v \<Longrightarrow>
   length (forward_levels ar low levels v current) = length v"
proof (induction levels arbitrary: v current)
  case (Suc levels)
  then obtain q where q: "current = 2 * (2 ^ levels * q)" by (auto simp: dvd_def mult.assoc)
  then have "even current" by simp
  then have "length (forward_level ar low v current) = length v"
    using Suc.prems by (simp add: length_forward_level)
  moreover have "2 ^ levels dvd current div 2" using q by simp
  ultimately show ?case using Suc by (simp add: le_trans [OF div_le_dividend])
qed simp

lemma length_inverse_levels:
  "current * 2 ^ levels \<le> length c \<Longrightarrow> length (inverse_levels ar low levels c current) = length c"
proof (induction levels arbitrary: c current)
  case (Suc levels)
  then have "current * 2 \<le> length c"
    by (metis (no_types) le_trans mult_le_mono2 power_Suc mult.commute one_le_power
        one_le_numeral mult.left_commute mult_le_cancel1 nat_mult_1_right)
  then show ?case using Suc by (simp add: length_inverse_level mult.assoc)
qed simp

end
