(* ===== verification/Codec.thy ===== *)
theory Codec
  imports Config Wavelet Byte_Order
begin

text \<open>
  \<^verbatim>\<open>include/adaptive/codec.h\<close> and \<^verbatim>\<open>src/codec.c\<close>: the sparse coefficient
  representation and its CRC. The functions of the mathematics library whose result C does
  not fix to the bit (the logarithm, the exponential, and \<open>lround\<close> outside the range of
  \<open>long\<close>) are the argument \<open>libm\<close>. A function that fails returns its code; what it leaves
  in its output buffers then is not modelled, because no caller looks at it.
\<close>

section \<open>The mathematics library\<close>

record libm =
  m_log :: "double \<Rightarrow> double"
  m_exp :: "double \<Rightarrow> double"
  m_lround_unspecified :: "double \<Rightarrow> int"

definition lround :: "libm \<Rightarrow> double \<Rightarrow> int" where
  "lround m x = (case flround x of Some k \<Rightarrow> k | None \<Rightarrow> m_lround_unspecified m x)"

section \<open>The checksum\<close>

definition crc32_bit :: "u32 \<Rightarrow> u32" where
  "crc32_bit crc = (let mask = - (crc AND 1) in drop_bit 1 crc XOR (0xedb88320 AND mask))"

definition crc32_byte :: "u32 \<Rightarrow> u8 \<Rightarrow> u32" where
  "crc32_byte crc b = (crc32_bit ^^ 8) (crc XOR ucast b)"

definition crc32_update :: "u32 \<Rightarrow> bytes \<Rightarrow> u32" where
  "crc32_update crc d = NOT (foldl crc32_byte (NOT crc) d)"

section \<open>Encoding\<close>

definition CODEC_HEADER_BYTES :: nat where "CODEC_HEADER_BYTES = 28"
definition CODEC_VERSION :: u8 where "CODEC_VERSION = 1"
definition codec_magic :: bytes where "codec_magic = [65, 68, 87, 49]"

record codec_metadata =
  md_window_id :: u32
  md_state :: nat
  md_sample_count :: nat
  md_levels :: nat
  md_quant_bits :: nat
  md_nonzero :: nat
  md_threshold :: double
  md_scale :: double

text \<open>The coefficients after transform and soft threshold, with the threshold.\<close>

definition codec_coefficients ::
    "libm \<Rightarrow> float32 list \<Rightarrow> nat \<Rightarrow> nat \<Rightarrow> adaptive_config \<Rightarrow> (float32 list \<times> double) outcome" where
  "codec_coefficients m samples sample_count state config =
     outcome_bind
       (adaptive_db4_forward (Some (take sample_count samples)) sample_count (wavelet_levels config)
          True ADAPTIVE_MAX_WINDOW)
       (\<lambda>coefficients.
          let sigma = adaptive_wavelet_noise_sigma (Some coefficients) sample_count True ADAPTIVE_MAX_WINDOW;
              threshold = dmul (dmul (threshold_gain config ! state) sigma)
                            (dsqrt (dmul (ddec 20 1) (m_log m (dint (int sample_count)))));
              approximation_count = drop_bit (wavelet_levels config) sample_count
          in case adaptive_wavelet_soft_threshold (Some coefficients) approximation_count sample_count threshold of
               Some c \<Rightarrow> Inr (c, threshold)
             | None \<Rightarrow> Inr (coefficients, threshold))"

definition coefficient_maximum :: "float32 list \<Rightarrow> double" where
  "coefficient_maximum coefficients =
     foldl (\<lambda>mx c. let magnitude = fabs (to_double c) in if flt mx magnitude then magnitude else mx)
       dzero coefficients"

definition maximum_integer :: "nat \<Rightarrow> int" where
  "maximum_integer bits = push_bit (bits - 1) 1 - 1"

definition coefficient_scale :: "double \<Rightarrow> int \<Rightarrow> double" where
  "coefficient_scale mx mi = (if flt dzero mx then ddiv mx (dint mi) else ddec 10 1)"

definition quantize :: "libm \<Rightarrow> double \<Rightarrow> int \<Rightarrow> float32 \<Rightarrow> int" where
  "quantize m scale mi c =
     (let q0 = lround m (ddiv (to_double c) scale);
          q1 = (if mi < q0 then mi else q0)
      in if q1 < - mi then - mi else q1)"

text \<open>The pair of one coefficient, nothing for a zero.\<close>

definition coefficient_pair :: "nat \<Rightarrow> int \<Rightarrow> bytes" where
  "coefficient_pair i q = (if q \<noteq> 0 then write_u16 (word_of_nat i) @ write_u16 (word_of_int q) else [])"

definition codec_body :: "int list \<Rightarrow> bytes" where
  "codec_body qs = concat (map (\<lambda>i. coefficient_pair i (qs ! i)) [0..<length qs])"

definition adaptive_codec_encode ::
    "libm \<Rightarrow> float32 list option \<Rightarrow> nat \<Rightarrow> u32 \<Rightarrow> nat \<Rightarrow> adaptive_config option \<Rightarrow>
     bool \<Rightarrow> nat \<Rightarrow> bool \<Rightarrow> (bytes \<times> codec_metadata) outcome" where
  "adaptive_codec_encode m samples sample_count window_id state config
       output_ok output_capacity length_ok =
     (case (samples, config) of
        (Some xs, Some cfg) \<Rightarrow>
          if \<not> output_ok \<or> \<not> length_ok \<or> ADAPTIVE_STATE_COUNT \<le> state then Inl ADAPTIVE_ERR_ARGUMENT
          else if sample_count \<noteq> window_size cfg \<or> ADAPTIVE_MAX_WINDOW < sample_count \<or>
            65535 < sample_count
          then Inl ADAPTIVE_ERR_RANGE
          else
            outcome_bind (codec_coefficients m xs sample_count state cfg) (\<lambda>(coefficients, threshold).
              let mi = maximum_integer (quant_bits cfg ! state);
                  scale = coefficient_scale (coefficient_maximum (take sample_count coefficients)) mi;
                  qs = map (quantize m scale mi) (take sample_count coefficients);
                  nonzero = length (filter (\<lambda>q. q \<noteq> 0) qs)
              in if 65535 < nonzero \<or> output_capacity < CODEC_HEADER_BYTES + nonzero * 4
                 then Inl ADAPTIVE_ERR_CAPACITY
                 else
                   let body = codec_body qs;
                       header = codec_magic @
                         [CODEC_VERSION, word_of_nat (wavelet_levels cfg),
                          word_of_nat (quant_bits cfg ! state), word_of_nat state] @
                         write_u16 (word_of_nat sample_count) @ write_u16 (word_of_nat nonzero) @
                         write_u32 window_id @ write_u32 (float_bits (to_float scale)) @
                         write_u32 (float_bits (to_float threshold)) @
                         write_u32 (crc32_update 0 body)
                   in Inr (header @ body,
                        \<lparr>md_window_id = window_id, md_state = state, md_sample_count = sample_count,
                         md_levels = wavelet_levels cfg, md_quant_bits = quant_bits cfg ! state,
                         md_nonzero = nonzero, md_threshold = threshold, md_scale = scale\<rparr>))
      | _ \<Rightarrow> Inl ADAPTIVE_ERR_ARGUMENT)"

section \<open>Decoding\<close>

text \<open>
  The loop over the pairs: the samples written so far and the previous index, if any. An
  \<open>int16_t\<close> times a \<open>float\<close> is a \<open>float\<close> product.
\<close>

function decode_pairs ::
    "bytes \<Rightarrow> nat \<Rightarrow> nat \<Rightarrow> nat \<Rightarrow> float32 \<Rightarrow> nat option \<Rightarrow> float32 list \<Rightarrow> float32 list outcome" where
  "decode_pairs input i nonzero count scale previous samples =
     (if i < nonzero then
        let offset = CODEC_HEADER_BYTES + i * 4;
            index = unat (read_u16 (drop offset input));
            quantized = sint (read_u16 (drop (offset + 2) input))
        in if count \<le> index \<or> (case previous of Some p \<Rightarrow> index \<le> p | None \<Rightarrow> False)
           then Inl ADAPTIVE_ERR_FORMAT
           else decode_pairs input (i + 1) nonzero count scale (Some index)
                  (samples[index := fmul binary32 (fof_int binary32 quantized) scale])
      else Inr samples)"
  by pat_completeness auto
termination
  by (relation "measure (\<lambda>(input, i, nonzero, _). nonzero - i)") auto

declare decode_pairs.simps [simp del]

definition adaptive_codec_decode ::
    "bytes option \<Rightarrow> bool \<Rightarrow> nat \<Rightarrow> bool \<Rightarrow> (float32 list \<times> codec_metadata) outcome" where
  "adaptive_codec_decode input samples_ok sample_capacity count_ok =
     (case input of
        None \<Rightarrow> Inl ADAPTIVE_ERR_ARGUMENT
      | Some inp \<Rightarrow>
          if \<not> samples_ok \<or> \<not> count_ok then Inl ADAPTIVE_ERR_ARGUMENT
          else if length inp < CODEC_HEADER_BYTES \<or> take 4 inp \<noteq> codec_magic \<or> inp ! 4 \<noteq> CODEC_VERSION
          then Inl ADAPTIVE_ERR_FORMAT
          else
            let levels = unat (inp ! 5);
                bits = unat (inp ! 6);
                state = unat (inp ! 7);
                count = unat (read_u16 (drop 8 inp));
                nonzero = unat (read_u16 (drop 10 inp));
                window_id = read_u32 (drop 12 inp);
                scale = float_of_bits (read_u32 (drop 16 inp));
                threshold = float_of_bits (read_u32 (drop 20 inp));
                expected_crc = read_u32 (drop 24 inp)
            in if count = 0 \<or> ADAPTIVE_MAX_WINDOW < count \<or> sample_capacity < count \<or>
                 levels = 0 \<or> 64 \<le> levels \<or> drop_bit (levels - 1) count < 8 \<or>
                 bits < 2 \<or> 15 < bits \<or> ADAPTIVE_STATE_COUNT \<le> state \<or>
                 \<not> fisfinite scale \<or> fle scale fzero \<or>
                 CODEC_HEADER_BYTES + nonzero * 4 \<noteq> length inp
               then Inl ADAPTIVE_ERR_FORMAT
               else if crc32_update 0 (drop CODEC_HEADER_BYTES inp) \<noteq> expected_crc
               then Inl ADAPTIVE_ERR_INTEGRITY
               else
                 outcome_bind (decode_pairs inp 0 nonzero count scale None (replicate count fzero))
                   (\<lambda>samples.
                 outcome_bind (adaptive_db4_inverse (Some samples) count levels True ADAPTIVE_MAX_WINDOW)
                   (\<lambda>restored.
                    Inr (restored,
                      \<lparr>md_window_id = window_id, md_state = state, md_sample_count = count,
                       md_levels = levels, md_quant_bits = bits, md_nonzero = nonzero,
                       md_threshold = to_double threshold, md_scale = to_double scale\<rparr>))))"

end
