(* ===== verification/Receiver.thy ===== *)
theory Receiver
  imports Aad Security Codec
begin

text \<open>
  \<^verbatim>\<open>include/adaptive/receiver.h\<close> and \<^verbatim>\<open>src/receiver.c\<close>: the receiver that reassembles a
  window from Block1 packets. The session it points to is part of its state; the buffer
  with its length field is the list of the bytes stored so far.
\<close>

record 'c adaptive_receiver =
  rv_security :: "'c security_session option"   \<comment> \<open>the field \<open>security\<close>\<close>
  representation :: bytes
  next_block :: u32
  rv_token :: bytes                              \<comment> \<open>\<open>uint8_t token[8]\<close>\<close>
  rv_token_length :: nat
  rv_active :: bool                              \<comment> \<open>the field \<open>active\<close>\<close>

definition adaptive_receiver_init ::
    "'c adaptive_receiver option \<Rightarrow> 'c security_session option \<Rightarrow> 'c adaptive_receiver option" where
  "adaptive_receiver_init receiver security =
     map_option (\<lambda>_. \<lparr>rv_security = security, representation = [], next_block = 0,
       rv_token = replicate 8 0, rv_token_length = 0, rv_active = False\<rparr>) receiver"

text \<open>Block 0 starts a transfer, whatever the receiver was doing.\<close>

definition start_transfer :: "'c adaptive_receiver \<Rightarrow> coap_block \<Rightarrow> 'c adaptive_receiver" where
  "start_transfer r block =
     (if block_number block = 0
      then r\<lparr>representation := [], next_block := 0, rv_token_length := token_length block,
             rv_token := take (token_length block) (token block) @ drop (token_length block) (rv_token r),
             rv_active := True\<rparr>
      else r)"

text \<open>Is the block the next one of the transfer that is going on?\<close>

definition expected_block :: "'c adaptive_receiver \<Rightarrow> coap_block \<Rightarrow> bool" where
  "expected_block r block \<longleftrightarrow>
     rv_active r \<and> block_number block = next_block r \<and> token_length block = rv_token_length r \<and>
     take (token_length block) (token block) = take (token_length block) (rv_token r)"

text \<open>
  What is done with a parsed block. The result is an error code, \<open>Inr None\<close> for
  \<open>ADAPTIVE_OK\<close> (more blocks are expected) or \<open>Inr (Some w)\<close> for \<open>ADAPTIVE_COMPLETE\<close> with the
  window decoded; the receiver is returned as it is left.
\<close>

definition accept_block ::
    "'c adaptive_receiver \<Rightarrow> coap_block \<Rightarrow> nat \<Rightarrow>
     (float32 list \<times> codec_metadata) option outcome \<times> 'c adaptive_receiver" where
  "accept_block r block sample_capacity =
     (let r1 = start_transfer r block
      in if \<not> expected_block r1 block then (Inl ADAPTIVE_ERR_FORMAT, r1)
         else
           let aad = adaptive_pipeline_build_aad (Some block) True;
               (opened, security) =
                 adaptive_security_open (rv_security r1) (payload block) (payload_length block)
                   (Some aad) (length aad) True ADAPTIVE_MAX_BLOCK_SIZE True;
               r2 = r1\<lparr>rv_security := security\<rparr>
           in case opened of
                Inl e \<Rightarrow> (Inl e, r2)
              | Inr plaintext \<Rightarrow>
                  if ADAPTIVE_MAX_REPRESENTATION - length (representation r2) < length plaintext
                  then (Inl ADAPTIVE_ERR_CAPACITY, r2)
                  else
                    let r3 = r2\<lparr>representation := representation r2 @ plaintext,
                                next_block := next_block r2 + 1\<rparr>
                    in if more_flag block \<noteq> 0 then (Inr None, r3)
                       else case adaptive_codec_decode (Some (representation r3)) True sample_capacity True of
                         Inl e \<Rightarrow> (Inl e, r3)
                       | Inr w \<Rightarrow> (Inr (Some w), r3\<lparr>rv_active := False\<rparr>))"

definition adaptive_receiver_accept ::
    "'c adaptive_receiver option \<Rightarrow> bytes option \<Rightarrow> bool \<Rightarrow> nat \<Rightarrow> bool \<Rightarrow>
     (float32 list \<times> codec_metadata) option outcome \<times> 'c adaptive_receiver option" where
  "adaptive_receiver_accept receiver packet samples_ok sample_capacity count_ok =
     (case receiver of
        None \<Rightarrow> (Inl ADAPTIVE_ERR_ARGUMENT, None)
      | Some r \<Rightarrow>
          if rv_security r = None \<or> packet = None \<or> \<not> samples_ok \<or> \<not> count_ok
          then (Inl ADAPTIVE_ERR_ARGUMENT, receiver)
          else case adaptive_coap_parse_block1 packet True of
            Inl e \<Rightarrow> (Inl e, receiver)
          | Inr block \<Rightarrow> (case accept_block r block sample_capacity of (result, r') \<Rightarrow> (result, Some r')))"

end
