(* ===== verification/Receiver_Assembly.thy ===== *)
theory Receiver_Assembly
  imports Receiver Coap_Roundtrip
begin

text \<open>
  What the receiver promises, whatever arrives: it assembles the opened records of one
  transfer in order. The abstract machine knows a token and the list of the plaintexts taken
  so far; the receiver refines it.
\<close>

declare One_nat_def [simp del]

section \<open>The abstract machine\<close>

text \<open>\<open>None\<close>: no transfer. Otherwise the token of the transfer and its plaintexts.\<close>

type_synonym assembly = "(bytes \<times> bytes list) option"

text \<open>Block 0 starts over.\<close>

definition begin_assembly :: "u32 \<Rightarrow> bytes \<Rightarrow> assembly \<Rightarrow> assembly" where
  "begin_assembly n tok a = (if n = 0 then Some (tok, []) else a)"

text \<open>A block is the next one when a transfer with its token has as many plaintexts as its number says.\<close>

definition is_next :: "u32 \<Rightarrow> bytes \<Rightarrow> assembly \<Rightarrow> bool" where
  "is_next n tok a = (case a of None \<Rightarrow> False | Some (tok', chunks) \<Rightarrow> n = word_of_nat (length chunks) \<and> tok = tok')"

text \<open>
  A block with number \<open>n\<close>, token \<open>tok\<close> and More flag \<open>mf\<close>, whose record opened to \<open>opened\<close>:
  the result and the assembly it leaves. A transfer ends with its last block, unless its
  bytes are not a window.
\<close>

definition assemble ::
    "nat \<Rightarrow> u32 \<Rightarrow> bytes \<Rightarrow> bool \<Rightarrow> bytes outcome \<Rightarrow> assembly \<Rightarrow>
     (float32 list \<times> codec_metadata) option outcome \<times> assembly" where
  "assemble sample_capacity n tok mf opened a0 =
     (let a = begin_assembly n tok a0
      in if \<not> is_next n tok a then (Inl ADAPTIVE_ERR_FORMAT, a)
         else case (opened, a) of
           (Inr p, Some (tok', chunks)) \<Rightarrow>
             if ADAPTIVE_MAX_REPRESENTATION < length (concat chunks) + length p then (Inl ADAPTIVE_ERR_CAPACITY, a)
             else if mf then (Inr None, Some (tok', chunks @ [p]))
             else (case adaptive_codec_decode (Some (concat (chunks @ [p]))) True sample_capacity True of
                     Inl e \<Rightarrow> (Inl e, Some (tok', chunks @ [p]))
                   | Inr w \<Rightarrow> (Inr (Some w), None))
         | (Inl e, _) \<Rightarrow> (Inl e, a)
         | _ \<Rightarrow> (Inl ADAPTIVE_ERR_FORMAT, a))"

section \<open>The receiver refines it\<close>

definition assembles :: "'c adaptive_receiver \<Rightarrow> assembly \<Rightarrow> bool" where
  "assembles r a \<longleftrightarrow>
     length (rv_token r) = 8 \<and> length (representation r) \<le> ADAPTIVE_MAX_REPRESENTATION \<and>
     (case a of
        None \<Rightarrow> \<not> rv_active r
      | Some (tok, chunks) \<Rightarrow>
          rv_active r \<and> rv_token_length r = length tok \<and> take (rv_token_length r) (rv_token r) = tok \<and>
          next_block r = word_of_nat (length chunks) \<and> representation r = concat chunks)"

definition block_token :: "coap_block \<Rightarrow> bytes" where
  "block_token b = take (token_length b) (token b)"

lemma start_transfer_assembles:
  assumes "assembles r a" "length (token b) = 8" "token_length b \<le> 8"
  shows "assembles (start_transfer r b) (begin_assembly (block_number b) (block_token b) a)"
  using assms by (auto simp: assembles_def start_transfer_def begin_assembly_def block_token_def)

lemma expected_is_next:
  assumes "assembles r a" "length (token b) = 8" "token_length b \<le> 8"
  shows "expected_block r b = is_next (block_number b) (block_token b) a"
proof (cases a)
  case None
  then show ?thesis using assms by (simp add: assembles_def expected_block_def is_next_def)
next
  case (Some t)
  obtain tok chunks where t: "t = (tok, chunks)" by (cases t)
  have tok: "tok = take (rv_token_length r) (rv_token r)" "rv_token_length r = length tok"
    using assms(1) by (auto simp: assembles_def Some t)
  have len: "length (take (token_length b) (token b)) = token_length b" using assms(2,3) by simp
  have "block_token b = tok \<longleftrightarrow>
      token_length b = rv_token_length r \<and> take (token_length b) (token b) = take (rv_token_length r) (rv_token r)"
    unfolding block_token_def using tok len by metis
  then show ?thesis
    using assms(1) by (auto simp: assembles_def expected_block_def is_next_def Some t)
qed

text \<open>What the session makes of the record of a block.\<close>

definition opened_record :: "'c adaptive_receiver \<Rightarrow> coap_block \<Rightarrow> bytes outcome \<times> 'c security_session option" where
  "opened_record r b =
     adaptive_security_open (rv_security r) (payload b) (payload_length b)
       (Some (adaptive_pipeline_build_aad (Some b) True)) (length (adaptive_pipeline_build_aad (Some b) True))
       True ADAPTIVE_MAX_BLOCK_SIZE True"

lemma start_transfer_security [simp]: "rv_security (start_transfer r b) = rv_security r"
  by (simp add: start_transfer_def)

lemma accept_block_assembles:
  assumes r: "assembles r a" and b: "length (token b) = 8" "token_length b \<le> 8"
    and run: "accept_block r b capacity = (result, r')"
    and spec: "assemble capacity (block_number b) (block_token b) (more_flag b \<noteq> 0) (fst (opened_record r b)) a = (result', a')"
  shows "result = result' \<and> assembles r' a'"
proof -
  define r1 where "r1 = start_transfer r b"
  define a1 where "a1 = begin_assembly (block_number b) (block_token b) a"
  have r1: "assembles r1 a1" unfolding r1_def a1_def by (rule start_transfer_assembles [OF r b])
  note next1 = expected_is_next [OF r1 b]
  obtain opened ses where open1: "opened_record r b = (opened, ses)" by (cases "opened_record r b")
  have open2: "adaptive_security_open (rv_security r) (payload b) (payload_length b)
       (Some (adaptive_pipeline_build_aad (Some b) True)) (length (adaptive_pipeline_build_aad (Some b) True))
       True ADAPTIVE_MAX_BLOCK_SIZE True = (opened, ses)" using open1 by (simp add: opened_record_def)
  have sec: "rv_security r1 = rv_security r" by (simp add: r1_def)
  show ?thesis
  proof (cases "expected_block r1 b")
    case False
    then show ?thesis
      using run spec r1 next1 by (auto simp: accept_block_def assemble_def r1_def [symmetric] a1_def [symmetric] Let_def)
  next
    case True
    then have nx: "is_next (block_number b) (block_token b) a1" using next1 by simp
    obtain tok chunks where a1: "a1 = Some (tok, chunks)" using nx by (auto simp: is_next_def split: option.splits)
    have rep: "representation r1 = concat chunks" "length (concat chunks) \<le> ADAPTIVE_MAX_REPRESENTATION"
      using r1 by (auto simp: assembles_def a1)
    have f: "length (rv_token r1) = 8" "rv_active r1" "rv_token_length r1 = length tok"
        "take (length tok) (rv_token r1) = tok" "next_block r1 = word_of_nat (length chunks)"
      using r1 by (auto simp: assembles_def a1)
    have keep: "assembles (r1\<lparr>rv_security := ses\<rparr>) a1" using r1 by (auto simp: assembles_def a1)
    show ?thesis
    proof (cases opened)
      case (Inl e)
      then show ?thesis
        using run spec keep True nx open1
        by (auto simp: accept_block_def assemble_def r1_def [symmetric] a1_def [symmetric] Let_def sec open2 a1)
    next
      case (Inr p)
      have room: "ADAPTIVE_MAX_REPRESENTATION - length (concat chunks) < length p \<longleftrightarrow>
          ADAPTIVE_MAX_REPRESENTATION < length (concat chunks) + length p"
        using rep(2) by linarith
      show ?thesis
      proof (cases "ADAPTIVE_MAX_REPRESENTATION < length (concat chunks) + length p")
        case True
        then show ?thesis
          using run spec keep \<open>expected_block r1 b\<close> nx open1 Inr room
          by (simp add: accept_block_def assemble_def r1_def [symmetric] a1_def [symmetric] Let_def sec open2 a1 rep(1))
      next
        case False
        define r3 where "r3 = r1\<lparr>rv_security := ses, representation := concat (chunks @ [p]), next_block := next_block r1 + 1\<rparr>"
        have r3: "assembles r3 (Some (tok, chunks @ [p]))" "assembles (r3\<lparr>rv_active := False\<rparr>) None"
          using f rep False by (auto simp: assembles_def r3_def add.commute)
        show ?thesis
          using run spec r3 \<open>expected_block r1 b\<close> nx open1 Inr room False
          by (auto simp: accept_block_def assemble_def r1_def [symmetric] a1_def [symmetric] Let_def sec open2 a1 rep(1)
              r3_def split: sum.splits if_splits)
      qed
    qed
  qed
qed

section \<open>Runs\<close>

text \<open>The arguments of one call: the packet, whether \<open>samples\<close> is given, its capacity, whether \<open>count\<close> is given.\<close>

type_synonym accept_call = "bytes option \<times> bool \<times> nat \<times> bool"

fun call_result ::
    "'c adaptive_receiver \<Rightarrow> accept_call \<Rightarrow>
     (float32 list \<times> codec_metadata) option outcome \<times> 'c adaptive_receiver option" where
  "call_result r (packet, samples_ok, capacity, count_ok) =
     adaptive_receiver_accept (Some r) packet samples_ok capacity count_ok"

fun receive_calls ::
    "'c adaptive_receiver \<Rightarrow> accept_call list \<Rightarrow>
     (float32 list \<times> codec_metadata) option outcome list \<times> 'c adaptive_receiver" where
  "receive_calls r [] = ([], r)"
| "receive_calls r (c # cs) =
     (let (result, r') = call_result r c;
          (results, r'') = receive_calls (the r') cs
      in (result # results, r''))"

text \<open>
  What the abstract machine is told of a call: the error of its arguments or of its packet, or
  the capacity, the block and what the session makes of its record.
\<close>

fun seen ::
    "'c adaptive_receiver \<Rightarrow> accept_call \<Rightarrow> (nat \<times> u32 \<times> bytes \<times> bool \<times> bytes outcome) outcome" where
  "seen r (packet, samples_ok, capacity, count_ok) =
     (if rv_security r = None \<or> packet = None \<or> \<not> samples_ok \<or> \<not> count_ok then Inl ADAPTIVE_ERR_ARGUMENT
      else map_sum id
        (\<lambda>b. (capacity, block_number b, block_token b, more_flag b \<noteq> 0, fst (opened_record r b)))
        (adaptive_coap_parse_block1 packet True))"

fun all_seen ::
    "'c adaptive_receiver \<Rightarrow> accept_call list \<Rightarrow>
     (nat \<times> u32 \<times> bytes \<times> bool \<times> bytes outcome) outcome list" where
  "all_seen r [] = []"
| "all_seen r (c # cs) = seen r c # all_seen (the (snd (call_result r c))) cs"

fun assemble_seen ::
    "(nat \<times> u32 \<times> bytes \<times> bool \<times> bytes outcome) outcome \<Rightarrow> assembly \<Rightarrow>
     (float32 list \<times> codec_metadata) option outcome \<times> assembly" where
  "assemble_seen (Inl e) a = (Inl e, a)"
| "assemble_seen (Inr (capacity, n, tok, mf, opened)) a = assemble capacity n tok mf opened a"

fun assemble_all ::
    "(nat \<times> u32 \<times> bytes \<times> bool \<times> bytes outcome) outcome list \<Rightarrow> assembly \<Rightarrow>
     (float32 list \<times> codec_metadata) option outcome list \<times> assembly" where
  "assemble_all [] a = ([], a)"
| "assemble_all (x # xs) a =
     (let (result, a') = assemble_seen x a;
          (results, a'') = assemble_all xs a'
      in (result # results, a''))"

lemma call_result_assembles:
  assumes r: "assembles r a"
  shows "\<exists>r'. snd (call_result r c) = Some r' \<and> fst (call_result r c) = fst (assemble_seen (seen r c) a) \<and>
    assembles r' (snd (assemble_seen (seen r c) a))"
proof -
  obtain packet samples_ok capacity count_ok where c: "c = (packet, samples_ok, capacity, count_ok)"
    by (cases c)
  show ?thesis
  proof (cases "rv_security r = None \<or> packet = None \<or> \<not> samples_ok \<or> \<not> count_ok")
    case True
    then show ?thesis using r by (auto simp: c adaptive_receiver_accept_def)
  next
    case args: False
    then obtain p where p: "packet = Some p" by (cases packet) auto
    show ?thesis
    proof (cases "adaptive_coap_parse_block1 (Some p) True")
      case (Inl e)
      then show ?thesis using r args by (auto simp: c p adaptive_receiver_accept_def)
    next
      case (Inr b)
      have b: "length (token b) = 8" "token_length b \<le> 8"
        using coap_parse_wf [OF Inr] by (simp_all add: block_wf_def)
      show ?thesis
        using args Inr accept_block_assembles [OF r b prod.collapse [symmetric] prod.collapse [symmetric], of capacity]
        by (auto simp: c p adaptive_receiver_accept_def split: prod.split)
    qed
  qed
qed

lemma receive_calls_assemble:
  "assembles r a \<Longrightarrow>
   fst (receive_calls r cs) = fst (assemble_all (all_seen r cs) a) \<and>
   assembles (snd (receive_calls r cs)) (snd (assemble_all (all_seen r cs) a))"
proof (induction cs arbitrary: r a)
  case Nil
  then show ?case by simp
next
  case (Cons c cs)
  obtain r' where r': "snd (call_result r c) = Some r'"
      "fst (call_result r c) = fst (assemble_seen (seen r c) a)"
      "assembles r' (snd (assemble_seen (seen r c) a))"
    using call_result_assembles [OF Cons.prems] by blast
  show ?case using Cons.IH [OF r'(3)] r'(1,2) by (simp add: case_prod_beta Let_def)
qed

text \<open>A receiver that was just initialised.\<close>

definition fresh_receiver :: "'c adaptive_receiver \<Rightarrow> 'c security_session option \<Rightarrow> 'c adaptive_receiver" where
  "fresh_receiver junk security = the (adaptive_receiver_init (Some junk) security)"

text \<open>
  C6: Whatever is passed to a fresh receiver, call after call (wrong arguments, packets that do
  not parse, blocks out of order, records that do not open), its results are exactly those of
  the abstract machine that keeps a token and the list of the plaintexts taken so far: a
  transfer starts with block 0, only the block whose number is the count of the plaintexts and
  whose token is that of the transfer is opened, and a window is the decoding of the
  concatenation of all the plaintexts of its transfer. The receiver it leaves holds that token
  and those plaintexts and never more than the 1088 bytes of its buffer.
\<close>

theorem receiver_refines_assembly:
  "fst (receive_calls (fresh_receiver junk security) calls)
     = fst (assemble_all (all_seen (fresh_receiver junk security) calls) None) \<and>
   assembles (snd (receive_calls (fresh_receiver junk security) calls))
     (snd (assemble_all (all_seen (fresh_receiver junk security) calls) None))"
  by (rule receive_calls_assemble) (simp add: fresh_receiver_def adaptive_receiver_init_def assembles_def)

end
