(* ===== verification/Security_Test.thy ===== *)
theory Security_Test
  imports Security
begin

text \<open>
  \<^verbatim>\<open>src/security_test.c\<close>: the deterministic provider for tests and Cooja. Its record is
  a version byte, a big-endian sequence number, the plaintext under a keystream, and four
  32-bit lanes of FNV-1a over header, additional data and ciphertext. It is an instance of
  \<open>replay_protected\<close>; and every single changed ciphertext, header or tag byte is caught.
\<close>

section \<open>Keystream and tag\<close>

record test_context =
  tx_key :: u64
  rx_key :: u64
  tx_sequence :: u64
  rx_highest :: u64
  rx_initialized :: bool

definition mix64 :: "u64 \<Rightarrow> u64" where
  "mix64 v =
     (let v1 = v XOR drop_bit 30 v;
          v2 = v1 * 0xbf58476d1ce4e5b9;
          v3 = v2 XOR drop_bit 27 v2;
          v4 = v3 * 0x94d049bb133111eb
      in v4 XOR drop_bit 31 v4)"

definition stream_byte :: "u64 \<Rightarrow> u64 \<Rightarrow> nat \<Rightarrow> u8" where
  "stream_byte key sequence index =
     (let block = mix64 (key XOR sequence XOR (word_of_nat (index div 8) * 0x9e3779b97f4a7c15))
      in ucast (drop_bit (8 * (index mod 8)) block))"

definition fnv1a :: "u32 \<Rightarrow> bytes \<Rightarrow> u32" where
  "fnv1a hash d = foldl (\<lambda>h b. (h XOR ucast b) * 16777619) hash d"

definition tag_lane :: "u64 \<Rightarrow> bytes \<Rightarrow> bytes \<Rightarrow> bytes \<Rightarrow> nat \<Rightarrow> u32" where
  "tag_lane key header ciphertext aad lane =
     (let hash = 2166136261 XOR ucast (drop_bit (lane mod 2 * 32) key) XOR
                 (word_of_nat lane * 0x9e3779b9)
      in fnv1a (fnv1a (fnv1a hash header) aad) ciphertext)"

definition make_tag :: "u64 \<Rightarrow> bytes \<Rightarrow> bytes \<Rightarrow> bytes \<Rightarrow> bytes" where
  "make_tag key header ciphertext aad =
     concat (map (\<lambda>lane.
       let hash = tag_lane key header ciphertext aad lane
       in [ucast (drop_bit 24 hash), ucast (drop_bit 16 hash), ucast (drop_bit 8 hash), ucast hash])
     [0..<4])"

section \<open>Seal and open\<close>

definition keystream_xor :: "u64 \<Rightarrow> u64 \<Rightarrow> bytes \<Rightarrow> bytes" where
  "keystream_xor key sequence d =
     map (\<lambda>i. d ! i XOR stream_byte key sequence i) [0..<length d]"

definition record_header :: "u64 \<Rightarrow> bytes" where
  "record_header sequence = ADAPTIVE_SECURITY_RECORD_VERSION # write_u64_be sequence"

definition test_seal :: "test_context seal_fn" where
  "test_seal context plaintext aad record_capacity =
     (case context of
        None \<Rightarrow> (Inl ADAPTIVE_ERR_CAPACITY, None)
      | Some t \<Rightarrow>
          if record_capacity < length plaintext \<or>
             record_capacity - length plaintext < ADAPTIVE_SECURITY_OVERHEAD
          then (Inl ADAPTIVE_ERR_CAPACITY, context)
          else
            let sequence = tx_sequence t;
                header = record_header sequence;
                ciphertext = keystream_xor (tx_key t) sequence plaintext;
                tag = make_tag (tx_key t) header ciphertext aad
            in (Inr (header @ ciphertext @ tag), Some (t\<lparr>tx_sequence := sequence + 1\<rparr>)))"

definition tag_difference :: "bytes \<Rightarrow> bytes \<Rightarrow> u32" where
  "tag_difference expected received =
     foldl (\<lambda>d i. d OR ucast (expected ! i XOR received ! i)) 0 [0..<ADAPTIVE_SECURITY_TAG_BYTES]"

definition test_open :: "test_context open_fn" where
  "test_open context rec aad plaintext_capacity =
     (case context of
        None \<Rightarrow> (Inl ADAPTIVE_ERR_FORMAT, None)
      | Some t \<Rightarrow>
          if length rec < ADAPTIVE_SECURITY_OVERHEAD \<or> rec ! 0 \<noteq> ADAPTIVE_SECURITY_RECORD_VERSION
          then (Inl ADAPTIVE_ERR_FORMAT, context)
          else
            let sequence = read_u64_be (drop 1 rec)
            in if rx_initialized t \<and> sequence \<le> rx_highest t
               then (Inl ADAPTIVE_ERR_REPLAY, context)
               else
                 let ciphertext_length = length rec - ADAPTIVE_SECURITY_OVERHEAD
                 in if plaintext_capacity < ciphertext_length
                    then (Inl ADAPTIVE_ERR_CAPACITY, context)
                    else
                      let start = 1 + ADAPTIVE_SECURITY_SEQUENCE_BYTES;
                          ciphertext = take ciphertext_length (drop start rec);
                          received = drop (start + ciphertext_length) rec;
                          expected = make_tag (rx_key t) (take start rec) ciphertext aad
                      in if tag_difference expected received \<noteq> 0
                         then (Inl ADAPTIVE_ERR_INTEGRITY, context)
                         else (Inr (keystream_xor (rx_key t) sequence ciphertext),
                               Some (t\<lparr>rx_highest := sequence, rx_initialized := True\<rparr>)))"

section \<open>Creating and destroying a pair\<close>

definition zero_test_context :: test_context where
  "zero_test_context =
     \<lparr>tx_key = 0, rx_key = 0, tx_sequence = 0, rx_highest = 0, rx_initialized = False\<rparr>"

text \<open>What is in the context's memory when it is freed.\<close>

definition test_destroy :: "test_context destroy_fn" where
  "test_destroy context = zero_test_context"

definition initialize_session :: "test_context \<Rightarrow> test_context security_session" where
  "initialize_session context =
     zero_session\<lparr>sess_context := Some context, sess_seal := Some test_seal,
       sess_open := Some test_open, sess_destroy := Some test_destroy,
       sess_overhead := ADAPTIVE_SECURITY_OVERHEAD, sess_production := False\<rparr>"

text \<open>
  The flags say whether the session pointers are valid and whether the two allocations
  succeed; the result is the pair of sessions written.
\<close>

definition adaptive_security_test_pair ::
    "bool \<Rightarrow> bool \<Rightarrow> u64 \<Rightarrow> bool \<Rightarrow> bool \<Rightarrow>
     (test_context security_session \<times> test_context security_session) outcome" where
  "adaptive_security_test_pair client_ok server_ok seed client_alloc server_alloc =
     (if \<not> client_ok \<or> \<not> server_ok then Inl ADAPTIVE_ERR_ARGUMENT
      else if \<not> client_alloc \<or> \<not> server_alloc then Inl ADAPTIVE_ERR_CAPACITY
      else
        let client_to_server = mix64 (seed XOR 0x434c49454e542d54);
            server_to_client = mix64 (seed XOR 0x5345525645522d54);
            client_context = zero_test_context\<lparr>tx_key := client_to_server, rx_key := server_to_client\<rparr>;
            server_context = zero_test_context\<lparr>tx_key := server_to_client, rx_key := client_to_server\<rparr>
        in Inr (initialize_session client_context, initialize_session server_context))"

section \<open>The provider keeps the contract\<close>

lemma length_make_tag [simp]: "length (make_tag k h c a) = 16"
  by (simp add: make_tag_def Let_def upt_rec numeral_eq_Suc)

lemma length_keystream_xor [simp]: "length (keystream_xor k n d) = length d"
  by (simp add: keystream_xor_def)

lemma keystream_xor_twice [simp]: "keystream_xor k n (keystream_xor k n d) = d"
  by (rule nth_equalityI) (simp_all add: keystream_xor_def xor.assoc)

lemma length_record_header [simp]: "length (record_header n) = 9"
  by (simp add: record_header_def)

lemma or_zero_iff: "(a :: 'a::len word) OR b = 0 \<longleftrightarrow> a = 0 \<and> b = 0"
  by (auto simp: bit_eq_iff bit_simps)

lemma foldl_or_zero:
  "foldl (\<lambda>d i. d OR f i) d xs = (0 :: 'a::len word) \<longleftrightarrow> d = 0 \<and> (\<forall>i \<in> set xs. f i = 0)"
  by (induction xs arbitrary: d) (auto simp: or_zero_iff)

lemma xor_zero_iff: "a XOR b = (0 :: u8) \<longleftrightarrow> a = b"
  by (metis xor.right_neutral xor_self_eq xor.assoc)

lemma ucast_u8_zero: "(ucast (x :: u8) :: u32) = 0 \<longleftrightarrow> x = 0"
proof
  assume "(ucast x :: u32) = 0"
  then have "bit (ucast x :: u32) n = bit (0 :: u32) n" for n by simp
  then show "x = 0" by (intro bit_word_eqI) (simp add: bit_simps)
qed simp

lemma tag_difference_zero:
  "length e = 16 \<Longrightarrow> length r = 16 \<Longrightarrow> tag_difference e r = 0 \<longleftrightarrow> e = r"
  unfolding tag_difference_def foldl_or_zero ucast_u8_zero xor_zero_iff
  by (auto simp: ADAPTIVE_SECURITY_TAG_BYTES_def intro: nth_equalityI)

definition test_synced :: "nat \<Rightarrow> test_context option \<Rightarrow> test_context option \<Rightarrow> bool" where
  "test_synced n c s =
     (case (c, s) of
        (Some t, Some u) \<Rightarrow>
          rx_key u = tx_key t \<and> unat (tx_sequence t) + n < 2 ^ 64 \<and>
          (rx_initialized u \<longrightarrow> rx_highest u < tx_sequence t)
      | _ \<Rightarrow> False)"

lemma read_record_header: "read_u64_be (drop 1 (record_header n @ rest)) = n"
  by (simp add: record_header_def)

lemma record_header_first: "(record_header n @ rest) ! 0 = 1"
  by (simp add: record_header_def security_constants)

text \<open>Opening a record that is given by its parts.\<close>

lemma test_open_parts:
  assumes "length ct \<le> cap" "length tag = 16"
  shows "test_open (Some u) (record_header n @ ct @ tag) a cap =
    (if rx_initialized u \<and> n \<le> rx_highest u then (Inl ADAPTIVE_ERR_REPLAY, Some u)
     else if make_tag (rx_key u) (record_header n) ct a \<noteq> tag
     then (Inl ADAPTIVE_ERR_INTEGRITY, Some u)
     else (Inr (keystream_xor (rx_key u) n ct),
           Some (u\<lparr>rx_highest := n, rx_initialized := True\<rparr>)))"
  using assms read_record_header [of n "ct @ tag"]
  by (simp add: test_open_def security_constants record_header_first tag_difference_zero Let_def)

lemma test_seal_parts:
  "test_seal (Some t) p a cap =
    (if length p + 25 \<le> cap
     then (Inr (record_header (tx_sequence t) @ keystream_xor (tx_key t) (tx_sequence t) p @
                make_tag (tx_key t) (record_header (tx_sequence t))
                  (keystream_xor (tx_key t) (tx_sequence t) p) a),
           Some (t\<lparr>tx_sequence := tx_sequence t + 1\<rparr>))
     else (Inl ADAPTIVE_ERR_CAPACITY, Some t))"
  by (auto simp: test_seal_def security_constants Let_def)

lemma test_synced_cases:
  assumes "test_synced n c s"
  obtains t u where "c = Some t" "s = Some u" "rx_key u = tx_key t"
    "unat (tx_sequence t) + n < 2 ^ 64" "rx_initialized u \<longrightarrow> rx_highest u < tx_sequence t"
  using assms by (auto simp: test_synced_def split: option.splits)

lemma test_seal_error_keeps: "test_seal c p a cap = (Inl e, c') \<Longrightarrow> c' = c"
  by (auto simp: test_seal_def Let_def split: option.splits if_splits)

lemma test_open_error_keeps: "test_open s r a cap = (Inl e, s') \<Longrightarrow> s' = s"
  by (auto simp: test_open_def Let_def split: option.splits if_splits)

lemma test_open_accepts:
  assumes "test_open s r a cap = (Inr p, s')"
  obtains u where "s = Some u" "25 \<le> length r" "r ! 0 = 1"
    "rx_initialized u \<longrightarrow> rx_highest u < read_u64_be (drop 1 r)" "length r - 25 \<le> cap"
    "make_tag (rx_key u) (take 9 r) (take (length r - 25) (drop 9 r)) a = drop (length r - 16) r"
    "p = keystream_xor (rx_key u) (read_u64_be (drop 1 r)) (take (length r - 25) (drop 9 r))"
    "s' = Some (u\<lparr>rx_highest := read_u64_be (drop 1 r), rx_initialized := True\<rparr>)"
proof -
  obtain u where s: "s = Some u" using assms by (auto simp: test_open_def split: option.splits)
  note d = assms [unfolded s test_open_def security_constants Let_def]
  from d have len: "25 \<le> length r" by (auto split: if_splits)
  have tail: "9 + (length r - 25) = length r - 16" using len by simp
  show thesis
    using d tag_difference_zero [of _ "drop (length r - 16) r"]
    by (intro that [of u]) (auto simp: s tail len split: if_splits)
qed

lemma test_open_checked:
  assumes "25 \<le> length r" "length r - 25 \<le> cap"
  shows "test_open (Some u) r a cap =
    (if r ! 0 \<noteq> 1 then (Inl ADAPTIVE_ERR_FORMAT, Some u)
     else if rx_initialized u \<and> read_u64_be (drop 1 r) \<le> rx_highest u
     then (Inl ADAPTIVE_ERR_REPLAY, Some u)
     else if make_tag (rx_key u) (take 9 r) (take (length r - 25) (drop 9 r)) a \<noteq> drop (length r - 16) r
     then (Inl ADAPTIVE_ERR_INTEGRITY, Some u)
     else (Inr (keystream_xor (rx_key u) (read_u64_be (drop 1 r)) (take (length r - 25) (drop 9 r))),
           Some (u\<lparr>rx_highest := read_u64_be (drop 1 r), rx_initialized := True\<rparr>)))"
proof -
  have "9 + (length r - 25) = length r - 16" using assms by simp
  then show ?thesis
    using assms by (simp add: test_open_def security_constants tag_difference_zero Let_def)
qed

lemma read_u64_be_update: "9 \<le> i \<Longrightarrow> read_u64_be (drop (Suc 0) (r[i := b])) = read_u64_be (drop (Suc 0) r)"
  by (auto simp: read_u64_be_def upt_rec numeral_eq_Suc nth_list_update drop_update_swap)

lemma list_update_changes: "i < length xs \<Longrightarrow> b \<noteq> xs ! i \<Longrightarrow> xs[i := b] \<noteq> xs"
  by (metis nth_list_update_eq)

interpretation test_layer: replay_protected test_seal test_open ADAPTIVE_SECURITY_OVERHEAD "\<lambda>m n. True" test_synced
proof unfold_locales
  show "0 < ADAPTIVE_SECURITY_OVERHEAD" by (simp add: security_constants)
next
  show "m \<le> ADAPTIVE_MAX_BLOCK_SIZE \<Longrightarrow> n \<le> 16 \<Longrightarrow> True" for m n :: nat by simp
next
  fix n c s and p a :: bytes and cap
  assume "test_synced (Suc n) c s" "length p + ADAPTIVE_SECURITY_OVERHEAD \<le> cap"
  then show "\<exists>r c'. test_seal c p a cap = (Inr r, c')"
    by (auto elim!: test_synced_cases simp: test_seal_parts security_constants)
next
  fix n c s p a cap r c'
  assume "test_synced (Suc n) c s" "test_seal c p a cap = (Inr r, c')"
  then show "length r = length p + ADAPTIVE_SECURITY_OVERHEAD"
    by (cases c) (auto simp: test_seal_parts test_seal_def [of None] security_constants split: if_splits)
next
  fix n c s p a cap r c' pcap
  assume sync: "test_synced (Suc n) c s" and sl: "test_seal c p a cap = (Inr r, c')"
    and cap: "length p \<le> (pcap :: nat)"
  obtain t u where tu: "c = Some t" "s = Some u" "rx_key u = tx_key t"
    "unat (tx_sequence t) + Suc n < 2 ^ 64" "rx_initialized u \<longrightarrow> rx_highest u < tx_sequence t"
    by (rule test_synced_cases [OF sync])
  show "\<exists>s'. test_open s r a pcap = (Inr p, s') \<and> test_synced n c' s'"
    using sl tu cap next_sequence [OF tu(4)]
    by (auto simp: test_seal_parts test_open_parts test_synced_def split: if_splits)
next
  fix n c s assume "test_synced (Suc n) c s"
  then show "test_synced n c s" by (auto simp: test_synced_def split: option.splits)
next
  fix s r a pcap p s' a' pcap'
  assume "test_open s r a pcap = (Inr p, s')"
  then show "\<exists>e. test_open s' r a' pcap' = (Inl e, s') \<and> (a' = a \<longrightarrow> e = ADAPTIVE_ERR_REPLAY)"
    by (rule test_open_accepts) (simp add: test_open_def security_constants Let_def)
next
  fix s r a pcap e s'
  assume "test_open s r a pcap = (Inl e, s')"
  then show "s' = s" by (rule test_open_error_keeps)
qed

section \<open>Tampering\<close>

text \<open>
  A step of FNV-1a is injective in the hash, because the multiplier is odd (its inverse
  is 899433627), and in the byte. So two inputs of the same length that differ in one byte
  have different hashes.
\<close>

lemma fnv_multiplier: "(x :: u32) * 16777619 = y * 16777619 \<longleftrightarrow> x = y"
proof
  have "(16777619 * 899433627 :: u32) = 1" by simp
  then have inverse: "z * 16777619 * 899433627 = z" for z :: u32
    by (simp only: mult.assoc mult_1_right)
  assume "x * 16777619 = y * 16777619"
  then have "x * 16777619 * 899433627 = y * 16777619 * 899433627" by (rule arg_cong)
  then show "x = y" unfolding inverse .
qed (rule arg_cong)

lemma ucast_u8_inj: "(ucast (x :: u8) :: u32) = ucast y \<longleftrightarrow> x = y"
proof
  assume "(ucast x :: u32) = ucast y"
  then have "bit (ucast x :: u32) n = bit (ucast y :: u32) n" for n by simp
  then have "n < 32 \<and> bit x n \<longleftrightarrow> n < 32 \<and> bit y n" for n by (simp add: bit_simps)
  then show "x = y" by (intro bit_word_eqI) fastforce
qed simp

lemma fnv1a_hash_inj: "fnv1a h d = fnv1a h' d \<longleftrightarrow> h = h'"
  unfolding fnv1a_def
  by (induction d arbitrary: h h') (auto simp: fnv_multiplier xor_cancel)

lemma fnv1a_append: "fnv1a (fnv1a h a) b = fnv1a h (a @ b)"
  by (simp add: fnv1a_def)

lemma fnv1a_update:
  assumes "i < length d" "b \<noteq> d ! i"
  shows "fnv1a h (d[i := b]) \<noteq> fnv1a h d"
proof -
  define pre post where "pre = take i d" and "post = drop (Suc i) d"
  have d: "d = pre @ d ! i # post" "d[i := b] = pre @ b # post"
    using assms by (simp_all add: pre_def post_def id_take_nth_drop upd_conv_take_nth_drop)
  have step: "fnv1a g (x # xs) = fnv1a ((g XOR ucast x) * 16777619) xs" for g x xs
    by (simp add: fnv1a_def)
  show ?thesis
    using assms(2)
    by (subst d(1), subst d(2)) (simp add: fnv1a_append [symmetric] step fnv1a_hash_inj
        fnv_multiplier xor_cancel ucast_u8_inj)
qed

lemma make_tag_eq_message:
  assumes "make_tag k h c a = make_tag k h' c' a'"
  shows "fnv1a (2166136261 XOR ucast k) (h @ a @ c) = fnv1a (2166136261 XOR ucast k) (h' @ a' @ c')"
proof -
  have "make_tag k h c a = concat (map (write_u32_be \<circ> tag_lane k h c a) [0..<4])" for h c a
    by (simp add: make_tag_def write_u32_be_def comp_def Let_def)
  then have "write_u32_be (tag_lane k h c a 0) = write_u32_be (tag_lane k h' c' a' 0)"
    using assms by (simp add: upt_rec numeral_eq_Suc append_eq_append_conv)
  then show ?thesis by (simp add: write_u32_be_inj tag_lane_def fnv1a_append Let_def)
qed

lemma make_tag_header_byte:
  "i < length h \<Longrightarrow> b \<noteq> h ! i \<Longrightarrow> make_tag k (h[i := b]) c a \<noteq> make_tag k h c a"
  using fnv1a_update [of i "h @ a @ c" b] make_tag_eq_message
  by (fastforce simp: nth_append list_update_append)

lemma make_tag_aad_byte:
  "i < length a \<Longrightarrow> b \<noteq> a ! i \<Longrightarrow> make_tag k h c (a[i := b]) \<noteq> make_tag k h c a"
  using fnv1a_update [of "length h + i" "h @ a @ c" b] make_tag_eq_message
  by (fastforce simp: nth_append list_update_append)

lemma make_tag_ciphertext_byte:
  "i < length c \<Longrightarrow> b \<noteq> c ! i \<Longrightarrow> make_tag k h (c[i := b]) a \<noteq> make_tag k h c a"
  using fnv1a_update [of "length h + length a + i" "h @ a @ c" b] make_tag_eq_message
  by (fastforce simp: nth_append list_update_append)

section \<open>Properties\<close>

lemma initialize_session_fields [simp]:
  "sess_context (initialize_session t) = Some t" "sess_seal (initialize_session t) = Some test_seal"
  "sess_open (initialize_session t) = Some test_open"
  "sess_destroy (initialize_session t) = Some test_destroy"
  "sess_overhead (initialize_session t) = ADAPTIVE_SECURITY_OVERHEAD"
  by (simp_all add: initialize_session_def)

lemma test_pair_synced:
  assumes "adaptive_security_test_pair True True seed True True = Inr (client, server)"
    "n < 2 ^ 64"
  shows "test_synced n (sess_context client) (sess_context server)"
    "test_synced n (sess_context server) (sess_context client)"
  using assms by (auto simp: adaptive_security_test_pair_def zero_test_context_def test_synced_def Let_def)

text \<open>C10: Whatever list of messages one side of a freshly created test pair seals, in
  either direction, every record is produced, has the announced overhead, and is opened by
  the other side to exactly the plaintexts, in order.\<close>

theorem test_pair_delivers:
  assumes pair: "adaptive_security_test_pair True True seed True True = Inr (client, server)"
    and dir: "(c, s) = (sess_context client, sess_context server) \<or>
      (c, s) = (sess_context server, sess_context client)"
    and len: "length ms < 2 ^ 64"
    and cap: "\<forall>(p, a) \<in> set ms. length p + ADAPTIVE_SECURITY_OVERHEAD \<le> cap \<and> length p \<le> pcap"
  shows "\<exists>rs c' s'. send_all test_seal c ms cap = (map Inr rs, c') \<and>
    map length rs = map (\<lambda>(p, a). length p + 25) ms \<and>
    receive_all test_open s (zip rs (map snd ms)) pcap = (map (Inr \<circ> fst) ms, s')"
proof -
  have "test_synced (length ms) c s" using dir test_pair_synced [OF pair len] by auto
  moreover have "\<forall>(p, a) \<in> set ms. length p + ADAPTIVE_SECURITY_OVERHEAD \<le> cap \<and> True \<and> length p \<le> pcap"
    using cap by simp
  ultimately show ?thesis using test_layer.channel_delivers [of ms c s cap pcap]
    by (auto simp: security_constants)
qed

lemma test_pair_delivers_witness:
  "\<exists>client server rs c' s'.
    adaptive_security_test_pair True True 7 True True = Inr (client, server) \<and>
    send_all test_seal (sess_context client) [([1, 2], [9]), ([], [])] 40 = (map Inr rs, c') \<and>
    map length rs = [27, 25] \<and>
    receive_all test_open (sess_context server) (zip rs [[9], []]) 2 = ([Inr [1, 2], Inr []], s')"
proof -
  obtain client server where
    pair: "adaptive_security_test_pair True True 7 True True = Inr (client, server)"
    by (auto simp: adaptive_security_test_pair_def Let_def)
  show ?thesis
    using test_pair_delivers [OF pair disjI1 [OF refl], of "[([1, 2], [9]), ([], [])]" 40 2] pair
    by (fastforce simp: security_constants)
qed

text \<open>C11: A record the provider accepts is rejected once any single one of its bytes (version,
  sequence number, ciphertext or tag) or any single byte of the additional data is changed:
  \<open>ADAPTIVE_ERR_INTEGRITY\<close> for additional data, ciphertext and tag, and no rejected
  record changes the receiver's context.\<close>

theorem test_open_detects_byte:
  assumes ok: "test_open s r a cap = (Inr p, s')"
  shows "(\<forall>i < length r. \<forall>b. b \<noteq> r ! i \<longrightarrow>
      (\<exists>e. test_open s (r[i := b]) a cap = (Inl e, s) \<and> (9 \<le> i \<longrightarrow> e = ADAPTIVE_ERR_INTEGRITY)))
    \<and> (\<forall>j < length a. \<forall>b. b \<noteq> a ! j \<longrightarrow>
      test_open s r (a[j := b]) cap = (Inl ADAPTIVE_ERR_INTEGRITY, s))"
proof -
  obtain u where u: "s = Some u" "25 \<le> length r" "r ! 0 = 1"
      "\<not> (rx_initialized u \<and> read_u64_be (drop 1 r) \<le> rx_highest u)" "length r - 25 \<le> cap"
      "make_tag (rx_key u) (take 9 r) (take (length r - 25) (drop 9 r)) a = drop (length r - 16) r"
    using ok by (rule test_open_accepts) (auto simp: not_le)
  have "\<exists>e. test_open s (r[i := b]) a cap = (Inl e, s) \<and> (9 \<le> i \<longrightarrow> e = ADAPTIVE_ERR_INTEGRITY)"
    if i: "i < length r" "b \<noteq> r ! i" for i b
  proof -
    consider "i = 0" | "0 < i" "i < 9" | "9 \<le> i" "i < length r - 16" | "length r - 16 \<le> i" by linarith
    then show ?thesis
    proof cases
      case 1
      then show ?thesis using u i by (simp add: test_open_def security_constants)
    next
      case 2
      have "make_tag (rx_key u) (take 9 (r[i := b])) (take (length r - 25) (drop 9 (r[i := b]))) a
          \<noteq> drop (length r - 16) (r[i := b])"
        using make_tag_header_byte [of i "take 9 r" b] u(2) i 2
        by (simp add: take_update_swap u(6) [symmetric])
      then show ?thesis using u i 2 by (simp add: test_open_checked)
    next
      case 3
      have "make_tag (rx_key u) (take 9 (r[i := b])) (take (length r - 25) (drop 9 (r[i := b]))) a
          \<noteq> drop (length r - 16) (r[i := b])"
        using make_tag_ciphertext_byte [of "i - 9" "take (length r - 25) (drop 9 r)" b] u(2) i 3
        by (simp add: take_update_swap drop_update_swap list_update_beyond less_diff_conv2
            u(6) [symmetric])
      then show ?thesis using u i 3 by (simp add: test_open_checked read_u64_be_update)
    next
      case 4
      then have i9: "9 \<le> i" using u(2) by linarith
      have tail: "(drop (length r - 16) r)[i - (length r - 16) := b] \<noteq> drop (length r - 16) r"
        by (rule list_update_changes) (use u i 4 in auto)
      have "make_tag (rx_key u) (take 9 (r[i := b])) (take (length r - 25) (drop 9 (r[i := b]))) a
          \<noteq> drop (length r - 16) (r[i := b])"
        using u(2) i 4 tail [symmetric]
        by (simp add: drop_update_swap u(6) list_update_beyond)
      then show ?thesis using u i i9 by (simp add: test_open_checked read_u64_be_update)
    qed
  qed
  moreover have "test_open s r (a[j := b]) cap = (Inl ADAPTIVE_ERR_INTEGRITY, s)"
    if "j < length a" "b \<noteq> a ! j" for j b
    using u make_tag_aad_byte [OF that, of "rx_key u" "take 9 r" "take (length r - 25) (drop 9 r)"]
    by (simp add: test_open_checked)
  ultimately show ?thesis by blast
qed

definition example_record :: bytes where
  "example_record =
     [1, 0, 0, 0, 0, 0, 0, 0, 3, 109, 49, 124, 227, 196, 243, 49, 58, 251, 39, 159, 19, 226, 41, 64, 52, 173, 109]"

lemma example_record_opens:
  "test_open (Some (zero_test_context\<lparr>rx_key := 5\<rparr>)) example_record [9] 2 =
    (Inr [1, 2], Some (zero_test_context\<lparr>rx_key := 5, rx_highest := 3, rx_initialized := True\<rparr>))"
  by code_simp

lemma test_open_detects_byte_witness:
  "test_open (Some (zero_test_context\<lparr>rx_key := 5\<rparr>)) (example_record[10 := 48]) [9] 2
   = (Inl ADAPTIVE_ERR_INTEGRITY, Some (zero_test_context\<lparr>rx_key := 5\<rparr>))"
  using test_open_detects_byte [OF example_record_opens, THEN conjunct1, rule_format, of 10 48]
  by (simp add: example_record_def)

definition accepted_sequences :: "(bytes \<times> bytes) list \<Rightarrow> bytes outcome list \<Rightarrow> u64 list" where
  "accepted_sequences records results =
     map (\<lambda>((r, a), res). read_u64_be (drop 1 r))
       (filter (\<lambda>(ra, res). case res of Inl e \<Rightarrow> False | Inr p \<Rightarrow> True) (zip records results))"

lemma accepted_sequences_Cons:
  "accepted_sequences ((r, a) # ms) (x # xs) =
    (case x of Inl e \<Rightarrow> [] | Inr p \<Rightarrow> [read_u64_be (drop 1 r)]) @ accepted_sequences ms xs"
  by (simp add: accepted_sequences_def split: sum.split)

lemma accepted_above:
  "\<forall>n \<in> set (accepted_sequences ms (fst (receive_all test_open s ms cap))).
     case s of None \<Rightarrow> False | Some u \<Rightarrow> rx_initialized u \<longrightarrow> rx_highest u < n"
proof (induction ms arbitrary: s)
  case Nil
  then show ?case by (simp add: accepted_sequences_def)
next
  case (Cons m ms)
  obtain r a where m: "m = (r, a)" by (cases m)
  obtain x s' where o: "test_open s r a cap = (x, s')" by fastforce
  show ?case
  proof (cases x)
    case (Inl e)
    then have "s' = s" using o test_open_error_keeps by blast
    then show ?thesis using Cons.IH [of s] Inl o
      by (simp add: m accepted_sequences_Cons split: prod.split)
  next
    case (Inr p)
    with o have "test_open s r a cap = (Inr p, s')" by simp
    then show ?thesis
      using Cons.IH [of s'] Inr o
      by (elim test_open_accepts)
        (auto simp: m accepted_sequences_Cons split: prod.split intro: less_trans)
  qed
qed

text \<open>C12: Whatever records arrive, in whatever order and from whatever state, the sequence
  numbers of the accepted ones increase strictly: no record is accepted twice, and none older
  than an accepted one.\<close>

theorem test_receive_increasing:
  "sorted_wrt (<) (accepted_sequences ms (fst (receive_all test_open s ms cap)))"
proof (induction ms arbitrary: s)
  case Nil
  then show ?case by (simp add: accepted_sequences_def)
next
  case (Cons m ms)
  obtain r a where m: "m = (r, a)" by (cases m)
  obtain x s' where o: "test_open s r a cap = (x, s')" by fastforce
  have above: "\<forall>n \<in> set (accepted_sequences ms (fst (receive_all test_open s' ms cap))).
      read_u64_be (drop 1 r) < n" if "x = Inr p" for p
    using accepted_above [of ms s' cap] o that by (auto elim!: test_open_accepts)
  show ?case
    using Cons.IH [of s'] above o
    by (auto simp: m accepted_sequences_Cons split: prod.split sum.split)
qed

end
