(* ===== verification/Wavelet_Reconstruction.thy ===== *)
theory Wavelet_Reconstruction
  imports Wavelet
begin

text \<open>
  The transform over the real numbers: the inverse undoes the forward transform up to the
  deviation of the filter from an orthonormal one. For an orthonormal filter this is exact
  reconstruction; for the decimals of \<^verbatim>\<open>src/wavelet_db4.c\<close> the error of a whole
  transform of any valid size is below \<open>10^-9\<close> of the largest sample.
\<close>

section \<open>One level\<close>

text \<open>The filter coefficients as functions, for either sequence.\<close>

definition low_r :: "real list \<Rightarrow> nat \<Rightarrow> real" where
  "low_r low k = low ! k"

definition high_r :: "real list \<Rightarrow> nat \<Rightarrow> real" where
  "high_r low k = (if odd k then low ! (7 - k) else - (low ! (7 - k)))"

lemma db4_high_real [simp]: "db4_high real_arith low k = high_r low k"
  by (simp add: db4_high_def high_r_def real_arith_def and_one_eq odd_iff_mod_2_eq_one Let_def)

lemma foldl_pair_sum:
  "foldl (\<lambda>(l, h) k. (l + f k, h + g k)) (a, b) ks = (a + (\<Sum>k\<leftarrow>ks. f k :: real), b + (\<Sum>k\<leftarrow>ks. g k :: real))"
  by (induction ks arbitrary: a b) simp_all

lemma analyse_real:
  "analyse real_arith low v n i =
     (\<Sum>k<8. low_r low k * v ! ((2 * i + k) mod n), \<Sum>k<8. high_r low k * v ! ((2 * i + k) mod n))"
proof -
  have "analyse real_arith low v n i = foldl (\<lambda>(l, h) k.
      (l + low_r low k * v ! ((2 * i + k) mod n), h + high_r low k * v ! ((2 * i + k) mod n)))
      (0, 0) [0..<8]"
    unfolding analyse_def by (simp add: real_arith_def [symmetric] Let_def) (simp add: real_arith_def low_r_def)
  then show ?thesis
    unfolding foldl_pair_sum by (simp add: interv_sum_list_conv_sum_set_nat atLeast0LessThan)
qed

lemma forward_level_nth:
  assumes "i < n div 2"
  shows "forward_level real_arith low v n ! i = (\<Sum>k<8. low_r low k * v ! ((2 * i + k) mod n))"
    and "forward_level real_arith low v n ! (n div 2 + i) =
      (\<Sum>k<8. high_r low k * v ! ((2 * i + k) mod n))"
proof -
  have "ar_narrow real_arith = (\<lambda>x. x)" by (simp add: real_arith_def)
  then show "forward_level real_arith low v n ! i = (\<Sum>k<8. low_r low k * v ! ((2 * i + k) mod n))"
    "forward_level real_arith low v n ! (n div 2 + i) =
      (\<Sum>k<8. high_r low k * v ! ((2 * i + k) mod n))"
    using assms by (simp_all add: forward_level_def Let_def nth_append analyse_real)
qed

lemma forward_level_tail:
  assumes "even n" "n \<le> j" "j < length v"
  shows "forward_level ar low v n ! j = v ! j"
  using assms by (auto simp: forward_level_def Let_def nth_append elim!: evenE)

text \<open>The synthesis loops add to each position the terms that are aimed at it.\<close>

lemma foldl_scatter:
  assumes "\<And>k. k \<in> set ks \<Longrightarrow> f k < length s"
  shows "j < length s \<Longrightarrow> foldl (\<lambda>s k. s[f k := s ! f k + g k]) s ks ! j =
    s ! j + (\<Sum>k\<leftarrow>ks. if f k = j then g k else (0 :: real))"
  using assms by (induction ks arbitrary: s) (auto simp: nth_list_update)

definition term_r :: "real list \<Rightarrow> real list \<Rightarrow> nat \<Rightarrow> nat \<Rightarrow> nat \<Rightarrow> real" where
  "term_r low c h i k = low_r low k * c ! i + high_r low k * c ! (h + i)"

lemma synthesise_real:
  "synthesise real_arith low c h i =
     (\<lambda>s k. s[(2 * i + k) mod (h * 2) := s ! ((2 * i + k) mod (h * 2)) + term_r low c h i k])"
proof (intro ext)
  fix s k
  show "synthesise real_arith low c h i s k =
      s[(2 * i + k) mod (h * 2) := s ! ((2 * i + k) mod (h * 2)) + term_r low c h i k]"
    unfolding synthesise_def db4_high_real Let_def
    by (simp add: real_arith_def term_r_def low_r_def)
qed

lemma foldl_synthesise_nth:
  assumes "j < length s" "length s = h * 2"
  shows "foldl (synthesise real_arith low c h i) s [0..<8] ! j =
    s ! j + (\<Sum>k<8. if (2 * i + k) mod (h * 2) = j then term_r low c h i k else 0)"
  unfolding synthesise_real using assms
  by (subst foldl_scatter) (auto simp: interv_sum_list_conv_sum_set_nat atLeast0LessThan)

lemma foldl_rows_nth:
  assumes "j < length s" "length s = h * 2"
  shows "foldl (\<lambda>s i. foldl (synthesise real_arith low c h i) s [0..<8]) s is ! j =
    s ! j + (\<Sum>i\<leftarrow>is. \<Sum>k<8. if (2 * i + k) mod (h * 2) = j then term_r low c h i k else 0)"
  using assms
proof (induction "is" arbitrary: s)
  case (Cons i "is")
  then show ?case by (simp add: foldl_synthesise_nth length_foldl_same)
qed simp

lemma inverse_level_nth:
  assumes "j < h * 2"
  shows "inverse_level real_arith low c h ! j =
    (\<Sum>i<h. \<Sum>k<8. if (2 * i + k) mod (h * 2) = j then term_r low c h i k else 0)"
proof -
  have zero: "ar_fzero real_arith = 0" by (simp add: real_arith_def)
  show ?thesis
    using assms unfolding inverse_level_def Let_def zero
    by (simp add: nth_append length_foldl_same foldl_rows_nth
        interv_sum_list_conv_sum_set_nat atLeast0LessThan)
qed

lemma inverse_level_tail:
  "h * 2 \<le> j \<Longrightarrow> j < length c \<Longrightarrow> inverse_level ar low c h ! j = c ! j"
  by (simp add: inverse_level_def Let_def nth_append length_foldl_same)

section \<open>Exchanging the sums\<close>

lemma target_unique:
  fixes h i j k :: nat
  assumes "i < h" "j < h * 2" "k < 8" "8 \<le> h * 2"
  shows "(2 * i + k) mod (h * 2) = j \<longleftrightarrow> 2 * i = (j + (h * 2 - k)) mod (h * 2)"
proof
  assume "(2 * i + k) mod (h * 2) = j"
  then have "(j + (h * 2 - k)) mod (h * 2) = (2 * i + k + (h * 2 - k)) mod (h * 2)"
    by (metis mod_add_left_eq [of "2 * i + k" "h * 2" "h * 2 - k"])
  also have "\<dots> = 2 * i" using assms by simp
  finally show "2 * i = (j + (h * 2 - k)) mod (h * 2)" by simp
next
  assume "2 * i = (j + (h * 2 - k)) mod (h * 2)"
  then have "(2 * i + k) mod (h * 2) = (j + (h * 2 - k) + k) mod (h * 2)"
    by (metis mod_add_left_eq [of "j + (h * 2 - k)" "h * 2" k])
  also have "\<dots> = j" using assms by simp
  finally show "(2 * i + k) mod (h * 2) = j" .
qed

lemma pick_row:
  fixes h j k :: nat
  assumes "j < h * 2" "k < 8" "8 \<le> h * 2"
  shows "(\<Sum>i<h. if (2 * i + k) mod (h * 2) = j then F i else (0 :: real)) =
    (if even (j + k) then F ((j + (h * 2 - k)) mod (h * 2) div 2) else 0)"
proof -
  let ?t = "(j + (h * 2 - k)) mod (h * 2)"
  have par: "even ?t \<longleftrightarrow> even (j + k)"
    using assms by (simp add: dvd_mod_iff [of 2 "h * 2"] even_diff_nat)
  have lt: "?t div 2 < h" using assms by (simp add: div_less_iff_less_mult)
  have "(\<Sum>i<h. if (2 * i + k) mod (h * 2) = j then F i else 0) =
      (\<Sum>i<h. if 2 * i = ?t then F i else 0)"
    by (rule sum.cong) (use assms target_unique in auto)
  also have "\<dots> = (\<Sum>i<h. if i = ?t div 2 then (if even ?t then F i else 0) else 0)"
  proof (rule sum.cong)
    fix i
    have "2 * i = t \<longleftrightarrow> i = t div 2 \<and> even t" for t :: nat by auto
    from this [of ?t] show "(if 2 * i = ?t then F i else 0) = (if i = ?t div 2 then (if even ?t then F i else 0) else 0)"
      by simp
  qed simp
  also have "\<dots> = (if even ?t then F (?t div 2) else 0)" using lt by simp
  finally show ?thesis by (simp add: par)
qed

section \<open>Deviation from orthonormality\<close>

definition shift_sum :: "real list \<Rightarrow> nat \<Rightarrow> real" where
  "shift_sum low d = (\<Sum>k<8 - d. low ! k * low ! (k + d))"

definition filter_defect :: "real list \<Rightarrow> real" where
  "filter_defect low = \<bar>shift_sum low 0 - 1\<bar> +
     2 * (\<bar>shift_sum low 2\<bar> + \<bar>shift_sum low 4\<bar> + \<bar>shift_sum low 6\<bar>)"

lemma sum8: "(\<Sum>k<(8::nat). f k) = f 0 + f 1 + f 2 + f 3 + f 4 + f 5 + f 6 + (f 7 :: real)"
  by (simp add: numeral_eq_Suc)

lemma shift_sums:
  "shift_sum low 0 = low ! 0 * low ! 0 + low ! 1 * low ! 1 + low ! 2 * low ! 2 + low ! 3 * low ! 3 +
     low ! 4 * low ! 4 + low ! 5 * low ! 5 + low ! 6 * low ! 6 + low ! 7 * low ! 7"
  "shift_sum low 2 = low ! 0 * low ! 2 + low ! 1 * low ! 3 + low ! 2 * low ! 4 + low ! 3 * low ! 5 +
     low ! 4 * low ! 6 + low ! 5 * low ! 7"
  "shift_sum low 4 = low ! 0 * low ! 4 + low ! 1 * low ! 5 + low ! 2 * low ! 6 + low ! 3 * low ! 7"
  "shift_sum low 6 = low ! 0 * low ! 6 + low ! 1 * low ! 7"
  by (simp_all add: shift_sum_def numeral_eq_Suc)

lemma kernel_even:
  fixes X :: "nat \<Rightarrow> real"
  shows "(\<Sum>k<8. if even k then \<Sum>k'<8. (low_r low k * low_r low k' + high_r low k * high_r low k') *
      X (8 - k + k') else 0) =
    shift_sum low 0 * X 8 + shift_sum low 2 * (X 6 + X 10) + shift_sum low 4 * (X 4 + X 12) +
    shift_sum low 6 * (X 2 + X 14)"
  unfolding sum8 shift_sums low_r_def high_r_def
  by simp (simp add: algebra_simps numeral_2_eq_2 [symmetric])

lemma kernel_odd:
  fixes X :: "nat \<Rightarrow> real"
  shows "(\<Sum>k<8. if odd k then \<Sum>k'<8. (low_r low k * low_r low k' + high_r low k * high_r low k') *
      X (8 - k + k') else 0) =
    shift_sum low 0 * X 8 + shift_sum low 2 * (X 6 + X 10) + shift_sum low 4 * (X 4 + X 12) +
    shift_sum low 6 * (X 2 + X 14)"
  unfolding sum8 shift_sums low_r_def high_r_def
  by simp (simp add: algebra_simps numeral_2_eq_2 [symmetric])

lemma term_forward:
  assumes "i < h"
  shows "term_r low (forward_level real_arith low v (h * 2)) h i k =
    (\<Sum>k'<8. (low_r low k * low_r low k' + high_r low k * high_r low k') * v ! ((2 * i + k') mod (h * 2)))"
  using assms forward_level_nth [of i "h * 2" low v]
  by (simp add: term_r_def sum_distrib_left sum.distrib algebra_simps)

lemma recon_level_nth:
  fixes low v :: "real list" and h j :: nat
  assumes "j < h * 2" "8 \<le> h * 2"
  defines "X \<equiv> \<lambda>m. v ! ((j + (h * 2 - 8) + m) mod (h * 2))"
  shows "inverse_level real_arith low (forward_level real_arith low v (h * 2)) h ! j =
    shift_sum low 0 * X 8 + shift_sum low 2 * (X 6 + X 10) + shift_sum low 4 * (X 4 + X 12) +
    shift_sum low 6 * (X 2 + X 14)"
proof -
  let ?c = "forward_level real_arith low v (h * 2)"
  let ?G = "\<lambda>k. \<Sum>k'<8. (low_r low k * low_r low k' + high_r low k * high_r low k') * X (8 - k + k')"
  have row: "(\<Sum>i<h. if (2 * i + k) mod (h * 2) = j then term_r low ?c h i k else 0) =
      (if even (j + k) then ?G k else 0)" if k: "k < 8" for k
  proof -
    let ?t = "(j + (h * 2 - k)) mod (h * 2)"
    have half: "?t div 2 < h" using assms(1) by (simp add: div_less_iff_less_mult)
    have "(\<Sum>i<h. if (2 * i + k) mod (h * 2) = j then term_r low ?c h i k else 0) =
        (if even (j + k) then term_r low ?c h (?t div 2) k else 0)"
      by (rule pick_row) (use assms k in auto)
    moreover have "term_r low ?c h (?t div 2) k = ?G k" if "even (j + k)"
    proof -
      have ev: "even ?t"
        using that k assms(2) by (simp add: dvd_mod_iff [of 2 "h * 2"] even_diff_nat)
      have "(2 * (?t div 2) + k') mod (h * 2) = (j + (h * 2 - 8) + (8 - k + k')) mod (h * 2)" for k'
      proof -
        have "(?t + k') mod (h * 2) = (j + (h * 2 - k) + k') mod (h * 2)" by (simp add: mod_simps)
        also have "j + (h * 2 - k) + k' = j + (h * 2 - 8) + (8 - k + k')" using k assms(2) by simp
        finally show ?thesis using ev by simp
      qed
      then show ?thesis by (simp add: term_forward [OF half] X_def)
    qed
    ultimately show ?thesis by simp
  qed
  have "inverse_level real_arith low ?c h ! j =
      (\<Sum>k<8. \<Sum>i<h. if (2 * i + k) mod (h * 2) = j then term_r low ?c h i k else 0)"
    by (subst inverse_level_nth [OF assms(1)], rule sum.swap)
  also have "\<dots> = (\<Sum>k<8. if even (j + k) then ?G k else 0)"
    by (rule sum.cong) (use row in auto)
  also have "\<dots> = (if even j then (\<Sum>k<8. if even k then ?G k else 0)
      else (\<Sum>k<8. if odd k then ?G k else 0))"
    by simp
  finally show ?thesis by (simp only: kernel_even kernel_odd if_cancel)
qed

lemma recon_level_error:
  fixes low v :: "real list" and h j :: nat
  assumes "j < h * 2" "8 \<le> h * 2" and M: "\<And>i. i < h * 2 \<Longrightarrow> \<bar>v ! i\<bar> \<le> M"
  shows "\<bar>inverse_level real_arith low (forward_level real_arith low v (h * 2)) h ! j - v ! j\<bar>
    \<le> filter_defect low * M"
proof -
  define X where "X m = v ! ((j + (h * 2 - 8) + m) mod (h * 2))" for m
  have X: "\<bar>X m\<bar> \<le> M" for m unfolding X_def by (rule M) (use assms(2) in simp)
  have X8: "X 8 = v ! j" using assms by (simp add: X_def)
  have prod: "\<bar>s * x\<bar> \<le> \<bar>s\<bar> * m" if "\<bar>x\<bar> \<le> m" for s x m :: real
    using that by (simp add: abs_mult mult_left_mono)
  have pair: "\<bar>s * (X a + X b)\<bar> \<le> \<bar>s\<bar> * (2 * M)" for s a b
    by (rule prod) (use X [of a] X [of b] in linarith)
  have "inverse_level real_arith low (forward_level real_arith low v (h * 2)) h ! j =
      shift_sum low 0 * X 8 + shift_sum low 2 * (X 6 + X 10) + shift_sum low 4 * (X 4 + X 12) +
      shift_sum low 6 * (X 2 + X 14)"
    unfolding X_def by (rule recon_level_nth [OF assms(1,2)])
  then have "inverse_level real_arith low (forward_level real_arith low v (h * 2)) h ! j - v ! j =
      (shift_sum low 0 - 1) * X 8 + shift_sum low 2 * (X 6 + X 10) + shift_sum low 4 * (X 4 + X 12) +
      shift_sum low 6 * (X 2 + X 14)"
    by (simp add: X8 [symmetric] algebra_simps)
  moreover have defect: "filter_defect low * M = \<bar>shift_sum low 0 - 1\<bar> * M +
      \<bar>shift_sum low 2\<bar> * (2 * M) + \<bar>shift_sum low 4\<bar> * (2 * M) + \<bar>shift_sum low 6\<bar> * (2 * M)"
    by (simp add: filter_defect_def algebra_simps)
  ultimately show ?thesis
    using prod [OF X, of "shift_sum low 0 - 1" 8] pair [of "shift_sum low 2" 6 10]
      pair [of "shift_sum low 4" 4 12] pair [of "shift_sum low 6" 2 14]
    unfolding defect by linarith
qed

section \<open>Amplification\<close>

definition filter_gain :: "real list \<Rightarrow> real" where
  "filter_gain low = (\<Sum>k<8. \<bar>low ! k\<bar>)"

lemma filter_gain_nonneg: "0 \<le> filter_gain low"
  by (simp add: filter_gain_def sum_nonneg)

lemma filter_defect_nonneg: "0 \<le> filter_defect low"
  by (simp add: filter_defect_def)

lemma abs_sum_bound:
  fixes f g :: "nat \<Rightarrow> real"
  assumes "\<And>k. k \<in> A \<Longrightarrow> \<bar>g k\<bar> \<le> M"
  shows "\<bar>\<Sum>k\<in>A. f k * g k\<bar> \<le> (\<Sum>k\<in>A. \<bar>f k\<bar>) * M"
proof -
  have "\<bar>\<Sum>k\<in>A. f k * g k\<bar> \<le> (\<Sum>k\<in>A. \<bar>f k * g k\<bar>)" by (rule sum_abs)
  also have "\<dots> \<le> (\<Sum>k\<in>A. \<bar>f k\<bar> * M)"
    by (rule sum_mono) (simp add: abs_mult mult_left_mono assms)
  finally show ?thesis by (simp add: sum_distrib_right)
qed

lemma filter_gain_low: "(\<Sum>k<8. \<bar>low_r low k\<bar>) = filter_gain low"
  by (simp add: filter_gain_def low_r_def)

lemma filter_gain_high: "(\<Sum>k<8. \<bar>high_r low k\<bar>) = filter_gain low"
  unfolding filter_gain_def high_r_def sum8 by simp

lemma forward_level_bound:
  assumes "i < h * 2" and M: "\<And>i. i < h * 2 \<Longrightarrow> \<bar>v ! i\<bar> \<le> M"
  shows "\<bar>forward_level real_arith low v (h * 2) ! i\<bar> \<le> filter_gain low * M"
proof (cases "i < h")
  case True
  then have "forward_level real_arith low v (h * 2) ! i = (\<Sum>k<8. low_r low k * v ! ((2 * i + k) mod (h * 2)))"
    using forward_level_nth(1) [of i "h * 2" low v] by simp
  moreover have "\<bar>\<dots>\<bar> \<le> (\<Sum>k<8. \<bar>low_r low k\<bar>) * M"
    by (rule abs_sum_bound, rule M) (use assms(1) in simp)
  ultimately show ?thesis by (simp add: filter_gain_low)
next
  case False
  then obtain i' where i: "i = h + i'" "i' < h" using assms(1) by (metis add_less_cancel_left le_add_diff_inverse not_less mult_2_right)
  then have "forward_level real_arith low v (h * 2) ! i = (\<Sum>k<8. high_r low k * v ! ((2 * i' + k) mod (h * 2)))"
    using forward_level_nth(2) [of i' "h * 2" low v] by simp
  moreover have "\<bar>\<dots>\<bar> \<le> (\<Sum>k<8. \<bar>high_r low k\<bar>) * M"
    by (rule abs_sum_bound, rule M) (use assms(1) in simp)
  ultimately show ?thesis by (simp add: filter_gain_high)
qed

lemma gain_by_parity:
  "(\<Sum>k<8. if even (j + k) then \<bar>low_r low k\<bar> + \<bar>high_r low k\<bar> else 0) = filter_gain low" for j :: nat
  by (cases "even j") (simp_all add: filter_gain_def low_r_def high_r_def sum8)

lemma inverse_level_picked:
  assumes "j < h * 2" "8 \<le> h * 2"
  shows "inverse_level real_arith low c h ! j =
    (\<Sum>k<8. if even (j + k) then term_r low c h ((j + (h * 2 - k)) mod (h * 2) div 2) k else 0)"
proof -
  have "inverse_level real_arith low c h ! j =
      (\<Sum>k<8. \<Sum>i<h. if (2 * i + k) mod (h * 2) = j then term_r low c h i k else 0)"
    by (subst inverse_level_nth [OF assms(1)], rule sum.swap)
  also have "\<dots> = (\<Sum>k<8. if even (j + k) then term_r low c h ((j + (h * 2 - k)) mod (h * 2) div 2) k else 0)"
    by (rule sum.cong, rule refl, rule pick_row) (use assms in auto)
  finally show ?thesis .
qed

lemma inverse_level_lipschitz:
  assumes "j < h * 2" "8 \<le> h * 2" and D: "\<And>i. i < h * 2 \<Longrightarrow> \<bar>c ! i - c' ! i\<bar> \<le> D"
  shows "\<bar>inverse_level real_arith low c h ! j - inverse_level real_arith low c' h ! j\<bar> \<le> filter_gain low * D"
proof -
  have D0: "0 \<le> D" using D [of 0] assms(1) by force
  have t: "\<bar>term_r low c h i k - term_r low c' h i k\<bar> \<le> (\<bar>low_r low k\<bar> + \<bar>high_r low k\<bar>) * D"
    if i: "i < h" for i k
  proof -
    have "term_r low c h i k - term_r low c' h i k =
        low_r low k * (c ! i - c' ! i) + high_r low k * (c ! (h + i) - c' ! (h + i))"
      by (simp add: term_r_def algebra_simps)
    moreover have "\<bar>low_r low k * (c ! i - c' ! i)\<bar> \<le> \<bar>low_r low k\<bar> * D"
      "\<bar>high_r low k * (c ! (h + i) - c' ! (h + i))\<bar> \<le> \<bar>high_r low k\<bar> * D"
      using D [of i] D [of "h + i"] i by (simp_all add: abs_mult mult_left_mono)
    ultimately show ?thesis by (simp add: distrib_right)
  qed
  let ?i = "\<lambda>k. (j + (h * 2 - k)) mod (h * 2) div 2"
  have half: "?i k < h" for k using assms(1) by (simp add: div_less_iff_less_mult)
  have "inverse_level real_arith low c h ! j - inverse_level real_arith low c' h ! j =
      (\<Sum>k<8. if even (j + k) then term_r low c h (?i k) k - term_r low c' h (?i k) k else 0)"
    unfolding inverse_level_picked [OF assms(1,2)] sum_subtractf [symmetric] by (rule sum.cong) auto
  then have "\<bar>inverse_level real_arith low c h ! j - inverse_level real_arith low c' h ! j\<bar> \<le>
      (\<Sum>k<8. \<bar>if even (j + k) then term_r low c h (?i k) k - term_r low c' h (?i k) k else 0\<bar>)"
    by (simp only: sum_abs)
  also have "\<dots> \<le> (\<Sum>k<8. (if even (j + k) then \<bar>low_r low k\<bar> + \<bar>high_r low k\<bar> else 0) * D)"
    by (rule sum_mono) (use t [OF half] in simp)
  also have "\<dots> = filter_gain low * D"
    by (simp only: sum_distrib_right [symmetric] gain_by_parity)
  finally show ?thesis .
qed

section \<open>All levels\<close>

lemma forward_levels_tail:
  "2 ^ levels dvd n \<Longrightarrow> n \<le> j \<Longrightarrow> j < length v \<Longrightarrow> forward_levels ar low levels v n ! j = v ! j"
proof (induction levels arbitrary: v n)
  case (Suc levels)
  then obtain q where q: "n = 2 * (2 ^ levels * q)" by (auto simp: dvd_def mult.assoc)
  then have "even n" "2 ^ levels dvd n div 2" by simp_all
  then show ?case using Suc.IH [of "n div 2" "forward_level ar low v n"] Suc.prems
    by (simp add: length_forward_level forward_level_tail le_trans [OF div_le_dividend])
qed simp

lemma inverse_levels_tail:
  "cur * 2 ^ levels \<le> j \<Longrightarrow> j < length c \<Longrightarrow> cur * 2 ^ levels \<le> length c \<Longrightarrow>
   inverse_levels ar low levels c cur ! j = c ! j"
proof (induction levels arbitrary: c cur)
  case (Suc levels)
  have "cur * 2 \<le> cur * 2 ^ Suc levels" by simp
  then have "cur * 2 \<le> j" "cur * 2 \<le> length c" using Suc.prems by (meson le_trans)+
  then show ?case using Suc.IH [of "cur * 2" "inverse_level ar low c cur"] Suc.prems
    by (simp add: length_inverse_level inverse_level_tail mult.assoc)
qed simp

lemma inverse_levels_last:
  "inverse_levels ar low (Suc levels) c cur =
   inverse_level ar low (inverse_levels ar low levels c cur) (cur * 2 ^ levels)"
proof (induction levels arbitrary: c cur)
  case (Suc levels)
  have "inverse_levels ar low (Suc (Suc levels)) c cur =
      inverse_levels ar low (Suc levels) (inverse_level ar low c cur) (cur * 2)" by simp
  also have "\<dots> = inverse_level ar low (inverse_levels ar low (Suc levels) c cur) (cur * 2 * 2 ^ levels)"
    by (subst Suc.IH) simp
  finally show ?case by (simp add: mult.assoc)
qed simp

fun recon_error :: "real list \<Rightarrow> nat \<Rightarrow> real" where
  "recon_error low 0 = 0"
| "recon_error low (Suc levels) = filter_defect low + filter_gain low * filter_gain low * recon_error low levels"

lemma recon_error_nonneg: "0 \<le> recon_error low levels"
  by (induction levels) (simp_all add: filter_defect_nonneg filter_gain_nonneg)

lemma recon_levels:
  assumes "0 < levels \<Longrightarrow> 8 * 2 ^ (levels - 1) \<le> n" "2 ^ levels dvd n" "n \<le> length v"
    and "\<And>i. i < n \<Longrightarrow> \<bar>v ! i\<bar> \<le> M" and "j < n"
  shows "\<bar>inverse_levels real_arith low levels (forward_levels real_arith low levels v n) (n div 2 ^ levels) ! j
    - v ! j\<bar> \<le> recon_error low levels * M"
  using assms
proof (induction levels arbitrary: v n M j)
  case (Suc levels)
  note bound = \<open>\<And>i. i < n \<Longrightarrow> \<bar>v ! i\<bar> \<le> M\<close>
  obtain q where q: "n = 2 * (2 ^ levels * q)" using Suc.prems(2) by (auto simp: dvd_def mult.assoc)
  define h where "h = 2 ^ levels * q"
  have n: "n = h * 2" and ev: "even n" using q by (simp_all add: h_def)
  have h8: "8 \<le> h * 2" using Suc.prems(1) n by (metis diff_Suc_1 le_trans mult_le_mono2 one_le_power one_le_numeral nat_mult_1_right zero_less_Suc)
  define w where "w = forward_level real_arith low v n"
  have lw: "length w = length v" using Suc.prems(3) ev by (simp add: w_def length_forward_level)
  define u where "u = inverse_levels real_arith low levels (forward_levels real_arith low levels w h) q"
  have dv: "2 ^ levels dvd h" by (simp add: h_def)
  have hd: "h div 2 ^ levels = q" "n div 2 ^ Suc levels = q" by (simp_all add: h_def q)
  have hv: "h \<le> length w" using Suc.prems(3) n lw by simp
  have near: "\<bar>u ! i - w ! i\<bar> \<le> recon_error low levels * (filter_gain low * M)" if i: "i < h * 2" for i
  proof (cases "i < h")
    case True
    have "0 < levels \<Longrightarrow> 8 * 2 ^ (levels - 1) \<le> h"
      using Suc.prems(1) n by (cases levels) simp_all
    moreover have "\<bar>w ! i\<bar> \<le> filter_gain low * M" if "i < h" for i
      unfolding w_def n by (rule forward_level_bound) (use that bound n in auto)
    ultimately have "\<bar>inverse_levels real_arith low levels (forward_levels real_arith low levels w h)
        (h div 2 ^ levels) ! i - w ! i\<bar> \<le> recon_error low levels * (filter_gain low * M)"
      using Suc.IH [OF _ dv hv _ True] by blast
    then show ?thesis by (simp add: u_def hd)
  next
    case False
    have il: "i < length w" using i n lw Suc.prems(3) by simp
    have len: "length (forward_levels real_arith low levels w h) = length w"
      by (rule length_forward_levels [OF dv hv])
    have "u ! i = forward_levels real_arith low levels w h ! i"
      unfolding u_def
      by (rule inverse_levels_tail) (use False il len hv in \<open>simp_all add: h_def mult.commute\<close>)
    also have "\<dots> = w ! i" by (rule forward_levels_tail [OF dv _ il]) (use False in simp)
    finally have "u ! i = w ! i" .
    moreover have "0 \<le> M" using bound [of 0] n i by force
    ultimately show ?thesis by (simp add: recon_error_nonneg filter_gain_nonneg)
  qed
  have jn: "j < h * 2" using Suc.prems(5) n by simp
  have eq: "inverse_levels real_arith low (Suc levels) (forward_levels real_arith low (Suc levels) v n)
      (n div 2 ^ Suc levels) = inverse_level real_arith low u h"
    unfolding inverse_levels_last hd using n by (simp add: u_def w_def h_def mult.commute)
  have "\<bar>inverse_level real_arith low u h ! j - inverse_level real_arith low w h ! j\<bar>
      \<le> filter_gain low * (recon_error low levels * (filter_gain low * M))"
    by (rule inverse_level_lipschitz [OF jn h8 near])
  moreover have "\<bar>inverse_level real_arith low w h ! j - v ! j\<bar> \<le> filter_defect low * M"
    unfolding w_def n by (rule recon_level_error [OF jn h8]) (use bound n in simp)
  moreover have "recon_error low (Suc levels) * M =
      filter_defect low * M + filter_gain low * (recon_error low levels * (filter_gain low * M))"
    by (simp add: algebra_simps)
  ultimately show ?case unfolding eq by linarith
qed simp

section \<open>The program's filter\<close>

definition db4_low_exact :: "real list" where
  "db4_low_exact = map (\<lambda>n. of_int n / 10 ^ 18) db4_low_digits"

lemma db4_low_exact_facts:
  "filter_defect db4_low_exact \<le> 11 / 10 ^ 13" "filter_gain db4_low_exact \<le> 187 / 100"
proof -
  show "filter_defect db4_low_exact \<le> 11 / 10 ^ 13"
    unfolding filter_defect_def shift_sums db4_low_exact_def db4_low_digits_def by simp
  show "filter_gain db4_low_exact \<le> 187 / 100"
    unfolding filter_gain_def sum8 db4_low_exact_def db4_low_digits_def by simp
qed

lemma recon_error_mono: "recon_error low levels \<le> recon_error low (Suc levels)" if "1 \<le> filter_gain low"
proof -
  have "1 * recon_error low levels \<le> filter_gain low * filter_gain low * recon_error low levels"
    by (rule mult_right_mono) (use that in \<open>simp_all add: recon_error_nonneg mult_ge1_I\<close>)
  then show ?thesis using filter_defect_nonneg [of low] by simp
qed

lemma db4_recon_error: "levels \<le> 6 \<Longrightarrow> recon_error db4_low_exact levels \<le> 1 / 10 ^ 9"
proof -
  have sq: "filter_gain db4_low_exact * filter_gain db4_low_exact \<le> 35 / 10"
  proof -
    have "filter_gain db4_low_exact * filter_gain db4_low_exact \<le> 187 / 100 * (187 / 100)"
      by (rule mult_mono) (use db4_low_exact_facts filter_gain_nonneg in auto)
    then show ?thesis by simp
  qed
  define e where "e = (\<lambda>n :: nat. rec_nat (0 :: real) (\<lambda>_ x. 11 / 10 ^ 13 + 35 / 10 * x) n)"
  have e: "e 0 = 0" "e (Suc n) = 11 / 10 ^ 13 + 35 / 10 * e n" for n by (simp_all add: e_def)
  have below: "recon_error db4_low_exact n \<le> e n" for n
  proof (induction n)
    case (Suc n)
    have "filter_gain db4_low_exact * filter_gain db4_low_exact * recon_error db4_low_exact n \<le> 35 / 10 * e n"
      by (rule mult_mono) (use Suc sq recon_error_nonneg in auto)
    then show ?case using db4_low_exact_facts(1) by (simp add: e)
  qed (simp add: e)
  assume "levels \<le> 6"
  then have "levels \<in> {0, 1, 2, 3, 4, 5, 6}" by auto
  moreover have "e levels \<le> 1 / 10 ^ 9" using calculation by (auto simp: e numeral_eq_Suc)
  ultimately show ?thesis using below [of levels] by linarith
qed

section \<open>Properties\<close>

lemma transform_levels_le:
  assumes "validate_transform count levels sc = Inr u"
  shows "levels \<le> 6" "0 < levels" "8 * 2 ^ (levels - 1) \<le> count" "2 ^ levels dvd count"
proof -
  have v: "count \<le> 256" "0 < levels" "8 \<le> count div 2 ^ (levels - 1)" "2 ^ levels dvd count"
    using assms by (simp_all add: validate_transform_cases)
  from v(3) have le: "8 * 2 ^ (levels - 1) \<le> count"
    by (metis le_trans mult_le_mono1 div_times_less_eq_dividend)
  then have "(2 :: nat) ^ (levels - 1 + 3) \<le> 2 ^ 8" using v(1) by (simp add: power_add)
  then have "levels - 1 + 3 \<le> 8" by (simp only: power_increasing_iff)
  with le v show "levels \<le> 6" "0 < levels" "8 * 2 ^ (levels - 1) \<le> count" "2 ^ levels dvd count"
    by simp_all
qed

lemma real_reconstruction:
  assumes "db4_forward real_arith low (Some v) count levels True sc = Inr c"
    and "count \<le> length v" and "\<And>i. i < count \<Longrightarrow> \<bar>v ! i\<bar> \<le> M"
  shows "\<exists>w. db4_inverse real_arith low (Some c) count levels True sc = Inr w \<and> length w = length v \<and>
    (\<forall>j < count. \<bar>w ! j - v ! j\<bar> \<le> recon_error low levels * M) \<and>
    (\<forall>j. count \<le> j \<longrightarrow> j < length v \<longrightarrow> w ! j = v ! j)"
proof -
  obtain u where ok: "validate_transform count levels sc = Inr u"
    and c: "c = forward_levels real_arith low levels v count"
    using assms(1) by (auto simp: db4_forward_def outcome_bind_Inr)
  note t = transform_levels_le [OF ok]
  have len: "length c = length v" using t(4) assms(2) by (simp add: c length_forward_levels)
  have cur: "count div 2 ^ levels * 2 ^ levels = count" using t(4) by simp
  let ?w = "inverse_levels real_arith low levels c (count div 2 ^ levels)"
  have "db4_inverse real_arith low (Some c) count levels True sc = Inr ?w"
    by (simp add: db4_inverse_def ok drop_bit_eq_div)
  moreover have "length ?w = length v" using len cur assms(2) by (simp add: length_inverse_levels)
  moreover have "\<bar>?w ! j - v ! j\<bar> \<le> recon_error low levels * M" if "j < count" for j
    unfolding c by (rule recon_levels) (use t assms that in auto)
  moreover have "?w ! j = v ! j" if "count \<le> j" "j < length v" for j
  proof -
    have "?w ! j = c ! j" by (rule inverse_levels_tail) (use that len cur assms(2) in simp_all)
    also have "\<dots> = v ! j" unfolding c by (rule forward_levels_tail) (use t(4) that in simp_all)
    finally show ?thesis .
  qed
  ultimately show ?thesis by blast
qed

text \<open>
  C14: in exact arithmetic, whenever the forward transform with the program's filter
  accepts its arguments, the inverse transform accepts the result with the same count and
  levels and gives back every sample up to \<open>10^-9\<close> of the largest one; what lies behind
  the transformed samples is untouched.
\<close>

theorem wavelet_reconstructs:
  assumes "db4_forward real_arith db4_low_exact (Some v) count levels True sc = Inr c"
    and "count \<le> length v" and "\<forall>i < count. \<bar>v ! i\<bar> \<le> M"
  shows "\<exists>w. db4_inverse real_arith db4_low_exact (Some c) count levels True sc = Inr w \<and>
    length w = length v \<and> (\<forall>j < count. \<bar>w ! j - v ! j\<bar> \<le> M / 10 ^ 9) \<and>
    (\<forall>j. count \<le> j \<longrightarrow> j < length v \<longrightarrow> w ! j = v ! j)"
proof -
  obtain u where "validate_transform count levels sc = Inr u"
    using assms(1) by (auto simp: db4_forward_def outcome_bind_Inr)
  then have "levels \<le> 6" "0 < count"
    by (auto simp: transform_levels_le(1) validate_transform_cases)
  moreover have "0 \<le> M" using assms(3) calculation(2) by force
  ultimately have "recon_error db4_low_exact levels * M \<le> M / 10 ^ 9"
    using mult_right_mono [OF db4_recon_error [of levels], of M] by simp
  then have weaken: "x \<le> M / 10 ^ 9" if "x \<le> recon_error db4_low_exact levels * M" for x
    using that by linarith
  obtain w where "db4_inverse real_arith db4_low_exact (Some c) count levels True sc = Inr w"
      "length w = length v" "\<forall>j < count. \<bar>w ! j - v ! j\<bar> \<le> recon_error db4_low_exact levels * M"
      "\<forall>j. count \<le> j \<longrightarrow> j < length v \<longrightarrow> w ! j = v ! j"
    using real_reconstruction [OF assms(1,2), of M] assms(3) by blast
  then show ?thesis using weaken by blast
qed

theorem wavelet_reconstructs_witness:
  "\<exists>c w. db4_forward real_arith db4_low_exact (Some [1, 0, 3, 0, 0, -2, 0, 0, 7]) 8 1 True 8 = Inr c \<and>
    db4_inverse real_arith db4_low_exact (Some c) 8 1 True 8 = Inr w \<and> length w = 9 \<and>
    \<bar>w ! 2 - 3\<bar> \<le> 3 / 10 ^ 9 \<and> w ! 8 = 7"
proof -
  let ?v = "[1, 0, 3, 0, 0, -2, 0, 0, 7] :: real list"
  obtain c where c: "db4_forward real_arith db4_low_exact (Some ?v) 8 1 True 8 = Inr c"
    by (simp add: db4_forward_def validate_transform_def adaptive_bounds)
  have "\<forall>i < 8. \<bar>?v ! i\<bar> \<le> 3" by (simp add: All_less_Suc numeral_eq_Suc)
  from wavelet_reconstructs [OF c _ this] obtain w where
    w: "db4_inverse real_arith db4_low_exact (Some c) 8 1 True 8 = Inr w" "length w = 9"
      "\<forall>j < 8. \<bar>w ! j - ?v ! j\<bar> \<le> 3 / 10 ^ 9" "\<forall>j. 8 \<le> j \<longrightarrow> j < 9 \<longrightarrow> w ! j = ?v ! j"
    by auto
  show ?thesis
    using c w(1,2) w(3) [rule_format, of 2] w(4) [rule_format, of 8] by fastforce
qed



end
