(* ===== verification/Float_Reals.thy ===== *)
theory Float_Reals
  imports Floats
begin

text \<open>
  What the executable arithmetic of \<^verbatim>\<open>Floats\<close> means over the reals: \<open>rnd F x\<close> is the
  nearest value of the format, \<open>fval\<close> reads a finite value as a real number, and every
  operation on finite values returns a well-formed value that denotes the rounding of
  the exact result, or an infinity when that rounding exceeds the format.
\<close>

named_theorems fval_simps \<open>the real value of a finite operation's result\<close>

section \<open>Powers of two\<close>

abbreviation p2 :: "int \<Rightarrow> real" where "p2 k \<equiv> 2 powi k"

lemma p2_pos [simp]: "0 < p2 k"
  by simp

lemma p2_not_neg [simp]: "\<not> p2 k < 0" "\<not> p2 k \<le> 0"
  using p2_pos [of k] by linarith+

lemma p2_add: "p2 (a + b) = p2 a * p2 b"
  by (simp add: power_int_add)

lemma p2_diff: "p2 (a - b) = p2 a / p2 b"
  by (simp add: power_int_diff)

lemma p2_less [simp]: "p2 a < p2 b \<longleftrightarrow> a < b"
  by (metis linorder_not_less one_less_numeral_iff order_less_imp_le power_int_increasing
      power_int_strict_increasing semiring_norm(76))

lemma p2_le [simp]: "p2 a \<le> p2 b \<longleftrightarrow> a \<le> b"
  by (meson linorder_not_less p2_less)

lemma p2_nat: "0 \<le> k \<Longrightarrow> p2 k = 2 ^ nat k"
  by (metis int_nat_eq power_int_of_nat)

lemma p2_int: "p2 (int k) = 2 ^ k"
  by simp

lemma of_int_p2: "0 \<le> k \<Longrightarrow> of_int (2 ^ nat k) = p2 k"
  by (simp add: p2_nat)

definition flog :: "real \<Rightarrow> int" where
  "flog x = \<lfloor>log 2 x\<rfloor>"

lemma p2_powr: "p2 k = 2 powr (of_int k)"
  by (simp add: powr_real_of_int')

lemma flog_bounds: "0 < x \<Longrightarrow> p2 (flog x) \<le> x \<and> x < p2 (flog x + 1)"
proof -
  assume x: "0 < x"
  have "p2 (flog x) \<le> x"
    unfolding p2_powr flog_def by (subst le_log_iff [symmetric]) (use x in auto)
  moreover have "x < p2 (flog x + 1)"
    unfolding p2_powr flog_def by (subst log_less_iff [symmetric]) (use x in auto)
  ultimately show ?thesis by simp
qed

lemma flog_unique: "p2 k \<le> x \<Longrightarrow> x < p2 (k + 1) \<Longrightarrow> flog x = k"
proof -
  assume a: "p2 k \<le> x" and b: "x < p2 (k + 1)"
  have x: "0 < x" using a p2_pos [of k] by linarith
  have "p2 k < p2 (flog x + 1)" "p2 (flog x) < p2 (k + 1)"
    using flog_bounds [OF x] a b by linarith+
  then show ?thesis unfolding p2_less by simp
qed

lemma flog_mono: "0 < x \<Longrightarrow> x \<le> y \<Longrightarrow> flog x \<le> flog y"
proof -
  assume x: "0 < x" and xy: "x \<le> y"
  have "p2 (flog x) < p2 (flog y + 1)"
    using flog_bounds [OF x] flog_bounds [of y] x xy by linarith
  then show ?thesis unfolding p2_less by simp
qed

section \<open>Rounding to an integer\<close>

definition rhe :: "real \<Rightarrow> int" where
  "rhe x =
     (let q = \<lfloor>x\<rfloor>; r = x - of_int q
      in if r < 1 / 2 \<or> (r = 1 / 2 \<and> even q) then q else q + 1)"

lemma rhe_of_int [simp]: "rhe (of_int k) = k"
  by (simp add: rhe_def)

lemma rhe_zero [simp]: "rhe 0 = 0"
  using rhe_of_int [of 0] by simp

lemma rhe_power2 [simp]: "rhe (2 ^ n) = 2 ^ n"
  using rhe_of_int [of "2 ^ n"] by simp

lemma rhe_mono: "x \<le> y \<Longrightarrow> rhe x \<le> rhe y"
proof -
  assume xy: "x \<le> y"
  then have fl: "\<lfloor>x\<rfloor> \<le> \<lfloor>y\<rfloor>" by (rule floor_mono)
  show ?thesis
  proof (cases "\<lfloor>x\<rfloor> = \<lfloor>y\<rfloor>")
    case True
    with xy show ?thesis by (auto simp: rhe_def Let_def)
  next
    case False
    with fl have "\<lfloor>x\<rfloor> + 1 \<le> \<lfloor>y\<rfloor>" by simp
    moreover have "rhe x \<le> \<lfloor>x\<rfloor> + 1" "\<lfloor>y\<rfloor> \<le> rhe y"
      by (auto simp: rhe_def Let_def)
    ultimately show ?thesis by linarith
  qed
qed

lemma rhe_nonneg: "0 \<le> x \<Longrightarrow> 0 \<le> rhe x"
  using rhe_mono [of 0 x] by simp

lemma rhe_error: "\<bar>of_int (rhe x) - x\<bar> \<le> 1 / 2"
proof -
  have "of_int \<lfloor>x\<rfloor> \<le> x" "x < of_int \<lfloor>x\<rfloor> + 1" by linarith+
  then show ?thesis
    unfolding rhe_def Let_def by (cases "x - of_int \<lfloor>x\<rfloor> < 1 / 2") (auto simp: abs_if, linarith+)
qed

lemma round_half_even_rhe:
  assumes d: "0 < d"
  shows "round_half_even n d = rhe (of_int n / of_int d)"
proof -
  let ?q = "n div d" and ?r = "n mod d"
  have "real_of_int n = of_int d * of_int ?q + of_int ?r"
    by (metis mult_div_mod_eq of_int_add of_int_mult)
  then have frac: "real_of_int n / of_int d - of_int ?q = of_int ?r / of_int d"
    using d by (simp add: field_simps)
  have lt: "of_int ?r / real_of_int d < 1 / 2 \<longleftrightarrow> 2 * ?r < d"
  proof -
    have "of_int ?r / real_of_int d < 1 / 2 \<longleftrightarrow> real_of_int (2 * ?r) < of_int d"
      using d by (simp add: field_simps)
    then show ?thesis unfolding of_int_less_iff .
  qed
  have eq: "of_int ?r / real_of_int d = 1 / 2 \<longleftrightarrow> 2 * ?r = d"
  proof -
    have "of_int ?r / real_of_int d = 1 / 2 \<longleftrightarrow> real_of_int (2 * ?r) = of_int d"
      using d by (auto simp: field_simps)
    then show ?thesis unfolding of_int_eq_iff .
  qed
  show ?thesis
    unfolding round_half_even_def rhe_def Let_def floor_divide_of_int_eq frac lt eq by simp
qed

section \<open>Rounding to a format\<close>

definition valid_format :: "fpformat \<Rightarrow> bool" where
  "valid_format F \<longleftrightarrow> 2 \<le> prec F \<and> emin F \<le> emax F"

lemma valid_format_binary [simp]: "valid_format binary64" "valid_format binary32"
  by (simp_all add: valid_format_def binary64_def binary32_def)

text \<open>The exponent of the last significand bit a positive number is rounded to.\<close>

definition quant :: "fpformat \<Rightarrow> real \<Rightarrow> int" where
  "quant F x = max (emin F) (flog x - int (prec F) + 1)"

definition rnd_pos :: "fpformat \<Rightarrow> real \<Rightarrow> real" where
  "rnd_pos F x = (if x = 0 then 0 else of_int (rhe (x / p2 (quant F x))) * p2 (quant F x))"

definition rnd :: "fpformat \<Rightarrow> real \<Rightarrow> real" where
  "rnd F x = (if x < 0 then - rnd_pos F (- x) else rnd_pos F x)"

text \<open>The least magnitude that rounds to no finite value, once rounded.\<close>

definition overflow :: "fpformat \<Rightarrow> real" where
  "overflow F = p2 (emax F + int (prec F))"

lemma overflow_pos [simp]: "0 < overflow F"
  by (simp add: overflow_def)

lemma rnd_zero [simp]: "rnd F 0 = 0" "rnd_pos F 0 = 0"
  by (simp_all add: rnd_def rnd_pos_def)

lemma rnd_minus: "rnd F (- x) = - rnd F x"
  by (auto simp: rnd_def)

lemma rnd_eq_pos: "0 \<le> x \<Longrightarrow> rnd F x = rnd_pos F x"
  by (simp add: rnd_def)

lemma quant_mono: "0 < x \<Longrightarrow> x \<le> y \<Longrightarrow> quant F x \<le> quant F y"
  using flog_mono [of x y] by (simp add: quant_def)

lemma rnd_pos_nonneg: "0 \<le> x \<Longrightarrow> 0 \<le> rnd_pos F x"
  by (simp add: rnd_pos_def rhe_nonneg)

text \<open>A number rounds to at most the next power of two.\<close>

lemma scaled_less:
  assumes "0 < x" shows "x / p2 (quant F x) < 2 ^ prec F"
proof -
  have "flog x + 1 \<le> quant F x + int (prec F)" by (simp add: quant_def)
  then have "p2 (flog x + 1) \<le> p2 (quant F x) * 2 ^ prec F"
    by (metis p2_add p2_int p2_le)
  then have "x < p2 (quant F x) * 2 ^ prec F"
    using flog_bounds [OF assms] by linarith
  then show ?thesis by (simp add: field_simps)
qed

lemma rhe_scaled_le:
  assumes "0 < x" shows "rhe (x / p2 (quant F x)) \<le> 2 ^ prec F"
proof -
  have "rhe (x / p2 (quant F x)) \<le> rhe (of_int (2 ^ prec F))"
    using scaled_less [OF assms, of F] by (intro rhe_mono) simp
  then show ?thesis by simp
qed

lemma scaled_ge:
  assumes "0 < x" "valid_format F" "emin F < quant F x"
  shows "2 ^ (prec F - 1) \<le> x / p2 (quant F x)"
proof -
  have q: "quant F x = flog x - int (prec F) + 1" using assms(3) by (simp add: quant_def)
  have "int (prec F - 1) = int (prec F) - 1" using assms(2) by (simp add: valid_format_def)
  then have "p2 (flog x) = p2 (quant F x) * 2 ^ (prec F - 1)"
    by (simp add: q p2_int [symmetric] p2_add [symmetric])
  then have "p2 (quant F x) * 2 ^ (prec F - 1) \<le> x" using flog_bounds [OF assms(1)] by simp
  then show ?thesis by (simp add: field_simps)
qed

lemma rhe_scaled_ge:
  assumes "0 < x" "valid_format F" "emin F < quant F x"
  shows "2 ^ (prec F - 1) \<le> rhe (x / p2 (quant F x))"
proof -
  have "rhe (of_int (2 ^ (prec F - 1))) \<le> rhe (x / p2 (quant F x))"
    using scaled_ge [OF assms] by (intro rhe_mono) simp
  then show ?thesis by simp
qed

lemma rnd_pos_mono:
  assumes F: "valid_format F" and x: "0 \<le> x" and xy: "x \<le> y"
  shows "rnd_pos F x \<le> rnd_pos F y"
proof (cases "x = 0")
  case True
  then show ?thesis using rnd_pos_nonneg [of y F] x xy by simp
next
  case False
  with x have x0: "0 < x" by simp
  with xy have y0: "0 < y" by simp
  show ?thesis
  proof (cases "quant F x = quant F y")
    case True
    have "rhe (x / p2 (quant F y)) \<le> rhe (y / p2 (quant F y))"
      using xy by (intro rhe_mono) (simp add: divide_right_mono)
    then show ?thesis using x0 y0 by (simp add: rnd_pos_def True mult_right_mono)
  next
    case False
    with quant_mono [OF x0 xy, of F] have q: "quant F x + 1 \<le> quant F y" by simp
    then have "emin F < quant F y" by (simp add: quant_def)
    from rhe_scaled_ge [OF y0 F this]
    have "(2::real) ^ (prec F - 1) \<le> of_int (rhe (y / p2 (quant F y)))"
      by (metis of_int_le_iff of_int_numeral of_int_power)
    then have "2 ^ (prec F - 1) * p2 (quant F y) \<le> rnd_pos F y"
      using y0 by (simp add: rnd_pos_def mult_right_mono)
    moreover have "p2 (quant F x + int (prec F)) \<le> p2 (quant F y + int (prec F - 1))"
      using q F by (simp add: valid_format_def)
    then have "2 ^ prec F * p2 (quant F x) \<le> 2 ^ (prec F - 1) * p2 (quant F y)"
      unfolding p2_add by (simp add: mult.commute)
    moreover have "rnd_pos F x \<le> 2 ^ prec F * p2 (quant F x)"
    proof -
      have "real_of_int (rhe (x / p2 (quant F x))) \<le> 2 ^ prec F"
        using rhe_scaled_le [OF x0, of F] by (metis of_int_le_iff of_int_numeral of_int_power)
      then show ?thesis using x0 by (simp add: rnd_pos_def)
    qed
    ultimately show ?thesis by linarith
  qed
qed

lemma rnd_mono:
  assumes F: "valid_format F" and xy: "x \<le> y"
  shows "rnd F x \<le> rnd F y"
proof (cases "x < 0")
  case True
  show ?thesis
  proof (cases "y < 0")
    case True
    with \<open>x < 0\<close> show ?thesis using rnd_pos_mono [OF F, of "- y" "- x"] xy by (simp add: rnd_def)
  next
    case False
    with \<open>x < 0\<close> show ?thesis
      using rnd_pos_nonneg [of y F] rnd_pos_nonneg [of "- x" F] by (simp add: rnd_def)
  qed
next
  case False
  with xy show ?thesis using rnd_pos_mono [OF F, of x y] by (simp add: rnd_def)
qed

lemma rnd_nonneg: "0 \<le> x \<Longrightarrow> 0 \<le> rnd F x"
  by (simp add: rnd_eq_pos rnd_pos_nonneg)

lemma rnd_nonpos: "x \<le> 0 \<Longrightarrow> rnd F x \<le> 0"
  using rnd_nonneg [of "- x" F] by (simp add: rnd_minus)

lemma rnd_abs: "\<bar>rnd F x\<bar> = rnd F \<bar>x\<bar>"
  using rnd_nonneg [of x F] rnd_nonpos [of x F] by (cases "0 \<le> x") (auto simp: rnd_minus)

section \<open>Values of the format round to themselves\<close>

lemma rnd_representable_pos:
  assumes F: "valid_format F" and m: "0 \<le> m" "m < 2 ^ prec F" and e: "emin F \<le> e"
  shows "rnd_pos F (of_int m * p2 e) = of_int m * p2 e"
proof (cases "m = 0")
  case True
  then show ?thesis by simp
next
  case False
  with m have x0: "0 < real_of_int m * p2 e" by simp
  let ?x = "real_of_int m * p2 e" and ?q = "quant F (real_of_int m * p2 e)"
  have "real_of_int m < 2 ^ prec F" using m(2) by (metis of_int_less_iff of_int_numeral of_int_power)
  then have "?x < p2 (int (prec F) + e)" by (simp add: p2_add)
  then have "p2 (flog ?x) < p2 (int (prec F) + e)" using flog_bounds [OF x0] by linarith
  then have qe: "?q \<le> e" using e by (simp add: quant_def)
  then have "?x / p2 ?q = of_int (m * 2 ^ nat (e - ?q))"
    by (simp add: p2_diff p2_nat [symmetric])
  then have "rhe (?x / p2 ?q) = m * 2 ^ nat (e - ?q)" by (metis rhe_of_int)
  then have "rnd_pos F ?x = of_int (m * 2 ^ nat (e - ?q)) * p2 ?q"
    using x0 by (simp add: rnd_pos_def)
  also have "\<dots> = ?x" using qe by (simp add: p2_nat [symmetric] p2_add [symmetric])
  finally show ?thesis .
qed

lemma rnd_p2:
  assumes "valid_format F" "emin F \<le> e"
  shows "rnd F (p2 e) = p2 e"
proof -
  have "(1::int) < 2 ^ prec F" using assms(1) by (simp add: valid_format_def)
  from rnd_representable_pos [OF assms(1) _ this assms(2)] show ?thesis
    by (simp add: rnd_eq_pos)
qed

section \<open>The value of a finite float\<close>

fun fval :: "fp \<Rightarrow> real" where
  "fval (Fin s m e) = of_int (smant s m) * p2 e"
| "fval _ = 0"

fun wff :: "fpformat \<Rightarrow> fp \<Rightarrow> bool" where
  "wff F (Fin s m e) \<longleftrightarrow>
     0 \<le> m \<and> m < 2 ^ prec F \<and> emin F \<le> e \<and> e \<le> emax F \<and> (emin F < e \<longrightarrow> 2 ^ (prec F - 1) \<le> m)"
| "wff F _ = True"

abbreviation wfd :: "double \<Rightarrow> bool" where "wfd \<equiv> wff binary64"
abbreviation wfs :: "float32 \<Rightarrow> bool" where "wfs \<equiv> wff binary32"

lemma rnd_fval [simp]:
  assumes "valid_format F" "wff F x" shows "rnd F (fval x) = fval x"
proof (cases x)
  case (Fin s m e)
  with assms have "rnd_pos F (of_int m * p2 e) = of_int m * p2 e"
    by (intro rnd_representable_pos) auto
  with Fin assms(2) show ?thesis
    by (cases s) (simp_all add: rnd_minus smant_def rnd_eq_pos)
qed simp_all

lemma fval_less_overflow:
  assumes "wff F x" "valid_format F" shows "\<bar>fval x\<bar> < overflow F"
proof (cases x)
  case (Fin s m e)
  have "real_of_int m < 2 ^ prec F" "0 \<le> m" "p2 e \<le> p2 (emax F)"
    using assms(1) Fin by auto
  then have "real_of_int m * p2 e < 2 ^ prec F * p2 (emax F)"
    by (meson mult_less_le_imp_less of_int_0_le_iff p2_pos)
  then show ?thesis using Fin \<open>0 \<le> m\<close>
    by (cases s) (simp_all add: overflow_def p2_add smant_def mult.commute abs_mult)
qed simp_all

section \<open>The executable rounding computes \<open>rnd\<close>\<close>

lemma scaled_den_pos: "0 < d \<Longrightarrow> 0 < scaled_den d k"
  by (simp add: scaled_den_def)

lemma scaled_frac:
  assumes "0 < d"
  shows "real_of_int (scaled_num n k) / of_int (scaled_den d k) = of_int n / of_int d * p2 k"
proof (cases "0 \<le> k")
  case True
  then show ?thesis by (simp add: scaled_num_def scaled_den_def p2_nat)
next
  case False
  then have "p2 k = 1 / 2 ^ nat (- k)"
    by (metis linorder_not_le minus_minus nle_le neg_0_le_iff_le p2_nat power_int_minus_divide)
  with False show ?thesis by (simp add: scaled_num_def scaled_den_def)
qed

lemma bitlen_p2: "0 < n \<Longrightarrow> p2 (bitlen n - 1) \<le> of_int n \<and> of_int n < p2 (bitlen n)"
proof -
  assume n: "0 < n"
  then have b: "1 \<le> bitlen n" using bitlen_nonneg [of n] bitlen_eq_zero_iff [of n] by linarith
  from bitlen_bounds [OF n]
  have "real_of_int (2 ^ nat (bitlen n - 1)) \<le> of_int n" "of_int n < real_of_int (2 ^ nat (bitlen n))"
    unfolding of_int_le_iff of_int_less_iff by auto
  with b show ?thesis by (simp add: p2_nat)
qed

lemma frac_log_flog:
  assumes n: "0 < n" and d: "0 < d"
  shows "frac_log n d = flog (of_int n / of_int d)"
proof -
  define k where "k = bitlen n - bitlen d"
  let ?x = "real_of_int n / of_int d"
  have nb: "p2 (bitlen n - 1) \<le> of_int n" "of_int n < p2 (bitlen n)" using bitlen_p2 [OF n] by auto
  have db: "p2 (bitlen d - 1) \<le> of_int d" "of_int d < p2 (bitlen d)" using bitlen_p2 [OF d] by auto
  have "p2 (bitlen n - 1) / p2 (bitlen d) \<le> ?x" using nb db d n
    by (intro frac_le) auto
  then have lo: "p2 (k - 1) \<le> ?x" by (simp add: k_def p2_diff [symmetric] algebra_simps)
  have "?x < p2 (bitlen n) / p2 (bitlen d - 1)" using nb db d n
    by (intro frac_less) auto
  then have hi: "?x < p2 (k + 1)" by (simp add: k_def p2_diff [symmetric] algebra_simps)
  have "scaled_num n (- k) < scaled_den d (- k)
      \<longleftrightarrow> real_of_int (scaled_num n (- k)) / of_int (scaled_den d (- k)) < 1"
    using scaled_den_pos [OF d, of "- k"] by (simp add: field_simps)
  also have "\<dots> \<longleftrightarrow> ?x < p2 k"
    unfolding scaled_frac [OF d] power_int_minus using d by (simp add: divide_less_eq field_simps)
  finally have c: "scaled_num n (- k) < scaled_den d (- k) \<longleftrightarrow> ?x < p2 k" .
  show ?thesis
  proof (cases "?x < p2 k")
    case True
    then have "flog ?x = k - 1" using lo by (intro flog_unique) auto
    with True c show ?thesis by (simp add: frac_log_def k_def [symmetric])
  next
    case False
    then have "flog ?x = k" using hi by (intro flog_unique) auto
    with False c show ?thesis by (simp add: frac_log_def k_def [symmetric])
  qed
qed

lemma flog_scale: "0 < x \<Longrightarrow> flog (x * p2 e) = flog x + e"
  using flog_bounds [of x] by (intro flog_unique) (auto simp: p2_add)

definition in_range :: "fpformat \<Rightarrow> real \<Rightarrow> bool" where
  "in_range F x \<longleftrightarrow> \<bar>rnd F x\<bar> < overflow F"

lemma roundf_spec:
  assumes F: "valid_format F" and n: "0 \<le> n" and d: "0 < d"
    and x: "x = of_int n / of_int d * p2 e"
  shows "if in_range F x
         then \<exists>m q. roundf F s n d e = Fin s m q \<and> wff F (Fin s m q) \<and> of_int m * p2 q = rnd F x
         else roundf F s n d e = FInf s"
proof (cases "n = 0")
  case True
  with x F show ?thesis by (auto simp: roundf_def in_range_def valid_format_def)
next
  case False
  with n have n0: "0 < n" by simp
  with d x have x0: "0 < x" by simp
  define q where "q = quant F x"
  define m where "m = rhe (x / p2 q)"
  have q_eq: "max (emin F) (frac_log n d + e - int (prec F) + 1) = q"
  proof -
    have "flog x = flog (of_int n / of_int d) + e" unfolding x using n0 d by (intro flog_scale) simp
    then show ?thesis using n0 d by (simp add: q_def quant_def frac_log_flog algebra_simps)
  qed
  have m_eq: "round_half_even (scaled_num n (e - q)) (scaled_den d (e - q)) = m"
    using d by (simp add: m_def round_half_even_rhe scaled_den_pos scaled_frac x p2_diff)
  have rnd: "rnd F x = of_int m * p2 q"
    using x0 by (simp add: rnd_eq_pos rnd_pos_def m_def q_def)
  have m_le: "m \<le> 2 ^ prec F" and m0: "0 \<le> m"
    using rhe_scaled_le [OF x0, of F] x0 by (simp_all add: m_def q_def rhe_nonneg)
  have m_ge: "emin F < q \<Longrightarrow> 2 ^ (prec F - 1) \<le> m"
    using rhe_scaled_ge [OF x0 F] by (simp add: m_def q_def)
  have q_min: "emin F \<le> q" by (simp add: q_def quant_def)
  have P: "(2::int) ^ prec F = 2 * 2 ^ (prec F - 1)" "(2::real) ^ prec F = 2 * 2 ^ (prec F - 1)"
    using F by (simp_all add: valid_format_def power_Suc [symmetric] del: power_Suc)
  have rng: "in_range F x \<longleftrightarrow> of_int m * p2 q < overflow F"
    using m0 by (simp add: in_range_def rnd abs_mult)
  show ?thesis
  proof (cases "m = 2 ^ prec F")
    case True
    have r: "roundf F s n d e = (if emax F < q + 1 then FInf s else Fin s (2 ^ (prec F - 1)) (q + 1))"
      using False True by (simp add: roundf_def q_eq m_eq)
    have "of_int m * p2 q = p2 (int (prec F) + q)" using True by (simp add: p2_add)
    then have "in_range F x \<longleftrightarrow> q + 1 \<le> emax F" by (simp add: rng overflow_def) arith
    moreover have "of_int (2 ^ (prec F - 1)) * p2 (q + 1) = rnd F x"
      using True P by (simp add: rnd p2_add)
    moreover have "(2::int) ^ (prec F - 1) < 2 ^ prec F" using P by simp
    ultimately show ?thesis using q_min by (auto simp: r)
  next
    case ne: False
    have r: "roundf F s n d e = (if emax F < q then FInf s else Fin s m q)"
      using False ne by (simp add: roundf_def q_eq m_eq)
    have m_lt: "m < 2 ^ prec F" using m_le ne by simp
    then have mr: "real_of_int m < 2 ^ prec F" by simp
    have "in_range F x \<longleftrightarrow> q \<le> emax F"
    proof
      assume "q \<le> emax F"
      then have "of_int m * p2 q < 2 ^ prec F * p2 (emax F)"
        using mr m0 by (intro mult_less_le_imp_less) auto
      then show "in_range F x" by (simp add: rng overflow_def p2_add mult.commute)
    next
      assume i: "in_range F x"
      show "q \<le> emax F"
      proof (rule ccontr)
        assume "\<not> q \<le> emax F"
        then have "emin F < q" using F by (simp add: valid_format_def)
        from m_ge [OF this] have "(2::real) ^ (prec F - 1) \<le> of_int m"
          by (metis of_int_le_iff of_int_numeral of_int_power)
        moreover have "p2 (emax F + 1) \<le> p2 q" using \<open>\<not> q \<le> emax F\<close> by simp
        ultimately have "2 ^ (prec F - 1) * p2 (emax F + 1) \<le> of_int m * p2 q"
          using m0 by (intro mult_mono) auto
        with i show False by (simp add: rng overflow_def p2_add P mult_ac)
      qed
    qed
    then show ?thesis using q_min m0 m_lt m_ge by (auto simp: r rnd)
  qed
qed

lemma roundf_cases:
  assumes "valid_format F" "0 \<le> n" "0 < d" and x: "x = of_int n / of_int d * p2 e"
  obtains (fin) m q where "in_range F x" "roundf F s n d e = Fin s m q" "wff F (Fin s m q)"
      "of_int m * p2 q = rnd F x"
    | (inf) "\<not> in_range F x" "roundf F s n d e = FInf s"
  using roundf_spec [OF assms, of s] by (auto split: if_splits)

lemma in_range_minus [simp]: "in_range F (- x) = in_range F x"
  by (simp add: in_range_def rnd_minus)

text \<open>The three facts about a rounding the operations below inherit.\<close>

lemma roundf_facts:
  assumes "valid_format F" "0 \<le> n" "0 < d"
    and x: "x = (if s then -1 else 1) * (of_int n / of_int d * p2 e)"
  shows roundf_wff: "wff F (roundf F s n d e)"
    and roundf_finite: "fisfinite (roundf F s n d e) \<longleftrightarrow> in_range F x"
    and roundf_fval: "in_range F x \<Longrightarrow> fval (roundf F s n d e) = rnd F x"
    and roundf_inf: "\<not> in_range F x \<Longrightarrow> roundf F s n d e = FInf s"
proof -
  let ?y = "of_int n / of_int d * p2 e"
  have xy: "x = ?y \<or> x = - ?y" "s \<Longrightarrow> x = - ?y" "\<not> s \<Longrightarrow> x = ?y" using x by auto
  then have rng: "in_range F x = in_range F ?y" by auto
  show "wff F (roundf F s n d e)" "fisfinite (roundf F s n d e) \<longleftrightarrow> in_range F x"
    "\<not> in_range F x \<Longrightarrow> roundf F s n d e = FInf s"
    unfolding rng by (cases rule: roundf_cases [OF assms(1-3) refl, of e s]; simp)+
  show "fval (roundf F s n d e) = rnd F x" if "in_range F x"
    using that xy unfolding rng
    by (cases rule: roundf_cases [OF assms(1-3) refl, of e s]; cases s) (auto simp: smant_def rnd_minus)
qed

section \<open>Operations on finite values\<close>

lemma wff_mant_nonneg: "wff F (Fin s m e) \<Longrightarrow> 0 \<le> m"
  by simp

lemma smant_zero [simp]: "smant s 0 = 0" "smant s m = 0 \<longleftrightarrow> m = 0"
  by (simp_all add: smant_def)

lemma fval_smant: "fval (Fin s m e) = (if s then -1 else 1) * (of_int m * p2 e)"
  by (simp add: smant_def)

lemma smant_scale: "g \<le> e \<Longrightarrow> of_int (smant s m * 2 ^ nat (e - g)) * p2 g = fval (Fin s m e)"
  by (simp add: p2_nat [symmetric] p2_add [symmetric] power_int_add [symmetric])

lemma fneg_fval [simp]: "fval (fneg x) = - fval x"
  by (cases x) (auto simp: smant_def)

lemma fneg_finite [simp]: "fisfinite (fneg x) = fisfinite x"
  by (cases x) auto

lemma fneg_wff [simp]: "wff F (fneg x) = wff F x"
  by (cases x) auto

lemma fabs_finite [simp]: "fisfinite (fabs x) = fisfinite x"
  by (cases x) auto

lemma fabs_wff [simp]: "wff F (fabs x) = wff F x"
  by (cases x) auto

lemma fabs_fval: "wff F x \<Longrightarrow> fval (fabs x) = \<bar>fval x\<bar>"
  by (cases x) (auto simp: smant_def abs_mult)

lemma fcopysign_wff [simp]: "wff F x \<Longrightarrow> wff F (fcopysign x y)"
  by (simp add: fcopysign_def)

lemma fcmp_fval:
  "real_of_int (fcmp s m e t n f) * p2 (min e f) = fval (Fin s m e) - fval (Fin t n f)"
  unfolding fcmp_def Let_def of_int_diff left_diff_distrib
  by (simp only: smant_scale min.cobounded1 min.cobounded2)

lemma flt_fval: "fisfinite x \<Longrightarrow> fisfinite y \<Longrightarrow> flt x y \<longleftrightarrow> fval x < fval y"
proof (cases x; cases y)
  fix s m e t n f assume xy: "x = Fin s m e" "y = Fin t n f"
  have "fcmp s m e t n f < 0 \<longleftrightarrow> real_of_int (fcmp s m e t n f) * p2 (min e f) < 0"
    by (simp add: mult_less_0_iff not_less order.asym)
  then show ?thesis using xy unfolding fcmp_fval by simp
qed auto

lemma fle_fval: "fisfinite x \<Longrightarrow> fisfinite y \<Longrightarrow> fle x y \<longleftrightarrow> fval x \<le> fval y"
proof (cases x; cases y)
  fix s m e t n f assume xy: "x = Fin s m e" "y = Fin t n f"
  have "fcmp s m e t n f \<le> 0 \<longleftrightarrow> real_of_int (fcmp s m e t n f) * p2 (min e f) \<le> 0"
    by (simp add: mult_le_0_iff not_le order.asym)
  then show ?thesis using xy unfolding fcmp_fval by simp
qed auto

lemma roundf_zero: "roundf F s 0 d e = Fin s 0 (emin F)"
  by (simp add: roundf_def)

lemma fadd_facts:
  assumes F: "valid_format F" and x: "fisfinite x" and y: "fisfinite y"
  shows fadd_wff: "wff F (fadd F x y)"
    and fadd_finite: "fisfinite (fadd F x y) \<longleftrightarrow> in_range F (fval x + fval y)"
    and fadd_fval: "in_range F (fval x + fval y) \<Longrightarrow> fval (fadd F x y) = rnd F (fval x + fval y)"
    and fadd_inf: "\<not> in_range F (fval x + fval y) \<Longrightarrow> fadd F x y = FInf (fval x + fval y < 0)"
proof -
  obtain s m e t n f where xy: "x = Fin s m e" "y = Fin t n f"
    using x y by (cases x; cases y) auto
  define g where "g = min e f"
  define k where "k = smant s m * 2 ^ nat (e - g) + smant t n * 2 ^ nat (f - g)"
  have k: "fval x + fval y = of_int k * p2 g"
    by (simp only: xy k_def g_def of_int_add distrib_right smant_scale min.cobounded1 min.cobounded2)
  have r: "fadd F x y = (if k = 0 then Fin (s \<and> t) 0 (emin F) else roundf F (k < 0) \<bar>k\<bar> 1 g)"
    by (simp add: xy k_def g_def Let_def)
  have kk: "fval x + fval y = (if k < 0 then -1 else 1) * (of_int \<bar>k\<bar> / of_int 1 * p2 g)"
    by (simp add: k)
  note rf = roundf_facts [OF F abs_ge_zero zero_less_one kk]
  have neg: "fval x + fval y < 0 \<longleftrightarrow> k < 0"
    by (simp add: k mult_less_0_iff not_less order.asym)
  show "wff F (fadd F x y)" "fisfinite (fadd F x y) \<longleftrightarrow> in_range F (fval x + fval y)"
    "in_range F (fval x + fval y) \<Longrightarrow> fval (fadd F x y) = rnd F (fval x + fval y)"
    "\<not> in_range F (fval x + fval y) \<Longrightarrow> fadd F x y = FInf (fval x + fval y < 0)"
    unfolding neg using F rf by (auto simp: r k in_range_def valid_format_def)
qed

lemma fsub_facts:
  assumes F: "valid_format F" and x: "fisfinite x" and y: "fisfinite y"
  shows fsub_wff: "wff F (fsub F x y)"
    and fsub_finite: "fisfinite (fsub F x y) \<longleftrightarrow> in_range F (fval x - fval y)"
    and fsub_fval: "in_range F (fval x - fval y) \<Longrightarrow> fval (fsub F x y) = rnd F (fval x - fval y)"
    and fsub_inf: "\<not> in_range F (fval x - fval y) \<Longrightarrow> fsub F x y = FInf (fval x - fval y < 0)"
  using fadd_facts [OF F x, of "fneg y"] y by (simp_all add: fsub_def)

lemma fmul_facts:
  assumes F: "valid_format F" and x: "fisfinite x" "wff G x" and y: "fisfinite y" "wff G y"
  shows fmul_wff: "wff F (fmul F x y)"
    and fmul_finite: "fisfinite (fmul F x y) \<longleftrightarrow> in_range F (fval x * fval y)"
    and fmul_fval: "in_range F (fval x * fval y) \<Longrightarrow> fval (fmul F x y) = rnd F (fval x * fval y)"
proof -
  obtain s m e t n f where xy: "x = Fin s m e" "y = Fin t n f"
    using x y by (cases x; cases y) auto
  have mn: "0 \<le> m * n" using x y xy by simp
  have eq: "fval x * fval y = (if s \<noteq> t then -1 else 1) * (of_int (m * n) / of_int 1 * p2 (e + f))"
    unfolding xy fval_smant by (simp add: p2_add)
  show "wff F (fmul F x y)" "fisfinite (fmul F x y) \<longleftrightarrow> in_range F (fval x * fval y)"
    "in_range F (fval x * fval y) \<Longrightarrow> fval (fmul F x y) = rnd F (fval x * fval y)"
    using roundf_facts [OF F mn zero_less_one eq] by (simp_all add: xy)
qed

lemma fdiv_facts:
  assumes F: "valid_format F" and x: "fisfinite x" "wff G x"
    and y: "fisfinite y" "wff G y" "fval y \<noteq> 0"
  shows fdiv_wff: "wff F (fdiv F x y)"
    and fdiv_finite: "fisfinite (fdiv F x y) \<longleftrightarrow> in_range F (fval x / fval y)"
    and fdiv_fval: "in_range F (fval x / fval y) \<Longrightarrow> fval (fdiv F x y) = rnd F (fval x / fval y)"
proof -
  obtain s m e t n f where xy: "x = Fin s m e" "y = Fin t n f"
    using x y by (cases x; cases y) auto
  have m: "0 \<le> m" and n0: "0 \<le> n" using x y xy by simp_all
  have "n \<noteq> 0" using y(3) xy by auto
  with n0 have n: "0 < n" by simp
  have eq: "fval x / fval y = (if s \<noteq> t then -1 else 1) * (of_int m / of_int n * p2 (e - f))"
    unfolding xy fval_smant by (simp add: p2_diff)
  show "wff F (fdiv F x y)" "fisfinite (fdiv F x y) \<longleftrightarrow> in_range F (fval x / fval y)"
    "in_range F (fval x / fval y) \<Longrightarrow> fval (fdiv F x y) = rnd F (fval x / fval y)"
    using roundf_facts [OF F m n eq] n by (simp_all add: xy)
qed

lemma fcvt_facts:
  assumes F: "valid_format F" and x: "fisfinite x" "wff G x"
  shows fcvt_wff: "wff F (fcvt F x)"
    and fcvt_finite: "fisfinite (fcvt F x) \<longleftrightarrow> in_range F (fval x)"
    and fcvt_fval: "in_range F (fval x) \<Longrightarrow> fval (fcvt F x) = rnd F (fval x)"
proof -
  obtain s m e where xy: "x = Fin s m e" using x by (cases x) auto
  have m: "0 \<le> m" using x xy by simp
  have eq: "fval x = (if s then -1 else 1) * (of_int m / of_int 1 * p2 e)"
    unfolding xy fval_smant by simp
  show "wff F (fcvt F x)" "fisfinite (fcvt F x) \<longleftrightarrow> in_range F (fval x)"
    "in_range F (fval x) \<Longrightarrow> fval (fcvt F x) = rnd F (fval x)"
    using roundf_facts [OF F m zero_less_one eq] by (simp_all add: xy)
qed

lemma fof_int_facts:
  assumes F: "valid_format F"
  shows fof_int_wff: "wff F (fof_int F k)"
    and fof_int_finite: "fisfinite (fof_int F k) \<longleftrightarrow> in_range F (of_int k)"
    and fof_int_fval: "in_range F (of_int k) \<Longrightarrow> fval (fof_int F k) = rnd F (of_int k)"
proof -
  have eq: "real_of_int k = (if k < 0 then -1 else 1) * (of_int \<bar>k\<bar> / of_int 1 * p2 0)" by simp
  show "wff F (fof_int F k)" "fisfinite (fof_int F k) \<longleftrightarrow> in_range F (of_int k)"
    "in_range F (of_int k) \<Longrightarrow> fval (fof_int F k) = rnd F (of_int k)"
    using roundf_facts [OF F abs_ge_zero zero_less_one eq] by (simp_all add: fof_int_def)
qed

section \<open>Staying in range\<close>

lemma in_range_abs_mono:
  assumes F: "valid_format F" and xy: "\<bar>x\<bar> \<le> \<bar>y\<bar>" and y: "in_range F y"
  shows "in_range F x"
  using rnd_mono [OF F xy] y by (simp add: in_range_def rnd_abs)

lemma in_range_p2:
  assumes F: "valid_format F" and x: "\<bar>x\<bar> \<le> p2 k" and k: "emin F \<le> k" "k < emax F + int (prec F)"
  shows "in_range F x"
proof -
  have "rnd F \<bar>x\<bar> \<le> rnd F (p2 k)" by (rule rnd_mono [OF F x])
  also have "\<dots> = p2 k" by (rule rnd_p2 [OF F k(1)])
  also have "\<dots> < overflow F" using k(2) by (simp add: overflow_def)
  finally show ?thesis by (simp add: in_range_def rnd_abs)
qed

lemma in_range_fval: "valid_format F \<Longrightarrow> wff F x \<Longrightarrow> in_range F (fval x)"
  by (simp add: in_range_def fval_less_overflow)

section \<open>Promotion from float to double is exact\<close>

lemma wfs_double_value:
  assumes "wfs x" "fisfinite x"
  shows "rnd binary64 (fval x) = fval x" "in_range binary64 (fval x)"
proof -
  obtain s m e where x: "x = Fin s m e" "0 \<le> m" "m < 2 ^ 24" "-149 \<le> e" "e \<le> 104"
    using assms by (cases x) (auto simp: binary32_def)
  have "rnd_pos binary64 (of_int m * p2 e) = of_int m * p2 e"
    by (rule rnd_representable_pos [OF valid_format_binary(1)])
      (use x in \<open>simp_all add: binary64_def\<close>)
  then show eq: "rnd binary64 (fval x) = fval x"
    using x(2) by (simp add: x(1) smant_def rnd_minus rnd_eq_pos)
  have "\<bar>fval x\<bar> < overflow binary32" using fval_less_overflow [OF assms(1)] by simp
  also have "overflow binary32 \<le> p2 128" by (simp add: overflow_def binary32_def)
  finally show "in_range binary64 (fval x)"
    by (intro in_range_p2 [OF valid_format_binary(1), of _ 128]) (simp_all add: binary64_def)
qed

lemma to_double_facts:
  assumes "wfs x"
  shows to_double_wfd: "wfd (to_double x)"
    and to_double_finite: "fisfinite (to_double x) = fisfinite x"
    and to_double_fval: "fval (to_double x) = fval x"
proof -
  consider "fisfinite x" | "x = FNaN" | s where "x = FInf s" by (cases x) auto
  then show "wfd (to_double x)" "fisfinite (to_double x) = fisfinite x" "fval (to_double x) = fval x"
    using fcvt_facts [of binary64 x binary32] assms wfs_double_value [OF assms]
    by (cases; simp)+
qed

text \<open>The sign of a result follows the sign of the exact value.\<close>

lemma fcopysign_fval:
  assumes "wff F x" "wff G y" "fisfinite x"
  shows "fval (fcopysign x y) = (if fsignbit y then - \<bar>fval x\<bar> else \<bar>fval x\<bar>)"
  using assms by (cases x) (auto simp: fcopysign_def smant_def abs_mult)

lemma fcopysign_finite [simp]: "fisfinite (fcopysign x y) = fisfinite x"
  by (simp add: fcopysign_def)

lemma rnd_shrinks:
  assumes "valid_format F" "rnd F y = y" "0 \<le> x" "x \<le> y"
  shows "0 \<le> rnd F x" "rnd F x \<le> y"
  using rnd_mono [OF assms(1,4)] rnd_nonneg [OF assms(3)] assms(2) by simp_all

end
