(* ===== verification/Wavelet_Threshold.thy ===== *)
theory Wavelet_Threshold
  imports Wavelet Float_Reals
begin

text \<open>
  What the soft threshold and the noise estimate of \<^verbatim>\<open>src/wavelet_db4.c\<close> compute on
  the machine's floats.
\<close>

section \<open>The soft threshold\<close>

lemma soft_threshold_zero:
  assumes "wfs c" "fisfinite c" "fisfinite t" "\<bar>fval c\<bar> \<le> fval t"
  shows "soft_threshold t c = fzero"
  using assms to_double_facts [OF assms(1)]
  by (simp add: soft_threshold_def Let_def fle_fval fabs_fval)

lemma soft_threshold_large:
  assumes "wfs c" "fisfinite c" "fisfinite t" "0 \<le> fval t" "fval t < \<bar>fval c\<bar>"
  shows "wfs (soft_threshold t c)" "fisfinite (soft_threshold t c)"
    "fval (soft_threshold t c) = sgn (fval c) * rnd binary32 (rnd binary64 (\<bar>fval c\<bar> - fval t))"
    "rnd binary32 (rnd binary64 (\<bar>fval c\<bar> - fval t)) \<le> \<bar>fval c\<bar>"
proof -
  note td = to_double_facts [OF assms(1)]
  let ?m = "fabs (to_double c)" and ?x = "\<bar>fval c\<bar> - fval t"
  have m: "fisfinite ?m" "fval ?m = \<bar>fval c\<bar>" "wfd ?m" using td assms(2) by (simp_all add: fabs_fval)
  have rc: "rnd binary64 \<bar>fval c\<bar> = \<bar>fval c\<bar>" "rnd binary32 \<bar>fval c\<bar> = \<bar>fval c\<bar>"
    using wfs_double_value(1) [OF assms(1,2)] assms(1) rnd_fval [of binary32 c]
    by (simp_all flip: rnd_abs)
  have dx: "in_range binary64 ?x"
    by (rule in_range_abs_mono [OF _ _ wfs_double_value(2) [OF assms(1,2)]]) (use assms(4,5) in auto)
  have d: "wfd (dsub ?m t)" "fisfinite (dsub ?m t)" "fval (dsub ?m t) = rnd binary64 ?x"
    using fsub_facts [of binary64 ?m t] m assms(3) dx by simp_all
  have low: "0 \<le> rnd binary64 ?x" "rnd binary64 ?x \<le> \<bar>fval c\<bar>"
    by (rule rnd_shrinks [OF _ rc(1)]; use assms(4,5) in simp)+
  have r: "soft_threshold t c = to_float (fcopysign (dsub ?m t) (to_double c))"
    using assms m by (simp add: soft_threshold_def Let_def fle_fval)
  let ?y = "fcopysign (dsub ?m t) (to_double c)"
  have y: "wfd ?y" "fisfinite ?y" "\<bar>fval ?y\<bar> = rnd binary64 ?x"
    using d low(1) fcopysign_fval [OF d(1) td(1) d(2)] by auto
  have c0: "fval c \<noteq> 0" using assms(4,5) by auto
  have sb: "fsignbit (to_double c) \<longleftrightarrow> fval c < 0"
  proof -
    obtain s k e where k: "to_double c = Fin s k e" using td(2) assms(2) by (cases "to_double c") auto
    with td have "0 \<le> k" "fval c = of_int (smant s k) * p2 e" by (simp, metis fval.simps(1))
    moreover from this have "k \<noteq> 0" using c0 by auto
    ultimately show ?thesis using k by (auto simp: smant_def mult_less_0_iff)
  qed
  have yv: "fval ?y = sgn (fval c) * rnd binary64 ?x"
    using d low(1) fcopysign_fval [OF d(1) td(1) d(2)] c0 by (simp add: sb sgn_if)
  have yr: "in_range binary32 (fval ?y)"
    by (rule in_range_abs_mono [OF _ _ in_range_fval [OF _ assms(1)]]) (use y low in auto)
  show "wfs (soft_threshold t c)" "fisfinite (soft_threshold t c)"
    using fcvt_facts [of binary32 ?y binary64] y yr by (simp_all add: r)
  show "fval (soft_threshold t c) = sgn (fval c) * rnd binary32 (rnd binary64 ?x)"
    using fcvt_facts(3) [of binary32 ?y binary64] y yr yv c0 by (simp add: r sgn_if rnd_minus)
  show "rnd binary32 (rnd binary64 ?x) \<le> \<bar>fval c\<bar>"
    by (rule rnd_shrinks [OF _ rc(2) low]) simp
qed

lemma foldl_update_range:
  assumes "b \<le> length c"
  shows "length (foldl (\<lambda>c i. c[i := f (c ! i)]) c [a..<b]) = length c \<and>
    (\<forall>j < length c. foldl (\<lambda>c i. c[i := f (c ! i)]) c [a..<b] ! j =
      (if a \<le> j \<and> j < b then f (c ! j) else c ! j))"
  using assms
proof (induction b)
  case (Suc b)
  show ?case
  proof (cases "a \<le> b")
    case True
    with Suc show ?thesis by (auto simp: less_Suc_eq nth_list_update)
  qed auto
qed simp

text \<open>
  C16: the soft threshold leaves the approximation coefficients and the length alone; a
  detail coefficient not above the threshold becomes zero; every other one keeps its sign,
  is finite, loses the threshold from its magnitude (rounded first to double, then to
  float), and never grows.
\<close>

theorem soft_threshold_spec:
  assumes "count \<le> length c" "fisfinite t" "0 \<le> fval t" and fin: "\<forall>x \<in> set c. wfs x \<and> fisfinite x"
    and res: "adaptive_wavelet_soft_threshold (Some c) first_detail count t = Some r"
  shows "length r = length c \<and> (\<forall>j < length c. wfs (r ! j) \<and> fisfinite (r ! j) \<and>
    (if first_detail \<le> j \<and> j < count
     then fval (r ! j) = (if \<bar>fval (c ! j)\<bar> \<le> fval t then 0
       else sgn (fval (c ! j)) * rnd binary32 (rnd binary64 (\<bar>fval (c ! j)\<bar> - fval t))) \<and>
       \<bar>fval (r ! j)\<bar> \<le> \<bar>fval (c ! j)\<bar>
     else r ! j = c ! j))"
proof -
  have "\<not> flt t dzero" using assms(2,3) by (simp add: flt_fval smant_def)
  then have r: "r = foldl (\<lambda>c i. c[i := soft_threshold t (c ! i)]) c [first_detail..<count]"
    using res by (auto simp: adaptive_wavelet_soft_threshold_def split: if_splits)
  have elem: "wfs (soft_threshold t x) \<and> fisfinite (soft_threshold t x) \<and>
      fval (soft_threshold t x) = (if \<bar>fval x\<bar> \<le> fval t then 0
       else sgn (fval x) * rnd binary32 (rnd binary64 (\<bar>fval x\<bar> - fval t))) \<and>
      \<bar>fval (soft_threshold t x)\<bar> \<le> \<bar>fval x\<bar>" if "x \<in> set c" for x
  proof (cases "\<bar>fval x\<bar> \<le> fval t")
    case True
    then show ?thesis using soft_threshold_zero [of x t] fin that assms(2)
      by (simp add: binary32_def)
  next
    case False
    then have less: "fval t < \<bar>fval x\<bar>" by simp
    have "wfs x" "fisfinite x" using fin that by auto
    note large = soft_threshold_large [OF this assms(2,3) less]
    have "0 \<le> rnd binary32 (rnd binary64 (\<bar>fval x\<bar> - fval t))"
      using less by (intro rnd_nonneg) simp
    then show ?thesis using large False by (auto simp: abs_mult sgn_if)
  qed
  have upd: "length r = length c" "\<And>j. j < length c \<Longrightarrow>
      r ! j = (if first_detail \<le> j \<and> j < count then soft_threshold t (c ! j) else c ! j)"
    using foldl_update_range [OF assms(1), of "soft_threshold t" first_detail] by (simp_all add: r)
  show ?thesis
  proof (intro conjI allI impI)
    show "length r = length c" by (rule upd)
  next
    fix j assume j: "j < length c"
    then have "c ! j \<in> set c" by simp
    from elem [OF this] fin [rule_format, OF this] upd(2) [OF j]
    show "wfs (r ! j)" "fisfinite (r ! j)" by (simp_all split: if_splits)
    show "if first_detail \<le> j \<and> j < count
     then fval (r ! j) = (if \<bar>fval (c ! j)\<bar> \<le> fval t then 0
       else sgn (fval (c ! j)) * rnd binary32 (rnd binary64 (\<bar>fval (c ! j)\<bar> - fval t))) \<and>
       \<bar>fval (r ! j)\<bar> \<le> \<bar>fval (c ! j)\<bar>
     else r ! j = c ! j"
    proof (cases "first_detail \<le> j \<and> j < count")
      case True
      from elem [OF \<open>c ! j \<in> set c\<close>] show ?thesis unfolding upd(2) [OF j] if_P [OF True] by blast
    next
      case False
      show ?thesis unfolding upd(2) [OF j] if_not_P [OF False] ..
    qed
  qed
qed

theorem soft_threshold_spec_witness:
  "\<exists>r. adaptive_wavelet_soft_threshold (Some [Fin False (2 ^ 23) 0, Fin True (2 ^ 23) (-20)]) 1 2
      (Fin False (2 ^ 52) (-52)) = Some r \<and> length r = 2 \<and> r ! 0 = Fin False (2 ^ 23) 0 \<and>
    fval (r ! 1) = - rnd binary32 (rnd binary64 (8 - 1))"
proof -
  let ?c = "[Fin False (2 ^ 23) 0, Fin True (2 ^ 23) (-20)]" and ?t = "Fin False (2 ^ 52) (-52)"
  have fin: "\<forall>x \<in> set ?c. wfs x \<and> fisfinite x" by (simp add: binary32_def)
  have v: "fval (?c ! 1) = -8" "fval ?t = 1" by (simp_all add: smant_def power_int_def power_divide)
  have "\<not> flt ?t dzero" by (simp add: fcmp_def smant_def)
  then obtain r where r: "adaptive_wavelet_soft_threshold (Some ?c) 1 2 ?t = Some r"
    by (simp add: adaptive_wavelet_soft_threshold_def)
  have "length r = length ?c \<and> (\<forall>j < length ?c. wfs (r ! j) \<and> fisfinite (r ! j) \<and>
    (if 1 \<le> j \<and> j < 2
     then fval (r ! j) = (if \<bar>fval (?c ! j)\<bar> \<le> fval ?t then 0
       else sgn (fval (?c ! j)) * rnd binary32 (rnd binary64 (\<bar>fval (?c ! j)\<bar> - fval ?t))) \<and>
       \<bar>fval (r ! j)\<bar> \<le> \<bar>fval (?c ! j)\<bar>
     else r ! j = ?c ! j))"
    by (rule soft_threshold_spec [OF _ _ _ fin r]) (use v in simp_all)
  then have len: "length r = 2" and all: "\<And>j. j < 2 \<Longrightarrow> (if 1 \<le> j
     then fval (r ! j) = (if \<bar>fval (?c ! j)\<bar> \<le> fval ?t then 0
       else sgn (fval (?c ! j)) * rnd binary32 (rnd binary64 (\<bar>fval (?c ! j)\<bar> - fval ?t)))
     else r ! j = ?c ! j)" by auto
  show ?thesis using r len all [of 0] all [of 1] unfolding v by auto
qed

section \<open>The noise estimate\<close>

lemma compare_float_fval:
  "fisfinite a \<Longrightarrow> fisfinite b \<Longrightarrow> compare_float a b \<le> 0 \<longleftrightarrow> fval a \<le> fval b"
  by (auto simp: compare_float_def flt_fval)

lemma insert_float_set [simp]: "set (insert_float x ys) = insert x (set ys)"
  by (induction ys) auto

lemma length_insert_float [simp]: "length (insert_float x ys) = Suc (length ys)"
  by (induction ys) auto

lemma qsort_float_set: "set (qsort_float xs) = set xs"
  unfolding qsort_float_def by (induction xs) simp_all

lemma length_qsort_float [simp]: "length (qsort_float xs) = length xs"
  unfolding qsort_float_def by (induction xs) simp_all

lemma insert_float_sorted:
  assumes "\<forall>y \<in> insert x (set ys). fisfinite y" "sorted_wrt (\<lambda>a b. fval a \<le> fval b) ys"
  shows "sorted_wrt (\<lambda>a b. fval a \<le> fval b) (insert_float x ys)"
  using assms
proof (induction ys)
  case (Cons y ys)
  then show ?case using compare_float_fval [of x y] by fastforce
qed simp

lemma qsort_float_sorted:
  "\<forall>x \<in> set xs. fisfinite x \<Longrightarrow> sorted_wrt (\<lambda>a b. fval a \<le> fval b) (qsort_float xs)"
proof (induction xs)
  case (Cons x xs)
  then show ?case
    using insert_float_sorted [of x "qsort_float xs"] qsort_float_set [of xs]
    by (simp add: qsort_float_def)
qed (simp add: qsort_float_def)

text \<open>Non-negative values, infinity allowed.\<close>

definition nonneg_float :: "fp \<Rightarrow> bool" where
  "nonneg_float x \<longleftrightarrow> (\<exists>m e. x = Fin False m e \<and> 0 \<le> m) \<or> x = FInf False"

lemma nonneg_float_simps [simp]:
  "nonneg_float (Fin s m e) \<longleftrightarrow> \<not> s \<and> 0 \<le> m" "nonneg_float (FInf s) \<longleftrightarrow> \<not> s"
  "\<not> nonneg_float FNaN"
  by (auto simp: nonneg_float_def)

lemma nonneg_float_cases:
  assumes "nonneg_float x"
  obtains m e where "x = Fin False m e" "0 \<le> m" | "x = FInf False"
  using assms by (auto simp: nonneg_float_def)

lemma roundf_nonneg:
  assumes "valid_format F" "0 \<le> n" "0 < d" shows "nonneg_float (roundf F False n d e)"
  by (cases rule: roundf_cases [OF assms refl, of e False]) auto

lemma nonneg_fadd:
  assumes F: "valid_format F" and "nonneg_float x" "nonneg_float y"
  shows "nonneg_float (fadd F x y)"
proof -
  have fin: "nonneg_float (fadd F (Fin False m e) (Fin False n f))" if "0 \<le> m" "0 \<le> n" for m e n f
  proof -
    define k where "k = m * 2 ^ nat (e - min e f) + n * 2 ^ nat (f - min e f)"
    have "0 \<le> k" using that by (simp add: k_def)
    then show ?thesis
      using roundf_nonneg [OF F \<open>0 \<le> k\<close> zero_less_one]
      by (simp add: smant_def Let_def k_def [symmetric])
  qed
  from assms(2,3) fin show ?thesis
    by (elim nonneg_float_cases) (simp only: fin, simp+)
qed

lemma nonneg_fmul_pos:
  assumes "valid_format F" "nonneg_float y" "0 < m"
  shows "nonneg_float (fmul F (Fin False m e) y)"
  using assms(2)
proof (cases rule: nonneg_float_cases)
  case (1 n f)
  then show ?thesis using roundf_nonneg [OF assms(1), of "m * n" 1] assms(3) by simp
qed (use assms(3) in simp)

lemma nonneg_fdiv_pos:
  assumes "valid_format F" "nonneg_float x" "0 < n"
  shows "nonneg_float (fdiv F x (Fin False n f))"
  using assms(2)
proof (cases rule: nonneg_float_cases)
  case (1 m e)
  then show ?thesis using roundf_nonneg [OF assms(1), of m n] assms(3) by simp
qed (use assms(3) in simp)

lemma nonneg_fcvt:
  assumes "valid_format F" "nonneg_float x" shows "nonneg_float (fcvt F x)"
  using assms(2)
proof (cases rule: nonneg_float_cases)
  case (1 m e)
  then show ?thesis using roundf_nonneg [OF assms(1), of m 1] by simp
qed simp

lemma nonneg_fabs: "wff F x \<Longrightarrow> x \<noteq> FNaN \<Longrightarrow> nonneg_float (fabs x)"
  by (cases x) auto

lemma sigma_constants:
  "ddec 5 1 = Fin False 4503599627370496 (-53)"
  "ddec 6744897501960817 16 = Fin False 6075263575296585 (-53)"
  by code_simp+



end
