(* ===== verification/Wavelet_Sort.thy ===== *)
theory Wavelet_Sort
  imports Wavelet_Threshold "HOL-Library.Multiset"
begin

text \<open>
  The insertion sort that stands for \<open>qsort\<close> in \<^verbatim>\<open>src/wavelet_db4.c\<close> meets the
  contract of \<open>qsort\<close>: it permutes its input and, without NaN, orders it.
\<close>

lemma insert_float_mset [simp]: "mset (insert_float x ys) = add_mset x (mset ys)"
  by (induction ys) auto

lemma qsort_float_mset: "mset (qsort_float xs) = mset xs"
  unfolding qsort_float_def by (induction xs) simp_all

text \<open>
  Two finite single-precision values that are equal as numbers and not negative are the
  same value, so the sorted array of magnitudes is determined by the input: whatever
  algorithm the C library uses, it returns this one.
\<close>

theorem qsort_float_unique:
  assumes "\<forall>x \<in> set xs. fisfinite x" and "inj_on fval (set xs)"
    and "mset ys = mset xs" and "sorted_wrt (\<lambda>a b. fval a \<le> fval b) ys"
  shows "ys = qsort_float xs"
proof -
  have "sorted (map fval ys)" "sorted (map fval (qsort_float xs))"
    using assms(4) qsort_float_sorted [OF assms(1)] by (simp_all add: sorted_wrt_map)
  moreover have "mset (map fval ys) = mset (map fval (qsort_float xs))"
    using assms(3) qsort_float_mset [of xs] by simp
  ultimately have "map fval ys = map fval (qsort_float xs)"
    by (metis properties_for_sort)
  moreover have "set ys = set xs" using assms(3) by (metis set_mset_mset)
  ultimately show ?thesis
    using assms(2) by (metis map_inj_on qsort_float_set Un_absorb)
qed

end
