(* ===== verification/Config_Properties.thy ===== *)
theory Config_Properties
  imports Config Float_Reals Wavelet Coap
begin

text \<open>
  What the loader guarantees: the arrays keep their sizes and every number is finite, a
  file that loads passes the validation, and a validated configuration is one the wavelet
  transform, the quantiser and the CoAP block size accept.
\<close>

section \<open>The shape of a configuration\<close>

definition number :: "double \<Rightarrow> bool" where
  "number x \<longleftrightarrow> wfd x \<and> fisfinite x"

definition numbers :: "double list \<Rightarrow> bool" where
  "numbers xs \<longleftrightarrow> length xs = 5 \<and> (\<forall>x \<in> set xs. number x)"

definition matrix :: "double list list \<Rightarrow> bool" where
  "matrix m \<longleftrightarrow> length m = 5 \<and> (\<forall>r \<in> set m. numbers r)"

definition config_shape :: "adaptive_config \<Rightarrow> bool" where
  "config_shape c \<longleftrightarrow>
     number (baseline_alpha c) \<and> number (baseline_epsilon c) \<and> number (emission_alpha c) \<and>
     number (transition_forgetting c) \<and> number (transition_smoothing c) \<and>
     number (transition_prior_strength c) \<and> number (min_emission_variance c) \<and>
     recovery_hold c < 2 ^ 32 \<and> numbers (initial_probability c) \<and> matrix (transition_prior c) \<and>
     matrix (emission_mean c) \<and> matrix (emission_variance c) \<and> window_size c < 2 ^ 64 \<and>
     wavelet_levels c < 2 ^ 32 \<and> numbers (threshold_gain c) \<and>
     length (quant_bits c) = 5 \<and> (\<forall>q \<in> set (quant_bits c). q < 2 ^ 32) \<and>
     length (block_szx c) = 5 \<and> numbers (sampling_factor c) \<and> length (uri_path c) \<le> 63"

lemma number_zero [simp]: "number dzero"
  by (simp add: number_def binary64_def)

lemma numbers_update: "numbers xs \<Longrightarrow> number x \<Longrightarrow> numbers (xs[i := x])"
  by (auto simp: numbers_def dest!: subsetD [OF set_update_subset_insert])

lemma matrix_update: "matrix m \<Longrightarrow> i < 5 \<Longrightarrow> number x \<Longrightarrow> matrix (m[i := (m ! i)[j := x]])"
  by (auto simp: matrix_def intro!: numbers_update dest!: subsetD [OF set_update_subset_insert])

section \<open>Numbers of the file\<close>

lemma scaled_double_wfd:
  assumes "0 \<le> n" "0 < base" "scaled_double neg n base k = (x, r)" shows "wfd x"
proof -
  have "wfd (roundf binary64 neg num den 0)" if "0 \<le> num" "0 < den" for num den
    by (rule roundf_wff [OF valid_format_binary(1) that refl])
  then show ?thesis using assms by (auto simp: scaled_double_def Let_def)
qed

lemma strtod_wfd: "strtod txt = Some (x, rest, e) \<Longrightarrow> wfd x"
  by (auto simp: strtod_def Let_def split: prod.splits if_splits elim!: scaled_double_wfd [rotated 2])

lemma parse_double_number: "parse_double txt = Inr x \<Longrightarrow> number x"
  by (auto simp: parse_double_def number_def split: option.splits prod.splits if_splits
      dest: strtod_wfd)

lemma strtoul_bound: "strtoul txt = Some (n, rest, e) \<Longrightarrow> n < 2 ^ 64"
  by (auto simp: strtoul_def Let_def split: prod.splits if_splits)

lemma parse_unsigned_bound: "parse_unsigned txt = Inr n \<Longrightarrow> n < 2 ^ 64"
  by (auto simp: parse_unsigned_def split: option.splits prod.splits if_splits dest: strtoul_bound)

section \<open>The loader keeps the shape\<close>

text \<open>What every result of a setter satisfies, and the rules that follow the code.\<close>

definition stores :: "('a \<Rightarrow> bool) \<Rightarrow> 'a option outcome \<Rightarrow> bool" where
  "stores P r \<longleftrightarrow> (\<forall>x. r = Inr (Some x) \<longrightarrow> P x)"

named_theorems stores_intros \<open>rules for results of setters\<close>

lemma stores_basic [stores_intros]:
  "stores P (Inl e)" "stores P (Inr None)" "P x \<Longrightarrow> stores P (Inr (Some x))"
  "(b \<Longrightarrow> stores P r) \<Longrightarrow> (\<not> b \<Longrightarrow> stores P s) \<Longrightarrow> stores P (if b then r else s)"
  by (simp_all add: stores_def)

lemma stores_SET [stores_intros]:
  "(\<And>p. number p \<Longrightarrow> P (f p)) \<Longrightarrow> stores P (SET_DOUBLE v f)"
  "(\<And>p. p < 2 ^ 32 \<Longrightarrow> P (g p)) \<Longrightarrow> stores P (SET_UNSIGNED v g)"
  "(\<And>p. p < 2 ^ 64 \<Longrightarrow> P (h p)) \<Longrightarrow> stores P (outcome_bind (parse_unsigned v) (\<lambda>p. Inr (Some (h p))))"
  by (auto simp: stores_def SET_DOUBLE_def SET_UNSIGNED_def outcome_bind_Inr
      dest: parse_double_number parse_unsigned_bound)

lemma stores_or_else [stores_intros]:
  "stores (\<lambda>t. P (f t)) r \<Longrightarrow> stores P next_setter \<Longrightarrow> stores P (or_else r f next_setter)"
  by (auto simp: stores_def or_else_def split: sum.splits option.splits)

lemma stores_setters [stores_intros]:
  "(\<And>s x. number x \<Longrightarrow> P (t[state_num s := x])) \<Longrightarrow> stores P (set_state_value key p v t)"
  "(\<And>s x. x < 2 ^ 32 \<Longrightarrow> Q (u[state_num s := x])) \<Longrightarrow> stores Q (set_state_unsigned key p v u)"
  "(\<And>s x. R (w[state_num s := x])) \<Longrightarrow> stores R (set_state_u8 key p v w)"
  "(\<And>r c x. number x \<Longrightarrow> S (m[state_num r := (m ! state_num r)[state_num c := x]])) \<Longrightarrow>
     stores S (set_matrix_value key p v m)"
  "(\<And>r c x. number x \<Longrightarrow> T (m[state_num r := (m ! state_num r)[metric_num c := x]])) \<Longrightarrow>
     stores T (set_emission_value key p v m)"
  by (auto simp: stores_def set_state_value_def set_state_unsigned_def set_state_u8_def
      set_matrix_value_def set_emission_value_def
      split: if_splits sum.splits option.splits prod.splits dest: parse_double_number)

lemma apply_key_shape:
  assumes "config_shape c" shows "stores config_shape (apply_key c key v)"
  unfolding apply_key_def
  by (intro stores_intros)
    (use assms in \<open>auto simp: config_shape_def adaptive_bounds intro!: numbers_update matrix_update
      dest!: subsetD [OF set_update_subset_insert]\<close>)

lemma load_line_shape:
  assumes "config_shape c" "load_line c err n line = Inr c'" shows "config_shape c'"
  using assms(2) apply_key_shape [OF assms(1)] assms(1)
  by (auto simp: load_line_def stores_def Let_def split: if_splits sum.splits option.splits)

lemma load_lines_shape:
  "config_shape c \<Longrightarrow> load_lines c err n ls = (r, c') \<Longrightarrow> config_shape c'"
  by (induction c err n ls rule: load_lines.induct)
    (auto split: sum.splits dest: load_line_shape)

text \<open>The codes an error of a line can have.\<close>

lemma setter_errors:
  "set_state_value key p v t = Inl e \<Longrightarrow> e = ADAPTIVE_ERR_FORMAT"
  "set_state_unsigned key p v u = Inl e \<Longrightarrow> e = ADAPTIVE_ERR_FORMAT"
  "set_state_u8 key p v w = Inl e \<Longrightarrow> e = ADAPTIVE_ERR_FORMAT"
  "set_matrix_value key p v m = Inl e \<Longrightarrow> e = ADAPTIVE_ERR_FORMAT"
  "set_emission_value key p v m = Inl e \<Longrightarrow> e = ADAPTIVE_ERR_FORMAT"
  by (auto simp: set_state_value_def set_state_unsigned_def set_state_u8_def
      set_matrix_value_def set_emission_value_def
      split: if_splits sum.splits option.splits prod.splits)

lemma parse_errors:
  "parse_double v = Inl e \<Longrightarrow> e = ADAPTIVE_ERR_FORMAT"
  "parse_unsigned v = Inl e \<Longrightarrow> e = ADAPTIVE_ERR_FORMAT"
  by (auto simp: parse_double_def parse_unsigned_def split: option.splits prod.splits if_splits)

definition fails_with :: "adaptive_result set \<Rightarrow> 'a outcome \<Rightarrow> bool" where
  "fails_with E r \<longleftrightarrow> (\<forall>e. r = Inl e \<longrightarrow> e \<in> E)"

lemma fails_with_intros:
  "e \<in> E \<Longrightarrow> fails_with E (Inl e)" "fails_with E (Inr x)"
  "(b \<Longrightarrow> fails_with E r1) \<Longrightarrow> (\<not> b \<Longrightarrow> fails_with E r2) \<Longrightarrow> fails_with E (if b then r1 else r2)"
  "ADAPTIVE_ERR_FORMAT \<in> E \<Longrightarrow> fails_with E (SET_DOUBLE v f)"
  "ADAPTIVE_ERR_FORMAT \<in> E \<Longrightarrow> fails_with E (SET_UNSIGNED v g)"
  "ADAPTIVE_ERR_FORMAT \<in> E \<Longrightarrow> fails_with E (outcome_bind (parse_unsigned v) (\<lambda>p. Inr (h p)))"
  "fails_with E r \<Longrightarrow> fails_with E s \<Longrightarrow> fails_with E (or_else r st s)"
  "ADAPTIVE_ERR_FORMAT \<in> E \<Longrightarrow> fails_with E (set_state_value key p v t)"
  "ADAPTIVE_ERR_FORMAT \<in> E \<Longrightarrow> fails_with E (set_state_unsigned key p v u)"
  "ADAPTIVE_ERR_FORMAT \<in> E \<Longrightarrow> fails_with E (set_state_u8 key p v w)"
  "ADAPTIVE_ERR_FORMAT \<in> E \<Longrightarrow> fails_with E (set_matrix_value key p v m)"
  "ADAPTIVE_ERR_FORMAT \<in> E \<Longrightarrow> fails_with E (set_emission_value key p v m)"
  by (auto simp: fails_with_def SET_DOUBLE_def SET_UNSIGNED_def or_else_def
      split: sum.splits option.splits dest: setter_errors parse_errors elim!: outcome_bind.elims)

lemma apply_key_errors: "fails_with {ADAPTIVE_ERR_FORMAT, ADAPTIVE_ERR_RANGE} (apply_key c key v)"
  unfolding apply_key_def by (intro fails_with_intros) simp_all

lemma load_line_errors:
  "load_line c err n line = Inl (r, m) \<Longrightarrow> r \<in> {ADAPTIVE_ERR_FORMAT, ADAPTIVE_ERR_RANGE}"
  using apply_key_errors unfolding fails_with_def
  by (fastforce simp: load_line_def Let_def split: if_splits sum.splits option.splits)

lemma load_lines_errors:
  "load_lines c err n ls = (Some (r, m), c') \<Longrightarrow> r \<in> {ADAPTIVE_ERR_FORMAT, ADAPTIVE_ERR_RANGE}"
  by (induction c err n ls rule: load_lines.induct)
    (auto split: sum.splits dest: load_line_errors)

lemma validate_ok_message: "adaptive_config_validate (Some c) err = (ADAPTIVE_OK, m) \<Longrightarrow> m = None"
  by (auto simp: adaptive_config_validate_def split: if_splits sum.splits)

text \<open>
  C18: loading a file into a well-shaped configuration keeps it well shaped whatever the file
  contains (array sizes, finite numbers, bounds of the integers and of the path), also when
  it fails half way; it returns \<open>ADAPTIVE_OK\<close> only for a configuration that passes the
  validation and writes no message then; a failing line is reported as a format or range
  error.
\<close>

theorem config_load_sound:
  assumes "config_shape c" and "adaptive_config_load (Some c) path err file = (r, m, Some c')"
  shows "config_shape c' \<and>
    (r = ADAPTIVE_OK \<longrightarrow> adaptive_config_validate (Some c') err = (ADAPTIVE_OK, None) \<and> m = None) \<and>
    r \<in> {ADAPTIVE_OK, ADAPTIVE_ERR_ARGUMENT, ADAPTIVE_ERR_IO, ADAPTIVE_ERR_FORMAT, ADAPTIVE_ERR_RANGE}"
proof -
  have v: "adaptive_config_validate (Some c1) err = (r1, m1) \<Longrightarrow> r1 = ADAPTIVE_OK \<or> r1 = ADAPTIVE_ERR_RANGE"
    for c1 r1 m1
    by (auto simp: adaptive_config_validate_def split: if_splits sum.splits)
  show ?thesis
    using assms
    by (auto simp: adaptive_config_load_def split: option.splits prod.splits if_splits
        dest: load_lines_shape [OF assms(1)] load_lines_errors v validate_ok_message)
qed

section \<open>What a validated configuration is good for\<close>

lemma power_of_two_and: "(v :: nat) \<noteq> 0 \<Longrightarrow> v AND (v - 1) = 0 \<Longrightarrow> \<exists>k. v = 2 ^ k"
proof (induction v rule: less_induct)
  case (less v)
  show ?case
  proof (cases "even v")
    case True
    then obtain u where u: "v = 2 * u" by (rule evenE)
    then have "u \<noteq> 0" "u < v" using less.prems(1) by auto
    moreover have "v div 2 = u" "(v - 1) div 2 = u - 1" using u by auto
    then have "u AND (u - 1) = 0"
      using less.prems(2) and_rec [of v "v - 1"] by simp
    ultimately obtain k where "u = 2 ^ k" using less.IH by blast
    then show ?thesis using u by (intro exI [of _ "Suc k"]) simp
  next
    case False
    then obtain u where u: "v = 2 * u + 1" by (rule oddE)
    then have "u AND u = 0"
      using less.prems(2) and_rec [of v "v - 1"] by simp
    then have "v = 2 ^ 0" using u by simp
    then show ?thesis by blast
  qed
qed

lemma window_transformable:
  assumes "is_power_of_two w" "w \<le> 256" "0 < l" "l < 64" "8 \<le> drop_bit (l - 1) w"
  shows "validate_transform w l 256 = Inr ()"
proof -
  obtain k where k: "w = 2 ^ k" using assms(1) power_of_two_and by (auto simp: is_power_of_two_def)
  have d: "8 \<le> w div 2 ^ (l - 1)" using assms(5) by (simp add: drop_bit_eq_div)
  then have le: "8 * 2 ^ (l - 1) \<le> w"
    by (metis le_trans mult_le_mono1 div_times_less_eq_dividend)
  have "(2 :: nat) ^ l \<le> 8 * 2 ^ (l - 1)" by (cases l) simp_all
  then have "(2 :: nat) ^ l \<le> 2 ^ k" using le unfolding k by (rule le_trans)
  then have "l \<le> k" by (simp only: power_increasing_iff)
  then have "2 ^ l dvd w" unfolding k by (rule le_imp_power_dvd)
  moreover have "8 \<le> w" using le by (metis le_trans mult.right_neutral mult_le_mono2 one_le_power one_le_numeral)
  ultimately show ?thesis using assms d by (simp add: validate_transform_cases)
qed

lemma validate_states_all:
  "validate_states c states mass = Inl t \<Longrightarrow> \<forall>s \<in> set states. validate_state c s = None"
  by (induction c states mass rule: validate_states.induct) (auto split: option.splits)

lemma one_decimal: "fval (ddec 10 1) = 1" "fisfinite (ddec 10 1)"
proof -
  have "in_range binary64 1" by (rule in_range_p2 [of _ _ 0]) (simp_all add: binary64_def valid_format_def)
  moreover have "rnd binary64 1 = 1" using rnd_p2 [of binary64 0] by (simp add: binary64_def valid_format_def)
  ultimately show "fval (ddec 10 1) = 1" "fisfinite (ddec 10 1)"
    using roundf_fval [OF valid_format_binary(1), of 10 "10 ^ 1" 1 False 0]
      roundf_finite [OF valid_format_binary(1), of 10 "10 ^ 1" 1 False 0]
    by (simp_all add: ddec_def)
qed

lemma coap_block_size_cases:
  "z \<le> 6 \<Longrightarrow> adaptive_coap_block_size z \<in> {16, 32, 64, 128, 256, 512, 1024}"
proof -
  assume "z \<le> 6"
  then have "unat z \<le> 6" by (simp add: word_le_nat_alt)
  then have "unat z \<in> {0, 1, 2, 3, 4, 5, 6}" by auto
  with \<open>z \<le> 6\<close> show ?thesis
    by (auto simp: adaptive_coap_block_size_def push_bit_eq_mult not_less [symmetric])
qed

lemma number_nth: "numbers xs \<Longrightarrow> i < 5 \<Longrightarrow> fisfinite (xs ! i)"
  by (auto simp: numbers_def number_def)

lemma validated_facts:
  assumes shape: "config_shape c" and ok: "adaptive_config_validate (Some c) err = (ADAPTIVE_OK, m)"
  shows "validate_transform (window_size c) (wavelet_levels c) ADAPTIVE_MAX_WINDOW = Inr () \<and>
    (\<forall>s < 5. block_szx c ! s \<le> 6 \<and> 2 \<le> quant_bits c ! s \<and> quant_bits c ! s \<le> 15 \<and>
      adaptive_coap_block_size (block_szx c ! s) \<in> {16, 32, 64, 128, 256, 512, 1024} \<and>
      0 \<le> fval (threshold_gain c ! s) \<and>
      0 < fval (sampling_factor c ! s) \<and> fval (sampling_factor c ! s) \<le> 1 \<and>
      (\<forall>k < 5. 0 < fval (emission_variance c ! s ! k))) \<and>
    0 < fval (baseline_alpha c) \<and> fval (baseline_alpha c) < 1 \<and>
    0 < fval (emission_alpha c) \<and> fval (emission_alpha c) < 1 \<and>
    0 < fval (min_emission_variance c) \<and> uri_path c \<noteq> []"
proof -
  note sh = shape [unfolded config_shape_def number_def]
  obtain t where learning: "\<not> fle (baseline_alpha c) dzero" "\<not> fle (ddec 10 1) (baseline_alpha c)"
      "\<not> fle (emission_alpha c) dzero" "\<not> fle (ddec 10 1) (emission_alpha c)"
      "\<not> fle (min_emission_variance c) dzero"
    and wavelet: "is_power_of_two (window_size c)" "window_size c \<le> 256" "0 < wavelet_levels c"
      "wavelet_levels c < 64" "8 \<le> drop_bit (wavelet_levels c - 1) (window_size c)"
    and uri: "uri_path c \<noteq> []"
    and states: "validate_states c [0..<5] dzero = Inl t"
    using ok by (auto simp: adaptive_config_validate_def adaptive_bounds not_less not_le split: if_splits sum.splits)
  have zero: "fval dzero = 0" by (simp add: smant_def)
  have state: "block_szx c ! s \<le> 6 \<and> 2 \<le> quant_bits c ! s \<and> quant_bits c ! s \<le> 15 \<and>
      adaptive_coap_block_size (block_szx c ! s) \<in> {16, 32, 64, 128, 256, 512, 1024} \<and>
      0 \<le> fval (threshold_gain c ! s) \<and>
      0 < fval (sampling_factor c ! s) \<and> fval (sampling_factor c ! s) \<le> 1 \<and>
      (\<forall>k < 5. 0 < fval (emission_variance c ! s ! k))" if s: "s < 5" for s
  proof -
    have "validate_state c s = None" using validate_states_all [OF states] s by simp
    then have pol: "\<not> flt (threshold_gain c ! s) dzero" "2 \<le> quant_bits c ! s" "quant_bits c ! s \<le> 15"
        "block_szx c ! s \<le> 6" "\<not> fle (sampling_factor c ! s) dzero"
        "\<not> flt (ddec 10 1) (sampling_factor c ! s)"
      and var: "\<forall>k < 5. \<not> fle (emission_variance c ! s ! k) dzero"
      by (auto simp: validate_state_def adaptive_bounds not_less split: if_splits)
    have fin: "fisfinite (threshold_gain c ! s)" "fisfinite (sampling_factor c ! s)"
      "\<forall>k < 5. fisfinite (emission_variance c ! s ! k)"
      using sh s by (auto simp: matrix_def intro!: number_nth)
    show ?thesis
      using pol var fin coap_block_size_cases [OF pol(4)] one_decimal
      by (auto simp: flt_fval fle_fval zero not_less not_le simp del: fval.simps)
  qed
  show ?thesis
    using state window_transformable [OF wavelet] learning sh one_decimal uri
    by (auto simp: flt_fval fle_fval zero not_less not_le adaptive_bounds simp del: fval.simps)
qed

text \<open>
  C19: a configuration that passes the validation is accepted by everything that uses it:
  both wavelet transforms take its window and levels, every state has a quantiser width
  between 2 and 15 bits, a CoAP block of 16 to 1024 bytes, a threshold gain that is not
  negative and a sampling factor in (0, 1]; the learning rates lie in (0, 1) and every
  emission variance is positive.
\<close>

theorem validated_config_usable:
  assumes shape: "config_shape c" and ok: "adaptive_config_validate (Some c) err = (ADAPTIVE_OK, m)"
  shows "validate_transform (window_size c) (wavelet_levels c) ADAPTIVE_MAX_WINDOW = Inr () \<and>
    (\<forall>s < 5. 2 \<le> quant_bits c ! s \<and> quant_bits c ! s \<le> 15 \<and>
      adaptive_coap_block_size (block_szx c ! s) \<in> {16, 32, 64, 128, 256, 512, 1024} \<and>
      0 \<le> fval (threshold_gain c ! s) \<and>
      0 < fval (sampling_factor c ! s) \<and> fval (sampling_factor c ! s) \<le> 1 \<and>
      (\<forall>k < 5. 0 < fval (emission_variance c ! s ! k))) \<and>
    0 < fval (baseline_alpha c) \<and> fval (baseline_alpha c) < 1 \<and>
    0 < fval (emission_alpha c) \<and> fval (emission_alpha c) < 1 \<and>
    0 < fval (min_emission_variance c) \<and> uri_path c \<noteq> []"
  using validated_facts [OF assms] by blast

end
