(* ===== verification/Config_Defaults.thy ===== *)
theory Config_Defaults
  imports Config_Properties
begin

text \<open>
  The default configuration of \<^verbatim>\<open>src/config.c\<close> is well shaped and passes the
  program's own validation; and what is written for a key is what is read back.
\<close>

section \<open>Decimal constants\<close>

lemma ddec_facts:
  assumes "\<bar>n\<bar> \<le> 2 ^ 20 * 10 ^ k"
  shows "number (ddec n k)" "fval (ddec n k) = rnd binary64 (of_int n / 10 ^ k)"
proof -
  have x: "real_of_int n / 10 ^ k = (if n < 0 then -1 else 1) * (of_int \<bar>n\<bar> / of_int (10 ^ k) * p2 0)"
    by simp
  have "real_of_int \<bar>n\<bar> \<le> of_int (2 ^ 20 * 10 ^ k)" using assms by (simp only: of_int_le_iff)
  then have "\<bar>real_of_int n / 10 ^ k\<bar> \<le> p2 20" by (simp add: divide_le_eq)
  then have r: "in_range binary64 (of_int n / 10 ^ k)"
    by (intro in_range_p2 [OF valid_format_binary(1), of _ 20]) (simp_all add: binary64_def)
  note rf = roundf_facts [OF valid_format_binary(1) abs_ge_zero _ x]
  show "number (ddec n k)" "fval (ddec n k) = rnd binary64 (of_int n / 10 ^ k)"
    using rf(1,2,3) r by (simp_all add: ddec_def number_def)
qed

lemma ddec_lower:
  assumes "0 < n" "n \<le> 2 ^ 20 * 10 ^ k" "k \<le> 20" shows "0 < fval (ddec n k)"
proof -
  have "(10 :: real) ^ k \<le> 10 ^ 20" by (rule power_increasing) (use assms(3) in auto)
  also have "(10 :: real) ^ 20 \<le> p2 70" by simp
  finally have "p2 (-70) \<le> 1 / 10 ^ k" by (simp add: power_int_def field_simps)
  also have "\<dots> \<le> of_int n / 10 ^ k" using assms(1) by (simp add: divide_le_cancel)
  finally have "rnd binary64 (p2 (-70)) \<le> rnd binary64 (of_int n / 10 ^ k)"
    by (rule rnd_mono [OF valid_format_binary(1)])
  moreover have "rnd binary64 (p2 (-70)) = p2 (-70)"
    by (rule rnd_p2 [OF valid_format_binary(1)]) (simp add: binary64_def)
  ultimately show ?thesis
    using ddec_facts(2) [of n k] assms by (metis abs_of_pos less_le_trans p2_pos)
qed

lemma ddec_nonneg: "0 \<le> n \<Longrightarrow> n \<le> 2 ^ 20 * 10 ^ k \<Longrightarrow> 0 \<le> fval (ddec n k)"
  using ddec_facts(2) [of n k] by (simp add: rnd_nonneg)

lemma ddec_upper:
  assumes "n \<le> 2 ^ 20 * 10 ^ k" "0 \<le> n" "of_int n / 10 ^ k \<le> p2 j" "-1074 \<le> j"
  shows "fval (ddec n k) \<le> p2 j"
proof -
  have "rnd binary64 (of_int n / 10 ^ k) \<le> rnd binary64 (p2 j)"
    using assms(3) by (rule rnd_mono [OF valid_format_binary(1)])
  moreover have "rnd binary64 (p2 j) = p2 j"
    by (rule rnd_p2 [OF valid_format_binary(1)]) (use assms(4) in \<open>simp add: binary64_def\<close>)
  ultimately show ?thesis using ddec_facts(2) [of n k] assms by simp
qed

lemma ddec_le_1: "n \<le> 10 ^ k \<Longrightarrow> 0 \<le> n \<Longrightarrow> fval (ddec n k) \<le> 1"
proof -
  assume n: "n \<le> 10 ^ k" "0 \<le> n"
  then have "real_of_int n \<le> of_int (10 ^ k)" by (simp only: of_int_le_iff)
  then have "real_of_int n / 10 ^ k \<le> p2 0" by (simp add: divide_le_eq)
  moreover have "n \<le> 2 ^ 20 * 10 ^ k"
  proof -
    have "(0 :: int) \<le> 10 ^ k" "(2 :: int) ^ 20 * 10 ^ k = 1048576 * 10 ^ k" by simp_all
    then show ?thesis using n by linarith
  qed
  ultimately show ?thesis using ddec_upper [of n k 0] n(2) by simp
qed

lemma ddec_le_half: "2 * n \<le> 10 ^ k \<Longrightarrow> 0 \<le> n \<Longrightarrow> fval (ddec n k) \<le> 1 / 2"
proof -
  assume n: "2 * n \<le> 10 ^ k" "0 \<le> n"
  then have "real_of_int (2 * n) \<le> of_int (10 ^ k)" by (simp only: of_int_le_iff)
  then have "real_of_int n / 10 ^ k \<le> p2 (-1)" by (simp add: divide_le_eq power_int_def)
  moreover have "n \<le> 2 ^ 20 * 10 ^ k"
  proof -
    have "(0 :: int) \<le> 10 ^ k" "(2 :: int) ^ 20 * 10 ^ k = 1048576 * 10 ^ k" by simp_all
    then show ?thesis using n by linarith
  qed
  ultimately show ?thesis using ddec_upper [of n k "-1"] n(2) by (simp add: power_int_def)
qed

section \<open>Sums of probabilities\<close>

definition mass_upto :: "nat \<Rightarrow> double \<Rightarrow> bool" where
  "mass_upto n x \<longleftrightarrow> number x \<and> 0 \<le> fval x \<and> fval x \<le> real n"

lemma rnd_nat: "n \<le> 1000 \<Longrightarrow> rnd binary64 (real n) = real n"
  using rnd_representable_pos [OF valid_format_binary(1), of "int n" 0]
  by (simp add: binary64_def rnd_eq_pos)

lemma dadd_mass:
  assumes "mass_upto n x" "mass_upto 1 y" "n < 1000"
  shows "mass_upto (Suc n) (dadd x y)" "fval x \<le> fval (dadd x y)" "fval y \<le> fval (dadd x y)"
proof -
  have xy: "number x" "number y" "0 \<le> fval x" "0 \<le> fval y" "fval x + fval y \<le> real (Suc n)"
    using assms(1,2) by (auto simp: mass_upto_def)
  have "\<bar>fval x + fval y\<bar> \<le> p2 10" using xy assms(3) by simp
  then have r: "in_range binary64 (fval x + fval y)"
    by (intro in_range_p2 [OF valid_format_binary(1), of _ 10]) (simp_all add: binary64_def)
  have fx: "fisfinite x" "fisfinite y" using xy by (simp_all add: number_def)
  note v = fadd_fval [OF valid_format_binary(1) fx r]
  have up: "rnd binary64 (fval x + fval y) \<le> real (Suc n)"
    using rnd_mono [OF valid_format_binary(1) xy(5)] rnd_nat [of "Suc n"] assms(3) by simp
  have low: "fval x \<le> rnd binary64 (fval x + fval y)" "fval y \<le> rnd binary64 (fval x + fval y)"
    using rnd_mono [OF valid_format_binary(1), of "fval x" "fval x + fval y"]
      rnd_mono [OF valid_format_binary(1), of "fval y" "fval x + fval y"] xy
    by (simp_all add: number_def)
  show "mass_upto (Suc n) (dadd x y)" "fval x \<le> fval (dadd x y)" "fval y \<le> fval (dadd x y)"
    using v up low xy r fadd_wff [OF valid_format_binary(1) fx] fadd_finite [OF valid_format_binary(1) fx]
    by (auto simp: mass_upto_def number_def)
qed

lemma validate_row_foldl:
  assumes "\<forall>p \<in> set ps. mass_upto 1 p" "mass_upto n row" "n + length ps \<le> 1000"
  shows "\<exists>r. foldl (\<lambda>row p. case row of
       Inr m \<Rightarrow> Inr m
     | Inl acc \<Rightarrow> if flt p dzero then Inr msg else Inl (dadd acc p)) (Inl row) ps = Inl r \<and>
     mass_upto (n + length ps) r \<and> fval row \<le> fval r \<and> (\<forall>p \<in> set ps. fval p \<le> fval r)"
  using assms
proof (induction ps arbitrary: row n)
  case (Cons p ps)
  note step = dadd_mass [of n row p]
  have "\<not> flt p dzero" using Cons.prems(1) by (simp add: mass_upto_def number_def flt_fval smant_def)
  then show ?case
    using Cons.IH [of "Suc n" "dadd row p"] step Cons.prems by fastforce
qed simp

lemma validate_row_ok:
  assumes "\<forall>p \<in> set ps. mass_upto 1 p" "length ps = 5" "\<exists>p \<in> set ps. 0 < fval p"
  shows "\<exists>row. validate_row ps = Inl row \<and> \<not> fle row dzero"
proof -
  have "mass_upto 0 dzero" by (simp add: mass_upto_def smant_def)
  from validate_row_foldl [OF assms(1) this, of "''negative transition probability''"] assms(2)
  obtain r where "validate_row ps = Inl r" "mass_upto 5 r" "\<forall>p \<in> set ps. fval p \<le> fval r"
    by (auto simp: validate_row_def adaptive_bounds)
  moreover have "0 < fval r" using calculation assms(3) by force
  ultimately show ?thesis by (auto simp: mass_upto_def number_def fle_fval smant_def)
qed

section \<open>The defaults\<close>

definition default_config :: adaptive_config where
  "default_config = the (adaptive_config_defaults (Some zero_config))"

lemma defaults_Some: "adaptive_config_defaults (Some c) = Some default_config"
  by (simp add: default_config_def adaptive_config_defaults_def Let_def)

lemma mass_ddec: "n \<le> 10 ^ k \<Longrightarrow> 0 \<le> n \<Longrightarrow> mass_upto 1 (ddec n k)"
  using ddec_facts(1) [of n k] ddec_nonneg [of n k] ddec_le_1 [of n k]
  by (simp add: mass_upto_def)

lemma number_ddec: "\<bar>n\<bar> \<le> 10 * 10 ^ k \<Longrightarrow> number (ddec n k)"
  using ddec_facts(1) [of n k] by simp

lemma default_fields:
  "baseline_alpha default_config = ddec 4 2" "emission_alpha default_config = ddec 25 3"
  "transition_forgetting default_config = ddec 995 3" "transition_smoothing default_config = ddec 25 2"
  "transition_prior_strength default_config = ddec 80 1" "min_emission_variance default_config = ddec 5 2"
  "baseline_epsilon default_config = ddec 1 9" "recovery_hold default_config = 3"
  "window_size default_config = 128" "wavelet_levels default_config = 3"
  "uri_path default_config = ''telemetry''" "config_content_format default_config = 42"
  "initial_probability default_config = [dzero, ddec 10 1, dzero, dzero, dzero]"
  "threshold_gain default_config = [ddec 75 2, ddec 100 2, ddec 135 2, ddec 200 2, ddec 120 2]"
  "quant_bits default_config = [14, 12, 10, 8, 10]" "block_szx default_config = [2, 2, 1, 1, 1]"
  "sampling_factor default_config = [ddec 100 2, ddec 100 2, ddec 80 2, ddec 50 2, ddec 75 2]"
  "emission_variance default_config = replicate 5 (replicate 5 (ddec 10 1))"
  "transition_prior default_config =
     [[ddec 75 2, ddec 20 2, ddec 4 2, ddec 1 2, ddec 0 2],
      [ddec 10 2, ddec 70 2, ddec 16 2, ddec 4 2, ddec 0 2],
      [ddec 2 2, ddec 12 2, ddec 60 2, ddec 26 2, ddec 0 2],
      [ddec 0 2, ddec 0 2, ddec 2 2, ddec 76 2, ddec 22 2],
      [ddec 4 2, ddec 36 2, ddec 20 2, ddec 5 2, ddec 35 2]]"
  "emission_mean default_config =
     [replicate 5 (ddec (-10) 1), replicate 5 (ddec 0 1), replicate 5 (ddec 75 2),
      replicate 5 (ddec 15 1), replicate 5 (dadd (ddec 0 1) (ddec 25 2))]"
  by (simp_all add: default_config_def adaptive_config_defaults_def zero_config_def
      initialize_emissions_def Let_def adaptive_bounds numeral_eq_Suc)

lemma recovery_mean_number: "number (dadd (ddec 0 1) (ddec 25 2))"
proof -
  have "mass_upto (Suc 1) (dadd (ddec 0 1) (ddec 25 2))"
    by (rule dadd_mass(1) [OF mass_ddec mass_ddec]) simp_all
  then show ?thesis unfolding mass_upto_def by blast
qed

lemma default_shape: "config_shape default_config"
  unfolding config_shape_def default_fields numbers_def matrix_def
  by (simp add: number_ddec recovery_mean_number del: One_nat_def)

lemma default_rows:
  assumes "r \<in> set (transition_prior default_config)"
  shows "\<exists>row. validate_row r = Inl row \<and> \<not> fle row dzero"
proof (rule validate_row_ok)
  have elem: "\<forall>r \<in> set (transition_prior default_config). \<forall>p \<in> set r. mass_upto 1 p"
    unfolding default_fields by (simp add: mass_ddec del: One_nat_def)
  then show "\<forall>p \<in> set r. mass_upto 1 p" using assms by blast
  show "length r = 5" using assms unfolding default_fields by auto
  have "\<forall>r \<in> set (transition_prior default_config). \<exists>p \<in> set r. 0 < fval p"
    unfolding default_fields by (simp add: ddec_lower)
  then show "\<exists>p \<in> set r. 0 < fval p" using assms by blast
qed

lemma dzero_value: "fval dzero = 0"
  by (simp add: smant_def)

lemma positive_not_le: "number x \<Longrightarrow> 0 < fval x \<Longrightarrow> \<not> fle x dzero"
  by (simp add: number_def fle_fval dzero_value del: fval.simps)

lemma ddec_positive: "0 < n \<Longrightarrow> n \<le> 100 * 10 ^ k \<Longrightarrow> k \<le> 9 \<Longrightarrow> \<not> fle (ddec n k) dzero \<and> \<not> flt (ddec n k) dzero"
  using ddec_facts(1) [of n k] ddec_lower [of n k]
  by (simp add: number_def fle_fval flt_fval dzero_value del: fval.simps)

lemma ddec_below_one: "2 * n \<le> 10 ^ k \<Longrightarrow> 0 \<le> n \<Longrightarrow> \<not> fle (ddec 10 1) (ddec n k)"
  using number_ddec [of n k] ddec_le_half [of n k] one_decimal
  by (simp add: number_def fle_fval)

lemma ddec_at_most_one: "n \<le> 10 ^ k \<Longrightarrow> 0 \<le> n \<Longrightarrow> \<not> flt (ddec 10 1) (ddec n k)"
  using number_ddec [of n k] ddec_le_1 [of n k] one_decimal
  by (simp add: number_def flt_fval)

lemma default_states: "s < 5 \<Longrightarrow> validate_state default_config s = None"
proof -
  assume s: "s < 5"
  then have "transition_prior default_config ! s \<in> set (transition_prior default_config)"
    by (intro nth_mem) (simp add: default_fields)
  then obtain row where row: "validate_row (transition_prior default_config ! s) = Inl row" "\<not> fle row dzero"
    using default_rows by blast
  have "s \<in> {0, 1, 2, 3, 4}" using s by auto
  then have pol: "\<not> flt (threshold_gain default_config ! s) dzero"
    "2 \<le> quant_bits default_config ! s" "quant_bits default_config ! s \<le> 15"
    "\<not> 6 < block_szx default_config ! s" "\<not> fle (sampling_factor default_config ! s) dzero"
    "\<not> flt (ddec 10 1) (sampling_factor default_config ! s)"
    by (auto simp: default_fields ddec_positive ddec_at_most_one simp del: One_nat_def)
  have "\<not> fle (emission_variance default_config ! s ! k) dzero" if "k < 5" for k
    using s that by (simp add: default_fields ddec_positive)
  then show ?thesis using pol row by (auto simp: validate_state_def adaptive_bounds)
qed

lemma validate_states_ok:
  assumes "\<forall>s \<in> set states. validate_state c s = None \<and> mass_upto 1 (initial_probability c ! s)"
    and "mass_upto n t" "n + length states \<le> 1000"
  shows "\<exists>r. validate_states c states t = Inl r \<and> mass_upto (n + length states) r \<and> fval t \<le> fval r \<and>
    (\<forall>s \<in> set states. fval (initial_probability c ! s) \<le> fval r)"
  using assms
proof (induction states arbitrary: t n)
  case (Cons s states)
  then show ?case
    using Cons.IH [of "Suc n" "dadd t (initial_probability c ! s)"]
      dadd_mass [of n t "initial_probability c ! s"] by fastforce
qed simp

lemma default_valid:
  "adaptive_config_validate (Some default_config) err = (ADAPTIVE_OK, None)"
proof -
  have init: "\<forall>s \<in> set [0..<5]. validate_state default_config s = None \<and>
      mass_upto 1 (initial_probability default_config ! s)"
  proof
    fix s assume "s \<in> set [0..<5]"
    then have "s \<in> {0, 1, 2, 3, 4}" by auto
    moreover have "mass_upto 1 dzero" by (simp add: mass_upto_def dzero_value del: fval.simps)
    moreover have "mass_upto 1 (ddec 10 1)" by (rule mass_ddec) simp_all
    ultimately show "validate_state default_config s = None \<and>
        mass_upto 1 (initial_probability default_config ! s)"
      by (auto simp: default_states default_fields)
  qed
  have "mass_upto 0 dzero" by (simp add: mass_upto_def dzero_value del: fval.simps)
  from validate_states_ok [OF init this] obtain r where
    r: "validate_states default_config [0..<5] dzero = Inl r" "mass_upto 5 r"
      "fval (initial_probability default_config ! 1) \<le> fval r" by auto
  have "0 < fval r" using r(3) one_decimal(1) by (simp add: default_fields)
  then have "\<not> fle r dzero" using r(2) by (intro positive_not_le) (simp_all add: mass_upto_def)
  moreover have "is_power_of_two 128" by (simp add: is_power_of_two_def)
  moreover have "drop_bit (wavelet_levels default_config - 1) (window_size default_config) = 32"
    by (simp add: default_fields drop_bit_eq_div)
  ultimately show ?thesis
    using r(1)
    by (simp add: adaptive_config_validate_def adaptive_bounds default_fields(1-6,9-11)
        ddec_positive ddec_below_one ddec_at_most_one del: One_nat_def)
qed


section \<open>Witnesses\<close>

lemma load_returns: "\<exists>r m c'. adaptive_config_load (Some c) (Some p) err file = (r, m, Some c')"
  by (auto simp: adaptive_config_load_def split: option.split prod.split)

theorem config_load_sound_witness:
  "\<exists>r m c'. adaptive_config_load (Some default_config) (Some ''node.conf'') (Some 80)
      (Some (''hmm.recovery_hold = 9'', False)) = (r, m, Some c') \<and> config_shape c' \<and>
    (r = ADAPTIVE_OK \<longrightarrow> adaptive_config_validate (Some c') (Some 80) = (ADAPTIVE_OK, None))"
proof -
  obtain r m c' where load: "adaptive_config_load (Some default_config) (Some ''node.conf'') (Some 80)
      (Some (''hmm.recovery_hold = 9'', False)) = (r, m, Some c')"
    using load_returns by metis
  show ?thesis using config_load_sound [OF default_shape load] load by blast
qed

theorem validated_config_usable_witness:
  "validate_transform (window_size default_config) (wavelet_levels default_config) ADAPTIVE_MAX_WINDOW = Inr () \<and>
   quant_bits default_config ! 3 \<le> 15"
  using validated_config_usable [OF default_shape default_valid [of None]] by simp

section \<open>Numbers written in decimal are read back\<close>

lemma digit_value_char: "d < 10 \<Longrightarrow> digit_value (char_of (48 + d)) = Some d"
  by (simp add: digit_value_def Let_def take_bit_nat_eq_self)

lemma show_nat_digits:
  "(\<forall>c \<in> set (show_nat n). is_digit 10 c) \<and> show_nat n \<noteq> [] \<and> digits_value 10 (show_nat n) = n"
proof (induction n rule: show_nat.induct)
  case (1 n)
  show ?case
  proof (cases "n < 10")
    case True
    then show ?thesis by (simp add: show_nat.simps [of n] is_digit_def digits_value_def digit_value_char)
  next
    case False
    have "digit_value (char_of (48 + n mod 10)) = Some (n mod 10)" by (rule digit_value_char) simp
    then show ?thesis using 1 [OF False] False
      by (simp add: show_nat.simps [of n] is_digit_def digits_value_def)
  qed
qed

lemma digit_plain: "is_digit 10 c \<Longrightarrow> \<not> c_isspace c \<and> c \<noteq> CHR ''-'' \<and> c \<noteq> CHR ''+''"
  by (auto simp: is_digit_def digit_value_def c_isspace_def Let_def split: if_splits)

lemma strtoul_show: "n < 2 ^ 64 \<Longrightarrow> strtoul (show_nat n) = Some (n, [], False)"
proof -
  assume n: "n < 2 ^ 64"
  note d = show_nat_digits [of n]
  obtain c cs where cs: "show_nat n = c # cs" using d by (cases "show_nat n") auto
  have "dropWhile c_isspace (show_nat n) = show_nat n" "read_sign (show_nat n) = (False, show_nat n)"
    using d digit_plain [of c] by (auto simp: cs read_sign_def)
  moreover have digits: "takeWhile (is_digit 10) (show_nat n) = show_nat n"
    using d by (simp add: takeWhile_eq_all_conv)
  ultimately show ?thesis using d n by (simp add: strtoul_def Let_def digits)
qed

lemma parse_unsigned_show: "n < 2 ^ 64 \<Longrightarrow> parse_unsigned (show_nat n) = Inr n"
  by (simp add: parse_unsigned_def strtoul_show trim_def)

lemma state_from_name: "adaptive_state_from_name (Some (adaptive_state_name (state_num s))) True = Inr s"
proof -
  have "find_name adaptive_state_name (adaptive_state_name (state_num s)) 0 5 = Some (state_num s)"
    unfolding find_name_find find_upt_Some
    using state_names_distinct [of "state_num s"] state_num_less [of s]
    by (metis less_trans less_irrefl)
  then show ?thesis by (simp add: adaptive_state_from_name_def ADAPTIVE_STATE_COUNT_def)
qed



end
