(* ===== verification/Float_Closure.thy ===== *)
theory Float_Closure
  imports Float_Reals
begin

text \<open>
  Every operation returns a well-formed value of its format, also on infinities and NaN;
  and a well-formed single-precision value survives being stored as its bits.
\<close>

named_theorems wff_intros \<open>well-formedness of results\<close>

lemma wff_special [wff_intros]: "wff F FNaN" "wff F (FInf s)"
  by simp_all

lemma wff_zero [wff_intros]: "valid_format F \<Longrightarrow> wff F (Fin s 0 (emin F))"
  by (simp add: valid_format_def)

lemma wff_roundf [wff_intros]:
  "valid_format F \<Longrightarrow> 0 \<le> n \<Longrightarrow> 0 < d \<Longrightarrow> wff F (roundf F s n d e)"
  by (rule roundf_wff [OF _ _ _ refl])

lemma wff_fadd [wff_intros]: "valid_format F \<Longrightarrow> wff F (fadd F x y)"
proof -
  assume F: "valid_format F"
  have "wff F (fadd F (Fin s m e) (Fin t n f))" for s m e t n f by (rule fadd_wff [OF F]) simp_all
  then show ?thesis using wff_special [of F] by (cases x; cases y) (simp_all del: fadd.simps(7))
qed

lemma wff_fsub [wff_intros]: "valid_format F \<Longrightarrow> wff F (fsub F x y)"
  by (simp add: fsub_def wff_fadd)

lemma wff_fmul [wff_intros]: "valid_format F \<Longrightarrow> wff G x \<Longrightarrow> wff H y \<Longrightarrow> wff F (fmul F x y)"
  by (cases x; cases y) (auto intro!: wff_roundf dest!: wff_mant_nonneg simp del: wff.simps(1))

lemma wff_fdiv [wff_intros]: "valid_format F \<Longrightarrow> wff G x \<Longrightarrow> wff H y \<Longrightarrow> wff F (fdiv F x y)"
  by (cases x; cases y)
    (auto intro!: wff_roundf dest!: wff_mant_nonneg simp: wff_zero less_le simp del: wff.simps(1))

lemma wff_fcvt [wff_intros]: "valid_format F \<Longrightarrow> wff G x \<Longrightarrow> wff F (fcvt F x)"
  by (cases x) (auto intro!: wff_roundf dest!: wff_mant_nonneg simp del: wff.simps(1))

lemma wff_fof_int [wff_intros]: "valid_format F \<Longrightarrow> wff F (fof_int F k)"
  by (rule fof_int_wff)

lemma isqrt_nonneg: "0 \<le> isqrt n"
proof (induction n rule: isqrt.induct)
  case (1 n)
  then show ?case by (subst isqrt.simps) (simp add: Let_def)
qed

lemma wff_fsqrt [wff_intros]: "valid_format F \<Longrightarrow> wff G x \<Longrightarrow> wff F (fsqrt F x)"
  using isqrt_nonneg
  by (cases x) (auto intro!: wff_roundf dest!: wff_mant_nonneg simp: wff_zero Let_def
      split: prod.split simp del: wff.simps(1))

lemma wff_ddec [wff_intros]: "wfd (ddec n k)"
  by (simp add: ddec_def wff_roundf)

lemma wff_fabs_intro [wff_intros]: "wff F x \<Longrightarrow> wff F (fabs x)" "wff F x \<Longrightarrow> wff F (fneg x)"
  "wff F x \<Longrightarrow> wff F (fcopysign x y)"
  by simp_all

lemma wff_dzero [wff_intros]: "wfd dzero" "wfs fzero"
  by (simp_all add: binary64_def binary32_def)

section \<open>Bits\<close>

lemma float_bits_value:
  assumes "wfs (Fin s m e)"
  shows "uint (float_bits (Fin s m e)) = (if s then 2 ^ 31 else 0) +
    (if m < 2 ^ 23 then m else (e + 150) * 2 ^ 23 + (m - 2 ^ 23))"
proof -
  have b: "0 \<le> m" "m < 2 ^ 24" "-149 \<le> e" "e \<le> 104" using assms by (auto simp: binary32_def)
  define v where "v = (if m < 2 ^ 23 then m else (e + 150) * 2 ^ 23 + (m - 2 ^ 23))"
  have v: "0 \<le> v" "v < 2 ^ 31"
  proof -
    have "(e + 150) * 2 ^ 23 \<le> 254 * 2 ^ 23" "0 \<le> (e + 150) * 2 ^ 23" using b by simp_all
    then show "0 \<le> v" "v < 2 ^ 31" using b by (auto simp: v_def)
  qed
  have "float_bits (Fin s m e) = word_of_int ((if s then 2 ^ 31 else 0) + v)"
    by (auto simp: float_bits_def v_def)
  moreover have "uint (word_of_int ((if s then 2 ^ 31 else 0) + v) :: u32) = (if s then 2 ^ 31 else 0) + v"
    by (subst uint_word_of_int_eq, rule take_bit_int_eq_self) (use v in auto)
  ultimately show ?thesis by (simp add: v_def)
qed

lemma bit31_uint: "bit (w :: u32) 31 \<longleftrightarrow> 2 ^ 31 \<le> uint w"
proof -
  have "uint w < 2 ^ 32" using unsigned_less [where 'a = int, of w] by simp
  then have "uint w div 2 ^ 31 < 2" by simp
  moreover have "0 \<le> uint w div 2 ^ 31" using unsigned_greater_eq [where 'a = int, of w] by (simp add: pos_imp_zdiv_nonneg_iff)
  ultimately have "uint w div 2 ^ 31 = 0 \<or> uint w div 2 ^ 31 = 1" by linarith
  moreover have "bit w 31 = odd (uint w div 2 ^ 31)"
    using bit_uint_iff [of w 31] by (simp add: bit_iff_odd [of "uint w"])
  ultimately show ?thesis by auto
qed

lemma float_of_bits_bits: "wfs x \<Longrightarrow> float_of_bits (float_bits x) = x"
proof (cases x)
  case FNaN
  then show ?thesis by (simp add: float_bits_def float_of_bits_def bit31_uint)
next
  case (FInf s)
  then show ?thesis by (cases s) (simp_all add: float_bits_def float_of_bits_def bit31_uint)
next
  case (Fin s m e)
  assume wf: "wfs x"
  then have b: "0 \<le> m" "m < 2 ^ 24" "-149 \<le> e" "e \<le> 104" "-149 < e \<longrightarrow> 2 ^ 23 \<le> m"
    using Fin by (auto simp: binary32_def)
  define v where "v = (if m < 2 ^ 23 then m else (e + 150) * 2 ^ 23 + (m - 2 ^ 23))"
  have u: "uint (float_bits x) = (if s then 2 ^ 31 else 0) + v"
    using float_bits_value wf Fin by (simp add: v_def)
  have vb: "0 \<le> v" "v < 2 ^ 31"
  proof -
    have "(e + 150) * 2 ^ 23 \<le> 254 * 2 ^ 23" "0 \<le> (e + 150) * 2 ^ 23" using b by simp_all
    then show "0 \<le> v" "v < 2 ^ 31" using b by (auto simp: v_def)
  qed
  have sg: "bit (float_bits x) 31 = s" using u vb by (simp add: bit31_uint)
  have parts: "uint (float_bits x) div 2 ^ 23 mod 256 = v div 2 ^ 23" "uint (float_bits x) mod 2 ^ 23 = v mod 2 ^ 23"
  proof -
    have w: "uint (float_bits x) = v + 2 ^ 23 * (if s then 256 else 0)" using u by simp
    have "uint (float_bits x) div 2 ^ 23 = (if s then 256 else 0) + v div 2 ^ 23"
      unfolding w by (rule div_mult_self2) simp
    moreover have "0 \<le> v div 2 ^ 23" "v div 2 ^ 23 < 256" using vb by simp_all
    ultimately show "uint (float_bits x) div 2 ^ 23 mod 256 = v div 2 ^ 23" by simp
    show "uint (float_bits x) mod 2 ^ 23 = v mod 2 ^ 23" unfolding w by (rule mod_mult_self2)
  qed
  show ?thesis
  proof (cases "m < 2 ^ 23")
    case True
    then have "v = m" "e = -149" using b by (auto simp: v_def)
    moreover have "v div 2 ^ 23 = 0" "v mod 2 ^ 23 = m" using True b calculation by simp_all
    ultimately show ?thesis using parts sg Fin by (simp add: float_of_bits_def Let_def)
  next
    case False
    then have v: "v = (e + 150) * 2 ^ 23 + (m - 2 ^ 23)" by (simp add: v_def)
    have k: "0 \<le> m - 2 ^ 23" "m - 2 ^ 23 < 2 ^ 23" using False b by simp_all
    note low = div_pos_pos_trivial [OF k] mod_pos_pos_trivial [OF k]
    have "v div 2 ^ 23 = e + 150" unfolding v by (subst div_mult_self3, simp, simp only: low(1) add_0_right)
    moreover have "v mod 2 ^ 23 = m - 2 ^ 23" unfolding v mod_mult_self3 by (rule low(2))
    ultimately show ?thesis using parts sg Fin b by (simp add: float_of_bits_def Let_def)
  qed
qed

end
