(* ===== verification/Codec_Roundtrip.thy ===== *)
theory Codec_Roundtrip
  imports Codec Float_Closure Wavelet_Threshold
begin

text \<open>
  What the decoder makes of the encoder's output, and what the checksum catches.
\<close>

section \<open>Pairs\<close>

definition pair_bytes :: "nat \<times> int \<Rightarrow> bytes" where
  "pair_bytes p = write_u16 (word_of_nat (fst p)) @ write_u16 (word_of_int (snd p))"

definition nonzero_pairs :: "int list \<Rightarrow> (nat \<times> int) list" where
  "nonzero_pairs qs = map (\<lambda>i. (i, qs ! i)) (filter (\<lambda>i. qs ! i \<noteq> 0) [0..<length qs])"

lemma length_pair_bytes [simp]: "length (pair_bytes p) = 4"
  by (simp add: pair_bytes_def)

lemma codec_body_pairs: "codec_body qs = concat (map pair_bytes (nonzero_pairs qs))"
proof -
  have "concat (map (\<lambda>i. coefficient_pair i (qs ! i)) is) =
      concat (map pair_bytes (map (\<lambda>i. (i, qs ! i)) (filter (\<lambda>i. qs ! i \<noteq> 0) is)))" for "is"
    by (induction "is") (simp_all add: coefficient_pair_def pair_bytes_def)
  then show ?thesis by (simp add: codec_body_def nonzero_pairs_def)
qed

lemma length_concat_pairs [simp]: "length (concat (map pair_bytes ps)) = 4 * length ps"
  by (induction ps) simp_all

lemma length_nonzero_pairs: "length (nonzero_pairs qs) = length (filter (\<lambda>q. q \<noteq> 0) qs)"
proof -
  have "filter (\<lambda>q. q \<noteq> 0) qs = map ((!) qs) (filter (\<lambda>i. qs ! i \<noteq> 0) [0..<length qs])"
    by (subst map_nth [of qs, symmetric]) (simp add: filter_map comp_def del: map_nth)
  then show ?thesis by (simp add: nonzero_pairs_def)
qed

lemma unat_of_nat16: "i < 65536 \<Longrightarrow> unat (word_of_nat i :: u16) = i"
  by (simp add: unat_of_nat take_bit_nat_eq_self)

lemma sint_of_int16: "- 32768 \<le> q \<Longrightarrow> q < 32768 \<Longrightarrow> sint (word_of_int q :: u16) = q"
  by (simp add: signed_of_int signed_take_bit_int_eq_self)

definition dequantize :: "float32 \<Rightarrow> int \<Rightarrow> float32" where
  "dequantize scale q = fmul binary32 (fof_int binary32 q) scale"

text \<open>The decoding loop on a well-formed stream of pairs.\<close>

lemma decode_pairs_stream:
  assumes "length header = 28"
    and "sorted_wrt (<) (map fst rest)" and "\<forall>p \<in> set rest. fst p < count \<and> - 32768 \<le> snd p \<and> snd p < 32768"
    and "count \<le> 65536" and "\<forall>k. previous = Some k \<longrightarrow> (\<forall>p \<in> set rest. k < fst p)"
  shows "decode_pairs (header @ concat (map pair_bytes (done_pairs @ rest))) (length done_pairs)
      (length done_pairs + length rest) count scale previous samples =
    Inr (foldl (\<lambda>s p. s[fst p := dequantize scale (snd p)]) samples rest)"
  using assms(2,3,5)
proof (induction rest arbitrary: done_pairs previous samples)
  case Nil
  then show ?case by (simp add: decode_pairs.simps)
next
  case (Cons p rest)
  define inp where "inp = header @ concat (map pair_bytes (done_pairs @ p # rest))"
  have pos: "drop (CODEC_HEADER_BYTES + length done_pairs * 4) inp = pair_bytes p @ concat (map pair_bytes rest)"
    using assms(1) by (simp add: inp_def CODEC_HEADER_BYTES_def mult.commute)
  have pos2: "drop (CODEC_HEADER_BYTES + length done_pairs * 4 + 2) inp =
      write_u16 (word_of_int (snd p)) @ concat (map pair_bytes rest)"
  proof -
    have "drop (CODEC_HEADER_BYTES + length done_pairs * 4 + 2) inp =
        drop 2 (drop (CODEC_HEADER_BYTES + length done_pairs * 4) inp)"
      by (simp only: drop_drop add.commute)
    then show ?thesis unfolding pos by (simp add: pair_bytes_def)
  qed
  have fields: "unat (read_u16 (drop (CODEC_HEADER_BYTES + length done_pairs * 4) inp)) = fst p"
    "sint (read_u16 (drop (CODEC_HEADER_BYTES + length done_pairs * 4 + 2) inp)) = snd p"
    using Cons.prems(2) assms(4) unfolding pos pos2
    by (simp_all add: pair_bytes_def read_write_u16 unat_of_nat16 sint_of_int16)
  have ok: "\<not> count \<le> fst p" "\<not> (case previous of Some k \<Rightarrow> fst p \<le> k | None \<Rightarrow> False)"
    using Cons.prems by (auto split: option.split)
  have "decode_pairs inp (length done_pairs) (length done_pairs + length (p # rest)) count scale previous samples =
      decode_pairs inp (length done_pairs + 1) (length done_pairs + length (p # rest)) count scale
        (Some (fst p)) (samples[fst p := dequantize scale (snd p)])"
    using fields ok by (subst decode_pairs.simps, cases previous) (simp_all add: dequantize_def Let_def)
  also have "\<dots> = Inr (foldl (\<lambda>s p. s[fst p := dequantize scale (snd p)]) samples (p # rest))"
    using Cons.IH [of "Some (fst p)" "done_pairs @ [p]" "samples[fst p := dequantize scale (snd p)]"] Cons.prems
    by (simp add: inp_def)
  finally show ?case unfolding inp_def .
qed

lemma foldl_scatter_nth:
  assumes "distinct is" "\<forall>i \<in> set is. i < length s"
  shows "length (foldl (\<lambda>s i. s[i := f i]) s is) = length s \<and>
    (\<forall>j < length s. foldl (\<lambda>s i. s[i := f i]) s is ! j = (if j \<in> set is then f j else s ! j))"
  using assms by (induction "is" arbitrary: s) (auto simp: nth_list_update)

lemma dequantize_zero:
  assumes "fisfinite scale" "\<not> fsignbit scale" shows "dequantize scale 0 = fzero"
  using assms by (cases scale) (simp_all add: dequantize_def fof_int_def roundf_zero binary32_def)

lemma scatter_nonzero:
  assumes "fisfinite scale" "\<not> fsignbit scale"
  shows "foldl (\<lambda>s p. s[fst p := dequantize scale (snd p)]) (replicate (length qs) fzero) (nonzero_pairs qs) =
    map (dequantize scale) qs"
proof -
  let ?is = "filter (\<lambda>i. qs ! i \<noteq> 0) [0..<length qs]"
  have "foldl (\<lambda>s p. s[fst p := dequantize scale (snd p)]) s (map (\<lambda>i. (i, qs ! i)) is) =
      foldl (\<lambda>s i. s[i := dequantize scale (qs ! i)]) s is" for s "is"
    by (induction "is" arbitrary: s) simp_all
  then show ?thesis
    using foldl_scatter_nth [of ?is "replicate (length qs) fzero" "\<lambda>i. dequantize scale (qs ! i)"]
      dequantize_zero [OF assms]
    by (intro nth_equalityI) (auto simp: nonzero_pairs_def)
qed

section \<open>Quantised values\<close>

lemma maximum_integer_bounds: "2 \<le> b \<Longrightarrow> b \<le> 15 \<Longrightarrow> 1 \<le> maximum_integer b \<and> maximum_integer b \<le> 16383"
proof -
  assume b: "2 \<le> b" "b \<le> 15"
  then have "(2 :: int) ^ 1 \<le> 2 ^ (b - 1)" "(2 :: int) ^ (b - 1) \<le> 2 ^ 14"
    by (intro power_increasing; simp)+
  then show ?thesis by (simp add: maximum_integer_def push_bit_eq_mult)
qed

lemma quantize_bounds: "0 \<le> mi \<Longrightarrow> - mi \<le> quantize m scale mi c \<and> quantize m scale mi c \<le> mi"
  by (simp add: quantize_def Let_def)

section \<open>Well-formedness along the encoder\<close>

lemma machine_arith_simps:
  "ar_dzero machine_arith = dzero" "ar_promote machine_arith = to_double"
  "ar_dadd machine_arith = dadd" "ar_dmul machine_arith = dmul" "ar_dneg machine_arith = fneg"
  "ar_narrow machine_arith = to_float" "ar_fzero machine_arith = fzero"
  "ar_fadd machine_arith = fadd binary32"
  by (simp_all add: machine_arith_def)

lemma db4_low_wfd: "length db4_low = 8" "k < 8 \<Longrightarrow> wfd (db4_low ! k)"
  by (simp_all add: db4_low_def db4_low_digits_def wff_ddec less_Suc_eq numeral_eq_Suc del: wff.simps)
    (auto simp: wff_ddec simp del: wff.simps)

lemma db4_high_wfd: "k < 8 \<Longrightarrow> wfd (db4_high machine_arith db4_low k)"
  using db4_low_wfd by (simp add: db4_high_def machine_arith_simps Let_def)

lemma analyse_wfd:
  "wfd (fst (analyse machine_arith db4_low v n i)) \<and> wfd (snd (analyse machine_arith db4_low v n i))"
  unfolding analyse_def machine_arith_simps
  by (rule foldl_invariant) (auto intro!: wff_intros simp: Let_def simp del: wff.simps)

lemma forward_level_wfs:
  "\<forall>x \<in> set v. wfs x \<Longrightarrow> \<forall>x \<in> set (forward_level machine_arith db4_low v n). wfs x"
  using analyse_wfd
  by (auto simp: forward_level_def machine_arith_simps Let_def dest!: in_set_dropD
      intro!: wff_fcvt [of _ binary64] simp del: wff.simps)

lemma forward_levels_wfs:
  "\<forall>x \<in> set v. wfs x \<Longrightarrow> \<forall>x \<in> set (forward_levels machine_arith db4_low l v n). wfs x"
  by (induction l arbitrary: v n) (simp, metis forward_level_wfs forward_levels.simps(2))

lemma soft_threshold_wfs: "wfs c \<Longrightarrow> wfs (soft_threshold t c)"
  by (auto simp: soft_threshold_def Let_def simp del: wff.simps
      intro!: wff_intros wff_fcvt [of _ binary64])

lemma foldl_update_all:
  assumes "\<And>x. P x \<Longrightarrow> P (f x)"
  shows "\<forall>x \<in> set c. P x \<Longrightarrow> \<forall>i \<in> set is. i < length c \<Longrightarrow>
    \<forall>x \<in> set (foldl (\<lambda>c i. c[i := f (c ! i)]) c is). P x"
proof (induction "is" arbitrary: c)
  case (Cons i "is")
  then have "P (f (c ! i))" by (simp add: assms)
  then have "\<forall>x \<in> set (c[i := f (c ! i)]). P x"
    using Cons.prems(1) set_update_subset_insert [of c i "f (c ! i)"] by blast
  then show ?case using Cons by simp
qed simp

lemma soft_thresholds_wfs:
  assumes "\<forall>x \<in> set c. wfs x" "n \<le> length c"
    "adaptive_wavelet_soft_threshold (Some c) a n t = Some r"
  shows "(\<forall>x \<in> set r. wfs x) \<and> length r = length c"
proof -
  have "\<forall>x \<in> set (foldl (\<lambda>c i. c[i := soft_threshold t (c ! i)]) c [a..<n]). wfs x"
    by (rule foldl_update_all) (use assms(1,2) soft_threshold_wfs in auto)
  moreover have "length (foldl (\<lambda>c i. c[i := soft_threshold t (c ! i)]) c [a..<n]) = length c"
    by (rule length_foldl_same) simp
  ultimately show ?thesis
    using assms by (auto simp: adaptive_wavelet_soft_threshold_def split: if_splits)
qed

lemma coefficients_wfs:
  assumes "codec_coefficients m xs n state cfg = Inr (c, t)" "\<forall>x \<in> set xs. wfs x" "n \<le> length xs"
  shows "(\<forall>x \<in> set c. wfs x) \<and> length c = n \<and>
    (\<exists>u. validate_transform n (wavelet_levels cfg) ADAPTIVE_MAX_WINDOW = Inr u)"
proof -
  let ?v = "take n xs"
  let ?f = "forward_levels machine_arith db4_low (wavelet_levels cfg) ?v n"
  obtain u where ok: "validate_transform n (wavelet_levels cfg) ADAPTIVE_MAX_WINDOW = Inr u"
    and r: "adaptive_wavelet_soft_threshold (Some ?f) (drop_bit (wavelet_levels cfg) n) n t = Some c"
    using assms(1)
    by (auto simp: codec_coefficients_def adaptive_db4_forward_def db4_forward_def outcome_bind_Inr Let_def
        adaptive_wavelet_soft_threshold_def split: option.splits if_splits)
  have dv: "2 ^ wavelet_levels cfg dvd n" using ok by (simp add: validate_transform_cases)
  have len: "length ?f = n" using assms(3) length_forward_levels [OF dv, of ?v] by simp
  have "\<forall>x \<in> set ?v. wfs x" using assms(2) by (auto dest: in_set_takeD)
  then have "\<forall>x \<in> set ?f. wfs x" by (rule forward_levels_wfs)
  from soft_thresholds_wfs [OF this _ r] len ok show ?thesis by auto
qed

lemma coefficient_maximum_wfd: "\<forall>x \<in> set c. wfs x \<Longrightarrow> wfd (coefficient_maximum c)"
  unfolding coefficient_maximum_def
  by (rule foldl_invariant) (auto intro!: wff_intros wff_fcvt [of _ binary32] simp: Let_def simp del: wff.simps)

lemma coefficient_scale_wfd: "wfd mx \<Longrightarrow> wfd (coefficient_scale mx mi)"
  by (auto simp: coefficient_scale_def intro!: wff_intros wff_fdiv [of _ binary64 _ binary64] simp del: wff.simps)

section \<open>The header\<close>

definition codec_header :: "nat \<Rightarrow> nat \<Rightarrow> nat \<Rightarrow> nat \<Rightarrow> nat \<Rightarrow> u32 \<Rightarrow> u32 \<Rightarrow> u32 \<Rightarrow> u32 \<Rightarrow> bytes" where
  "codec_header levels bits state n nonzero window_id scale threshold crc =
     codec_magic @ [CODEC_VERSION, word_of_nat levels, word_of_nat bits, word_of_nat state] @
     write_u16 (word_of_nat n) @ write_u16 (word_of_nat nonzero) @ write_u32 window_id @
     write_u32 scale @ write_u32 threshold @ write_u32 crc"

lemma codec_header_fields:
  fixes levels bits state n nonzero window_id scale threshold crc body
  defines "inp \<equiv> codec_header levels bits state n nonzero window_id scale threshold crc @ body"
  shows "length (codec_header levels bits state n nonzero window_id scale threshold crc) = 28"
    "take 4 inp = codec_magic" "inp ! 4 = CODEC_VERSION" "inp ! 5 = word_of_nat levels"
    "inp ! 6 = word_of_nat bits" "inp ! 7 = word_of_nat state"
    "read_u16 (drop 8 inp) = word_of_nat n" "read_u16 (drop 10 inp) = word_of_nat nonzero"
    "read_u32 (drop 12 inp) = window_id" "read_u32 (drop 16 inp) = scale"
    "read_u32 (drop 20 inp) = threshold" "read_u32 (drop 24 inp) = crc" "drop 28 inp = body"
  unfolding inp_def codec_header_def by (simp_all add: codec_magic_def)

text \<open>Decoding a representation that is given by its fields.\<close>

lemma decode_fields:
  assumes inp: "inp = codec_header levels bits state n nonzero window_id scale threshold crc @ body"
    and small: "levels < 64" "bits < 256" "state < 256" "n < 65536" "nonzero < 65536"
  shows "adaptive_codec_decode (Some inp) True capacity True =
    (let x = float_of_bits scale
     in if n = 0 \<or> 256 < n \<or> capacity < n \<or> levels = 0 \<or> drop_bit (levels - 1) n < 8 \<or>
          bits < 2 \<or> 15 < bits \<or> 5 \<le> state \<or> \<not> fisfinite x \<or> fle x fzero \<or>
          nonzero * 4 \<noteq> length body
        then Inl ADAPTIVE_ERR_FORMAT
        else if crc32_update 0 body \<noteq> crc then Inl ADAPTIVE_ERR_INTEGRITY
        else outcome_bind (decode_pairs inp 0 nonzero n x None (replicate n fzero)) (\<lambda>samples.
          outcome_bind (adaptive_db4_inverse (Some samples) n levels True ADAPTIVE_MAX_WINDOW) (\<lambda>restored.
            Inr (restored,
              \<lparr>md_window_id = window_id, md_state = state, md_sample_count = n, md_levels = levels,
               md_quant_bits = bits, md_nonzero = nonzero,
               md_threshold = to_double (float_of_bits threshold), md_scale = to_double x\<rparr>))))"
proof -
  have nums: "unat (word_of_nat levels :: u8) = levels" "unat (word_of_nat bits :: u8) = bits"
    "unat (word_of_nat state :: u8) = state" "unat (word_of_nat n :: u16) = n"
    "unat (word_of_nat nonzero :: u16) = nonzero"
    using small by (simp_all add: unat_of_nat take_bit_nat_eq_self)
  have f: "take 4 inp = codec_magic" "inp ! 4 = CODEC_VERSION" "inp ! 5 = word_of_nat levels"
    "inp ! 6 = word_of_nat bits" "inp ! 7 = word_of_nat state"
    "read_u16 (drop 8 inp) = word_of_nat n" "read_u16 (drop 10 inp) = word_of_nat nonzero"
    "read_u32 (drop 12 inp) = window_id" "read_u32 (drop 16 inp) = scale"
    "read_u32 (drop 20 inp) = threshold" "read_u32 (drop 24 inp) = crc" "drop 28 inp = body"
    unfolding inp by (rule codec_header_fields)+
  have len: "length inp = 28 + length body" by (simp add: inp codec_header_fields)
  show ?thesis
    unfolding adaptive_codec_decode_def
    using small by (simp add: f nums len CODEC_HEADER_BYTES_def Let_def adaptive_bounds)
qed

section \<open>What the encoder produces\<close>

text \<open>The quantised coefficients of a window.\<close>

definition quantized_window ::
    "libm \<Rightarrow> float32 list \<Rightarrow> nat \<Rightarrow> nat \<Rightarrow> adaptive_config \<Rightarrow> double \<Rightarrow> int list" where
  "quantized_window m xs n state cfg scale =
     (case codec_coefficients m xs n state cfg of
        Inl _ \<Rightarrow> []
      | Inr (c, t) \<Rightarrow> map (quantize m scale (maximum_integer (quant_bits cfg ! state))) (take n c))"

lemma encode_result:
  assumes enc: "adaptive_codec_encode m (Some xs) n wid state (Some cfg) True cap True = Inr (out, md)"
    and xs: "\<forall>x \<in> set xs. wfs x" "n \<le> length xs"
  defines "qs \<equiv> quantized_window m xs n state cfg (md_scale md)"
  shows "out = codec_header (wavelet_levels cfg) (quant_bits cfg ! state) state n (md_nonzero md) wid
      (float_bits (to_float (md_scale md))) (float_bits (to_float (md_threshold md)))
      (crc32_update 0 (codec_body qs)) @ codec_body qs"
    and "length qs = n" "n \<le> 256" "state < 5" "n = window_size cfg" "wfd (md_scale md)"
    "validate_transform n (wavelet_levels cfg) ADAPTIVE_MAX_WINDOW = Inr ()"
    "md = \<lparr>md_window_id = wid, md_state = state, md_sample_count = n, md_levels = wavelet_levels cfg,
       md_quant_bits = quant_bits cfg ! state, md_nonzero = length (nonzero_pairs qs),
       md_threshold = md_threshold md, md_scale = md_scale md\<rparr>"
    "28 + 4 * md_nonzero md \<le> cap"
    "\<exists>c t. codec_coefficients m xs n state cfg = Inr (c, t) \<and> md_threshold md = t \<and>
       md_scale md = coefficient_scale (coefficient_maximum c) (maximum_integer (quant_bits cfg ! state)) \<and>
       qs = map (quantize m (md_scale md) (maximum_integer (quant_bits cfg ! state))) c"
proof -
  obtain c t where c: "codec_coefficients m xs n state cfg = Inr (c, t)"
    using enc by (auto simp: adaptive_codec_encode_def outcome_bind_Inr split: if_splits prod.splits)
  note wf = coefficients_wfs [OF c xs]
  then have tk: "take n c = c" by simp
  have cond: "\<not> 5 \<le> state" "window_size cfg = n" "\<not> 256 < n" "\<not> 65535 < n"
    using enc by (auto simp: adaptive_codec_encode_def adaptive_bounds split: if_splits)
  let ?mi = "maximum_integer (quant_bits cfg ! state)"
  let ?scale = "coefficient_scale (coefficient_maximum c) ?mi"
  let ?qs = "map (quantize m ?scale ?mi) c"
  have r: "\<not> (65535 < length (nonzero_pairs ?qs) \<or> cap < 28 + length (nonzero_pairs ?qs) * 4)"
    "out = codec_header (wavelet_levels cfg) (quant_bits cfg ! state) state n (length (nonzero_pairs ?qs)) wid
      (float_bits (to_float ?scale)) (float_bits (to_float t)) (crc32_update 0 (codec_body ?qs)) @ codec_body ?qs"
    "md = \<lparr>md_window_id = wid, md_state = state, md_sample_count = n, md_levels = wavelet_levels cfg,
       md_quant_bits = quant_bits cfg ! state, md_nonzero = length (nonzero_pairs ?qs),
       md_threshold = t, md_scale = ?scale\<rparr>"
    using enc by (simp_all add: adaptive_codec_encode_def adaptive_bounds cond c tk Let_def codec_header_def
        length_nonzero_pairs CODEC_HEADER_BYTES_def split: if_splits)
  have qs: "qs = ?qs" by (simp add: qs_def quantized_window_def c tk r(3))
  show "out = codec_header (wavelet_levels cfg) (quant_bits cfg ! state) state n (md_nonzero md) wid
      (float_bits (to_float (md_scale md))) (float_bits (to_float (md_threshold md)))
      (crc32_update 0 (codec_body qs)) @ codec_body qs"
    "length qs = n" "n \<le> 256" "state < 5" "n = window_size cfg"
    "md = \<lparr>md_window_id = wid, md_state = state, md_sample_count = n, md_levels = wavelet_levels cfg,
       md_quant_bits = quant_bits cfg ! state, md_nonzero = length (nonzero_pairs qs),
       md_threshold = md_threshold md, md_scale = md_scale md\<rparr>"
    "28 + 4 * md_nonzero md \<le> cap"
    using r cond wf by (simp_all add: qs)
  show "\<exists>c t. codec_coefficients m xs n state cfg = Inr (c, t) \<and> md_threshold md = t \<and>
       md_scale md = coefficient_scale (coefficient_maximum c) (maximum_integer (quant_bits cfg ! state)) \<and>
       qs = map (quantize m (md_scale md) (maximum_integer (quant_bits cfg ! state))) c"
    using c r(3) by (auto simp: qs)
  show "wfd (md_scale md)"
    using coefficient_scale_wfd [OF coefficient_maximum_wfd] wf by (simp add: r(3) del: wff.simps)
  show "validate_transform n (wavelet_levels cfg) ADAPTIVE_MAX_WINDOW = Inr ()" using wf by auto
qed

lemma positive_float_sign: "fisfinite x \<Longrightarrow> wff F x \<Longrightarrow> \<not> fle x fzero \<Longrightarrow> \<not> fsignbit x"
  by (cases x) (auto simp: fle_fval smant_def mult_le_0_iff simp del: fle.simps)

lemma nonzero_pairs_sorted: "sorted_wrt (<) (map fst (nonzero_pairs qs))"
proof -
  have "map fst (nonzero_pairs qs) = filter (\<lambda>i. qs ! i \<noteq> 0) [0..<length qs]"
    by (simp add: nonzero_pairs_def comp_def)
  then show ?thesis using sorted_wrt_filter [OF sorted_wrt_upt] by metis
qed

lemma nonzero_pairs_bounds:
  "\<forall>q \<in> set qs. - 32768 \<le> q \<and> q < 32768 \<Longrightarrow>
   \<forall>p \<in> set (nonzero_pairs qs). fst p < length qs \<and> - 32768 \<le> snd p \<and> snd p < 32768"
  by (auto simp: nonzero_pairs_def)

lemma transform_accepts_levels:
  "validate_transform n l sc = Inr u \<Longrightarrow> l < 64 \<and> 0 < l \<and> 8 \<le> drop_bit (l - 1) n \<and> 0 < n"
  by (auto simp: validate_transform_cases drop_bit_eq_div)

lemma decode_encoded:
  assumes enc: "adaptive_codec_encode m (Some xs) n wid state (Some cfg) True cap True = Inr (out, md)"
    and xs: "\<forall>x \<in> set xs. wfs x" "n \<le> length xs"
    and bits: "2 \<le> quant_bits cfg ! state" "quant_bits cfg ! state \<le> 15"
    and scale: "fisfinite (to_float (md_scale md))" "\<not> fle (to_float (md_scale md)) fzero"
    and room: "n \<le> capacity"
  shows "\<exists>restored t.
    adaptive_codec_decode (Some out) True capacity True =
      Inr (restored, md\<lparr>md_threshold := t, md_scale := to_double (to_float (md_scale md))\<rparr>) \<and>
    adaptive_db4_inverse (Some (map (dequantize (to_float (md_scale md)))
        (quantized_window m xs n state cfg (md_scale md)))) n (wavelet_levels cfg) True ADAPTIVE_MAX_WINDOW
      = Inr restored \<and> length restored = n"
proof -
  note r = encode_result [OF enc xs]
  define qs where "qs = quantized_window m xs n state cfg (md_scale md)"
  define f where "f = to_float (md_scale md)"
  note r = r [folded qs_def]
  have wf: "wfs f" unfolding f_def by (rule wff_fcvt [OF _ r(6)]) simp
  then have fb: "float_of_bits (float_bits f) = f" by (rule float_of_bits_bits)
  have fpos: "fisfinite f" "\<not> fle f fzero" using scale by (simp_all add: f_def)
  note lv = transform_accepts_levels [OF r(7)]
  have mi: "maximum_integer (quant_bits cfg ! state) \<le> 16383" "0 \<le> maximum_integer (quant_bits cfg ! state)"
    using maximum_integer_bounds [OF bits] by auto
  have qb: "\<forall>q \<in> set qs. - 32768 \<le> q \<and> q < 32768"
  proof
    fix q assume "q \<in> set qs"
    then obtain c where "q = quantize m (md_scale md) (maximum_integer (quant_bits cfg ! state)) c"
      using r(10) by auto
    then show "- 32768 \<le> q \<and> q < 32768" using quantize_bounds [OF mi(2)] mi(1) by (smt (verit))
  qed
  have nz: "md_nonzero md = length (nonzero_pairs qs)" by (subst r(8)) simp
  have nzn: "length (nonzero_pairs qs) \<le> n"
    using length_filter_le [of "\<lambda>q. q \<noteq> 0" qs] r(2) by (simp add: length_nonzero_pairs)
  have pairs: "decode_pairs out 0 (md_nonzero md) n f None (replicate n fzero) = Inr (map (dequantize f) qs)"
  proof -
    have "decode_pairs (codec_header (wavelet_levels cfg) (quant_bits cfg ! state) state n (md_nonzero md) wid
        (float_bits f) (float_bits (to_float (md_threshold md))) (crc32_update 0 (codec_body qs)) @
        concat (map pair_bytes ([] @ nonzero_pairs qs))) (length ([] :: (nat \<times> int) list))
        (length ([] :: (nat \<times> int) list) + length (nonzero_pairs qs))
        n f None (replicate n fzero) =
      Inr (foldl (\<lambda>s p. s[fst p := dequantize f (snd p)]) (replicate n fzero) (nonzero_pairs qs))"
      by (rule decode_pairs_stream)
        (use r(2,3) nonzero_pairs_sorted nonzero_pairs_bounds [OF qb] in \<open>simp_all add: codec_header_fields\<close>)
    then show ?thesis
      using scatter_nonzero [OF fpos(1) positive_float_sign [OF fpos(1) wf fpos(2)], of qs] r(2)
      by (simp add: r(1) codec_body_pairs nz f_def [symmetric])
  qed
  let ?restored = "inverse_levels machine_arith db4_low (wavelet_levels cfg) (map (dequantize f) qs)
      (drop_bit (wavelet_levels cfg) n)"
  have inv: "adaptive_db4_inverse (Some (map (dequantize f) qs)) n (wavelet_levels cfg) True ADAPTIVE_MAX_WINDOW
      = Inr ?restored"
    by (simp add: adaptive_db4_inverse_def db4_inverse_def r(7))
  have "2 ^ wavelet_levels cfg dvd n" using r(7) by (simp add: validate_transform_cases)
  then have len: "length ?restored = n"
    by (subst length_inverse_levels) (simp_all add: drop_bit_eq_div r(2))
  have "adaptive_codec_decode (Some out) True capacity True =
      Inr (?restored, \<lparr>md_window_id = wid, md_state = state, md_sample_count = n,
        md_levels = wavelet_levels cfg, md_quant_bits = quant_bits cfg ! state, md_nonzero = md_nonzero md,
        md_threshold = to_double (float_of_bits (float_bits (to_float (md_threshold md)))),
        md_scale = to_double f\<rparr>)"
    using decode_fields [OF r(1)] r(3,4) lv bits nz nzn room fpos fb pairs inv
    by (simp add: f_def [symmetric] Let_def codec_body_pairs not_le not_less)
  moreover have "\<dots> = Inr (?restored, md\<lparr>md_threshold :=
      to_double (float_of_bits (float_bits (to_float (md_threshold md)))), md_scale := to_double f\<rparr>)"
    using r(8) nz by (cases md) simp
  ultimately show ?thesis using inv len unfolding f_def [symmetric] qs_def [symmetric] by metis
qed


end
