(* ===== verification/Codec_Silence.thy ===== *)
theory Codec_Silence
  imports Codec_Roundtrip
begin

section \<open>A window of zeros\<close>

text \<open>The silent window, on which every step can be computed by rewriting.\<close>

definition zero_libm :: libm where
  "zero_libm = \<lparr>m_log = (\<lambda>_. dzero), m_exp = (\<lambda>_. dzero), m_lround_unspecified = (\<lambda>_. 0)\<rparr>"

definition small_config :: adaptive_config where
  "small_config = zero_config\<lparr>window_size := 8, wavelet_levels := 1, quant_bits := replicate 5 8\<rparr>"

lemma zero_operations:
  "to_double fzero = dzero" "to_float dzero = fzero" "to_float (Fin s 0 e) = Fin s 0 (-149)"
  "dmul (Fin s m e) dzero = Fin s 0 (-1074)" "dadd dzero (Fin s 0 (-1074)) = dzero"
  "fabs fzero = fzero" "fadd binary32 fzero fzero = fzero" "ddiv dzero (Fin False 6075263575296585 (-53)) = dzero"
  "dsqrt dzero = dzero" "fle dzero dzero" "\<not> flt dzero dzero" "\<not> flt fzero fzero"
  by (simp_all add: binary64_def binary32_def roundf_def smant_def fcmp_def)

lemma db4_finite: "k < 8 \<Longrightarrow> fisfinite (db4_low ! k)" "k < 8 \<Longrightarrow> fisfinite (db4_high machine_arith db4_low k)"
proof -
  have "k < 8 \<Longrightarrow> fisfinite (db4_low ! k)" for k
  proof -
    assume "k < 8"
    then obtain n where n: "db4_low ! k = ddec n 18" "\<bar>n\<bar> \<le> 10 ^ 18"
      by (auto simp: db4_low_def db4_low_digits_def less_Suc_eq numeral_eq_Suc)
    have x: "real_of_int n / 10 ^ 18 = (if n < 0 then -1 else 1) * (of_int \<bar>n\<bar> / of_int (10 ^ 18) * p2 0)"
      by simp
    have "real_of_int \<bar>n\<bar> \<le> of_int (10 ^ 18)" using n(2) by (simp only: of_int_le_iff)
    then have "\<bar>real_of_int n / 10 ^ 18\<bar> \<le> p2 0" by (simp add: divide_le_eq)
    then have "in_range binary64 (of_int n / 10 ^ 18)"
      by (intro in_range_p2 [OF valid_format_binary(1), of _ 0]) (simp_all add: binary64_def)
    then show ?thesis
      using roundf_finite [OF valid_format_binary(1) abs_ge_zero _ x] by (simp add: n ddec_def)
  qed
  then show "k < 8 \<Longrightarrow> fisfinite (db4_low ! k)" "k < 8 \<Longrightarrow> fisfinite (db4_high machine_arith db4_low k)"
    by (simp_all add: db4_high_def machine_arith_simps Let_def)
qed

lemma dmul_dzero: "fisfinite x \<Longrightarrow> \<exists>s. dmul x dzero = Fin s 0 (-1074)"
  by (cases x) (simp_all add: zero_operations(4) del: fmul.simps)

lemma analyse_zeros:
  assumes "0 < n" shows "analyse machine_arith db4_low (replicate n fzero) n i = (dzero, dzero)"
  unfolding analyse_def machine_arith_simps
proof (rule foldl_invariant)
  fix p and k :: nat
  assume p: "p = (dzero, dzero)" and k: "k \<in> set [0..<8]"
  then have "k < 8" by simp
  have z: "to_double (replicate n fzero ! ((2 * i + k) mod n)) = dzero"
    using assms by (simp add: zero_operations del: fcvt.simps)
  obtain s t where "dmul (db4_low ! k) dzero = Fin s 0 (-1074)"
      "dmul (db4_high machine_arith db4_low k) dzero = Fin t 0 (-1074)"
    using dmul_dzero db4_finite [OF \<open>k < 8\<close>] by metis
  then show "(case p of (l, h) \<Rightarrow> \<lambda>k.
      let x = to_double (replicate n fzero ! ((2 * i + k) mod n))
      in (dadd l (dmul (db4_low ! k) x), dadd h (dmul (db4_high machine_arith db4_low k) x))) k = (dzero, dzero)"
    by (simp add: p z zero_operations(5) Let_def del: fadd.simps fmul.simps fcvt.simps)
qed simp

lemma forward_level_zeros:
  "even n \<Longrightarrow> 0 < n \<Longrightarrow> forward_level machine_arith db4_low (replicate n fzero) n = replicate n fzero"
  by (rule nth_equalityI)
    (auto simp: forward_level_def machine_arith_simps analyse_zeros zero_operations nth_append Let_def
      simp del: fcvt.simps elim!: evenE)

lemma decimal_constants:
  "ddec 20 1 = Fin False 4503599627370496 (-51)" "ddec 10 1 = Fin False 4503599627370496 (-52)"
  by code_simp+

lemma zero_sigma: "adaptive_wavelet_noise_sigma (Some (replicate 8 fzero)) 8 True 256 = dzero"
proof -
  have ops: "dmul (Fin False 4503599627370496 (-53)) dzero = dzero" by (simp add: binary64_def roundf_def)
  have srt: "qsort_float [fzero, fzero, fzero, fzero] = [fzero, fzero, fzero, fzero]"
    by (simp add: qsort_float_def compare_float_def fcmp_def smant_def)
  have "map (\<lambda>i. fabs (replicate 8 fzero ! (4 + i))) [0..<4] = [fzero, fzero, fzero, fzero]"
    by (simp add: upt_rec zero_operations)
  then show ?thesis
    by (simp add: adaptive_wavelet_noise_sigma_def srt zero_operations sigma_constants ops Let_def
        del: fcvt.simps fmul.simps fadd.simps fdiv.simps One_nat_def)
qed

lemma replicate_update_same: "(replicate n x)[i := x] = replicate n x"
  by (induction n arbitrary: i) (auto split: nat.splits)

lemma zero_threshold: "soft_threshold dzero fzero = fzero"
  by (simp add: soft_threshold_def zero_operations Let_def del: fcvt.simps fle.simps)

lemma silent_coefficients:
  assumes "wavelet_levels c = 1" "threshold_gain c ! s = dzero"
  shows "codec_coefficients zero_libm (replicate 8 fzero) 8 s c = Inr (replicate 8 fzero, dzero)"
proof -
  have f: "adaptive_db4_forward (Some (replicate 8 fzero)) 8 1 True 256 = Inr (replicate 8 fzero)"
    using forward_level_zeros [of 8]
    by (simp add: adaptive_db4_forward_def db4_forward_def validate_transform_def adaptive_bounds)
  have t: "dmul dzero (dsqrt (dmul (ddec 20 1) dzero)) = dzero"
    unfolding decimal_constants by (simp add: binary64_def roundf_def)
  have l: "foldl (\<lambda>c i. c[i := soft_threshold dzero (c ! i)]) (replicate 8 fzero) is = replicate 8 fzero"
    if "\<forall>i \<in> set is. i < 8" for "is"
    using that by (induction "is") (simp_all add: zero_threshold replicate_update_same)
  have d: "drop_bit 1 (8 :: nat) = 4" by (simp add: drop_bit_eq_div)
  show ?thesis
    using l [of "[drop_bit 1 8..<8]"]
    by (simp add: codec_coefficients_def assms zero_libm_def adaptive_bounds f zero_sigma t d
        adaptive_wavelet_soft_threshold_def zero_operations Let_def
        del: fcvt.simps fmul.simps fsqrt.simps flt.simps One_nat_def)
qed

lemma zero_coefficients:
  "codec_coefficients zero_libm (replicate 8 fzero) 8 1 small_config = Inr (replicate 8 fzero, dzero)"
  by (rule silent_coefficients) (simp_all add: small_config_def zero_config_def)

lemma zero_encodes:
  "adaptive_codec_encode zero_libm (Some (replicate 8 fzero)) 8 77 1 (Some small_config) True 1088 True =
    Inr (codec_header 1 8 1 8 0 77 (float_bits (to_float (ddec 10 1))) (float_bits fzero) (crc32_update 0 []),
      \<lparr>md_window_id = 77, md_state = 1, md_sample_count = 8, md_levels = 1, md_quant_bits = 8,
       md_nonzero = 0, md_threshold = dzero, md_scale = ddec 10 1\<rparr>)"
proof -
  have mx: "coefficient_maximum (replicate n fzero) = dzero" for n
    by (induction n) (simp_all add: coefficient_maximum_def zero_operations Let_def del: fcvt.simps flt.simps)
  have sc: "coefficient_scale dzero k = ddec 10 1" for k
    by (simp add: coefficient_scale_def zero_operations del: flt.simps)
  have q: "quantize zero_libm (ddec 10 1) 127 fzero = 0"
  proof -
    have "ddiv dzero (ddec 10 1) = dzero" unfolding decimal_constants by (simp add: binary64_def roundf_def)
    moreover have "flround dzero = Some 0" by (simp add: round_half_away_def smant_def)
    ultimately show ?thesis by (simp add: quantize_def lround_def zero_operations Let_def del: fcvt.simps fdiv.simps flround.simps)
  qed
  have mi: "maximum_integer 8 = 127" by (simp add: maximum_integer_def push_bit_eq_mult)
  have cfg: "window_size small_config = 8" "wavelet_levels small_config = 1" "quant_bits small_config ! 1 = 8"
    by (simp_all add: small_config_def)
  have qs: "map (quantize zero_libm (ddec 10 1) 127) (replicate 8 fzero) = replicate 8 0"
    using q by simp
  have fl: "filter (\<lambda>q. q \<noteq> 0) (replicate n (0 :: int)) = []" for n by (induction n) simp_all
  have "codec_body (replicate 8 0) = []"
    by (simp add: codec_body_def coefficient_pair_def)
  then show ?thesis
    by (simp add: adaptive_codec_encode_def adaptive_bounds zero_coefficients cfg mx sc mi q fl
        qs CODEC_HEADER_BYTES_def codec_header_def zero_operations Let_def outcome_bind.simps
        del: fcvt.simps One_nat_def map_replicate)
qed

lemma one_as_float: "to_float (ddec 10 1) = Fin False 8388608 (-23)"
  unfolding decimal_constants by code_simp


end
