(* ===== verification/Metrics.thy ===== *)
theory Metrics
  imports Types Floats
begin

text \<open>
  \<^verbatim>\<open>include/adaptive/metrics.h\<close> and \<^verbatim>\<open>src/metrics.c\<close>: the running baseline of the five
  network metrics and the z-scores against it. A metrics structure and the arrays of the
  normalizer are lists of five doubles.
\<close>

type_synonym network_metrics = "double list"

record adaptive_normalizer =
  nz_mean :: "double list"
  nz_variance :: "double list"
  nz_alpha :: double
  nz_epsilon :: double
  nz_initialized :: bool

definition zero_normalizer :: adaptive_normalizer where
  "zero_normalizer =
     \<lparr>nz_mean = replicate ADAPTIVE_METRIC_COUNT dzero, nz_variance = replicate ADAPTIVE_METRIC_COUNT dzero,
      nz_alpha = dzero, nz_epsilon = dzero, nz_initialized = False\<rparr>"

definition adaptive_normalizer_init ::
    "adaptive_normalizer option \<Rightarrow> double \<Rightarrow> double \<Rightarrow> adaptive_normalizer option" where
  "adaptive_normalizer_init normalizer alpha epsilon =
     map_option (\<lambda>_. zero_normalizer\<lparr>nz_alpha := alpha, nz_epsilon := epsilon\<rparr>) normalizer"

text \<open>The variance the first observation of a metric starts with.\<close>

definition first_variance :: "double \<Rightarrow> double" where
  "first_variance x =
     (let s = dmul (fabs x) (ddec 1 1);
          scale = (if flt s (ddec 10 1) then ddec 10 1 else s)
      in dmul scale scale)"

text \<open>The z-score of a metric, the sign of goodput turned round, clamped to six.\<close>

definition z_score :: "adaptive_normalizer \<Rightarrow> network_metrics \<Rightarrow> nat \<Rightarrow> double" where
  "z_score n raw metric =
     (let delta = dsub (raw ! metric) (nz_mean n ! metric);
          z0 = ddiv delta (dsqrt (dadd (nz_variance n ! metric) (nz_epsilon n)));
          z1 = (if metric = metric_num GOODPUT then fneg z0 else z0);
          z2 = (if flt (ddec 60 1) z1 then ddec 60 1 else z1)
      in if flt z2 (ddec (-60) 1) then ddec (-60) 1 else z2)"

definition next_mean :: "adaptive_normalizer \<Rightarrow> network_metrics \<Rightarrow> nat \<Rightarrow> double" where
  "next_mean n raw metric =
     dadd (nz_mean n ! metric) (dmul (nz_alpha n) (dsub (raw ! metric) (nz_mean n ! metric)))"

definition next_variance :: "adaptive_normalizer \<Rightarrow> network_metrics \<Rightarrow> nat \<Rightarrow> double" where
  "next_variance n raw metric =
     (let delta = dsub (raw ! metric) (nz_mean n ! metric);
          v = dmul (dsub (ddec 10 1) (nz_alpha n))
                (dadd (nz_variance n ! metric) (dmul (dmul (nz_alpha n) delta) delta))
      in if flt v (nz_epsilon n) then nz_epsilon n else v)"

text \<open>
  One observation. The loops read and write only the entry of their own metric, so every
  entry of the new baseline is computed from the old one. A rejected observation leaves
  the normalizer as it is.
\<close>

definition adaptive_normalizer_update ::
    "adaptive_normalizer option \<Rightarrow> network_metrics option \<Rightarrow> bool \<Rightarrow>
     network_metrics outcome \<times> adaptive_normalizer option" where
  "adaptive_normalizer_update normalizer raw normalized_ok =
     (case (normalizer, raw) of
        (Some n, Some x) \<Rightarrow>
          if \<not> normalized_ok then (Inl ADAPTIVE_ERR_ARGUMENT, normalizer)
          else if \<not> list_all (\<lambda>metric. fisfinite (x ! metric)) [0..<ADAPTIVE_METRIC_COUNT]
          then (Inl ADAPTIVE_ERR_RANGE, normalizer)
          else if \<not> nz_initialized n then
            (Inr (replicate ADAPTIVE_METRIC_COUNT dzero),
             Some (n\<lparr>nz_mean := map (\<lambda>metric. x ! metric) [0..<ADAPTIVE_METRIC_COUNT],
                     nz_variance := map (\<lambda>metric. first_variance (x ! metric)) [0..<ADAPTIVE_METRIC_COUNT],
                     nz_initialized := True\<rparr>))
          else
            (Inr (map (z_score n x) [0..<ADAPTIVE_METRIC_COUNT]),
             Some (n\<lparr>nz_mean := map (next_mean n x) [0..<ADAPTIVE_METRIC_COUNT],
                     nz_variance := map (next_variance n x) [0..<ADAPTIVE_METRIC_COUNT]\<rparr>))
      | _ \<Rightarrow> (Inl ADAPTIVE_ERR_ARGUMENT, normalizer))"

end
