(* ===== verification/Hmm.thy ===== *)
theory Hmm
  imports Config Metrics Codec
begin

text \<open>
  \<^verbatim>\<open>include/adaptive/hmm.h\<close> and \<^verbatim>\<open>src/hmm.c\<close>: the hidden Markov model that turns the
  normalised metrics into a network state, with the history-dependent RECOVERY state. A
  vector is a list of five doubles, a matrix a list of five rows.
\<close>

record adaptive_hmm =
  probability :: "double list"
  transition :: "double list list"
  transition_count :: "double list list"
  hmm_prior :: "double list list"       \<comment> \<open>the field \<open>transition_prior\<close>\<close>
  hmm_mean :: "double list list"        \<comment> \<open>the field \<open>emission_mean\<close>\<close>
  hmm_variance :: "double list list"    \<comment> \<open>the field \<open>emission_variance\<close>\<close>
  hmm_alpha :: double                   \<comment> \<open>the field \<open>emission_alpha\<close>\<close>
  hmm_forgetting :: double              \<comment> \<open>the field \<open>transition_forgetting\<close>\<close>
  hmm_smoothing :: double               \<comment> \<open>the field \<open>transition_smoothing\<close>\<close>
  min_variance :: double
  hmm_state :: nat                      \<comment> \<open>the field \<open>state\<close>\<close>
  previous_state :: nat
  hmm_hold :: nat                       \<comment> \<open>the field \<open>recovery_hold\<close>\<close>
  recovery_remaining :: nat
  observations :: u64

section \<open>Helpers\<close>

definition dsum :: "double list \<Rightarrow> double" where
  "dsum values = foldl dadd dzero values"

definition normalize_values :: "double list \<Rightarrow> double list" where
  "normalize_values values =
     (let t = dsum values
      in if fle t dbl_min
         then replicate (length values) (ddiv (ddec 10 1) (dint (int (length values))))
         else map (\<lambda>v. ddiv v t) values)"

definition two_pi :: double where
  "two_pi = dmul (ddec 20 1) (ddec 314159265358979323846 20)"

definition floor_variance :: "double \<Rightarrow> double \<Rightarrow> double" where
  "floor_variance least v = (if flt v least then least else v)"

definition emission_log_probability :: "libm \<Rightarrow> adaptive_hmm \<Rightarrow> nat \<Rightarrow> network_metrics \<Rightarrow> double" where
  "emission_log_probability m hmm state observation =
     foldl (\<lambda>result metric.
         let delta = dsub (observation ! metric) (hmm_mean hmm ! state ! metric);
             variance = floor_variance (min_variance hmm) (hmm_variance hmm ! state ! metric)
         in dadd result (dmul (ddec (-5) 1)
              (dadd (m_log m (dmul two_pi variance)) (ddiv (dmul delta delta) variance))))
       dzero [0..<ADAPTIVE_METRIC_COUNT]"

definition largest_probability :: "double list \<Rightarrow> nat" where
  "largest_probability p =
     foldl (\<lambda>best state. if flt (p ! best) (p ! state) then state else best) 0 [1..<ADAPTIVE_STATE_COUNT]"

text \<open>One row of the transition matrix: its new counts, then its new probabilities.\<close>

definition row_counts :: "adaptive_hmm \<Rightarrow> nat \<Rightarrow> nat \<Rightarrow> nat \<Rightarrow> double list" where
  "row_counts hmm from to row =
     (let counts = map (\<lambda>c. dmul c (hmm_forgetting hmm)) (transition_count hmm ! row)
      in if row = from then counts[to := dadd (counts ! to) (ddec 10 1)] else counts)"

definition row_transition :: "adaptive_hmm \<Rightarrow> nat \<Rightarrow> double list \<Rightarrow> double list" where
  "row_transition hmm row counts =
     (let mass = map2 (\<lambda>c p. dadd c (dmul (hmm_smoothing hmm) p)) counts (hmm_prior hmm ! row)
      in map (\<lambda>x. ddiv x (dsum mass)) mass)"

definition update_transition :: "adaptive_hmm \<Rightarrow> nat \<Rightarrow> nat \<Rightarrow> adaptive_hmm" where
  "update_transition hmm from to =
     hmm\<lparr>transition_count := map (row_counts hmm from to) [0..<ADAPTIVE_STATE_COUNT],
         transition :=
           map (\<lambda>row. row_transition hmm row (row_counts hmm from to row)) [0..<ADAPTIVE_STATE_COUNT]\<rparr>"

definition next_emission_mean :: "adaptive_hmm \<Rightarrow> network_metrics \<Rightarrow> nat \<Rightarrow> nat \<Rightarrow> double" where
  "next_emission_mean hmm observation state metric =
     (let rate = dmul (hmm_alpha hmm) (probability hmm ! state);
          mean = hmm_mean hmm ! state ! metric
      in dadd mean (dmul rate (dsub (observation ! metric) mean)))"

definition next_emission_variance :: "adaptive_hmm \<Rightarrow> network_metrics \<Rightarrow> nat \<Rightarrow> nat \<Rightarrow> double" where
  "next_emission_variance hmm observation state metric =
     (let rate = dmul (hmm_alpha hmm) (probability hmm ! state);
          delta = dsub (observation ! metric) (hmm_mean hmm ! state ! metric)
      in floor_variance (min_variance hmm)
           (dadd (dmul (dsub (ddec 10 1) rate) (hmm_variance hmm ! state ! metric))
              (dmul (dmul rate delta) delta)))"

definition update_emissions :: "adaptive_hmm \<Rightarrow> network_metrics \<Rightarrow> adaptive_hmm" where
  "update_emissions hmm observation =
     hmm\<lparr>hmm_mean := map (\<lambda>state. map (next_emission_mean hmm observation state)
             [0..<ADAPTIVE_METRIC_COUNT]) [0..<ADAPTIVE_STATE_COUNT],
         hmm_variance := map (\<lambda>state. map (next_emission_variance hmm observation state)
             [0..<ADAPTIVE_METRIC_COUNT]) [0..<ADAPTIVE_STATE_COUNT]\<rparr>"

section \<open>Initialisation\<close>

definition prior_row :: "double list \<Rightarrow> double list" where
  "prior_row row = map (\<lambda>x. ddiv x (dsum row)) row"

definition adaptive_hmm_init :: "bool \<Rightarrow> adaptive_config option \<Rightarrow> adaptive_hmm outcome" where
  "adaptive_hmm_init hmm_ok config =
     (case config of
        None \<Rightarrow> Inl ADAPTIVE_ERR_ARGUMENT
      | Some c \<Rightarrow>
          if \<not> hmm_ok then Inl ADAPTIVE_ERR_ARGUMENT
          else
            let initial = normalize_values (initial_probability c);
                prior = map prior_row (transition_prior c);
                start = largest_probability initial
            in Inr \<lparr>probability = initial, transition = prior,
                 transition_count = map (map (dmul (transition_prior_strength c))) prior,
                 hmm_prior = prior, hmm_mean = emission_mean c, hmm_variance = emission_variance c,
                 hmm_alpha = emission_alpha c, hmm_forgetting = transition_forgetting c,
                 hmm_smoothing = transition_smoothing c, min_variance = min_emission_variance c,
                 hmm_state = start, previous_state = start, hmm_hold = recovery_hold c,
                 recovery_remaining = 0, observations = 0\<rparr>)"

section \<open>One observation\<close>

text \<open>The state that is selected and the new value of \<open>recovery_remaining\<close>.\<close>

definition select_state :: "nat \<Rightarrow> nat \<Rightarrow> nat \<Rightarrow> nat \<Rightarrow> nat \<times> nat" where
  "select_state hold from remaining candidate =
     (if from = state_num CONGESTED \<and> candidate \<noteq> state_num CONGESTED
      then (state_num RECOVERY, hold)
      else if from = state_num RECOVERY then
        if candidate = state_num CONGESTED then (state_num CONGESTED, 0)
        else if 0 < remaining then (state_num RECOVERY, remaining - 1)
        else if candidate = state_num RECOVERY then (state_num NORMAL, remaining)
        else (candidate, remaining)
      else if candidate = state_num RECOVERY then (state_num NORMAL, remaining)
      else (candidate, remaining))"

definition prediction :: "adaptive_hmm \<Rightarrow> nat \<Rightarrow> double" where
  "prediction hmm j =
     foldl (\<lambda>p i. dadd p (dmul (probability hmm ! i) (transition hmm ! i ! j)))
       dzero [0..<ADAPTIVE_STATE_COUNT]"

definition posterior :: "libm \<Rightarrow> adaptive_hmm \<Rightarrow> network_metrics \<Rightarrow> double list" where
  "posterior m hmm observation =
     (let emission_log = map (\<lambda>j. emission_log_probability m hmm j observation) [0..<ADAPTIVE_STATE_COUNT];
          max_log = foldl (\<lambda>mx e. if flt mx e then e else mx) (fneg dbl_max) emission_log
      in normalize_values (map (\<lambda>j. dmul (prediction hmm j) (m_exp m (dsub (emission_log ! j) max_log)))
           [0..<ADAPTIVE_STATE_COUNT]))"

text \<open>The probability vector after a selection the posterior did not ask for.\<close>

definition blend :: "double list \<Rightarrow> nat \<Rightarrow> double list" where
  "blend p selected =
     (let half = map (\<lambda>v. dmul v (ddec 5 1)) p
      in normalize_values (half[selected := dadd (half ! selected) (ddec 5 1)]))"

definition adaptive_hmm_step ::
    "libm \<Rightarrow> adaptive_hmm option \<Rightarrow> network_metrics option \<Rightarrow> bool \<Rightarrow>
     (nat \<times> double list) outcome \<times> adaptive_hmm option" where
  "adaptive_hmm_step m hmm normalized state_ok =
     (case (hmm, normalized) of
        (Some h, Some observation) \<Rightarrow>
          if \<not> state_ok then (Inl ADAPTIVE_ERR_ARGUMENT, hmm)
          else
            let post = posterior m h observation;
                candidate = largest_probability post;
                from = hmm_state h;
                (selected, remaining) = select_state (hmm_hold h) from (recovery_remaining h) candidate;
                h1 = h\<lparr>recovery_remaining := remaining, previous_state := from, hmm_state := selected,
                       probability := (if selected \<noteq> candidate then blend post selected else post)\<rparr>;
                h2 = update_emissions (update_transition h1 from selected) observation;
                h3 = h2\<lparr>observations := observations h2 + 1\<rparr>
            in (Inr (selected, probability h3), Some h3)
      | _ \<Rightarrow> (Inl ADAPTIVE_ERR_ARGUMENT, hmm))"

end
