(* ===== verification/Float_Bounds.thy ===== *)
theory Float_Bounds
  imports Float_Closure
begin

text \<open>
  Bounds that survive rounding. A bound that is itself a value of the format (the
  predicate \<open>grid\<close>) bounds a rounded result as soon as it bounds the exact one, so interval
  arguments over the reals carry over to doubles; \<open>dbl_in a b x\<close> says that a double is
  finite and lies between two bounds. Then the errors of a single rounding, and the
  square root.
\<close>

section \<open>The error of a rounding\<close>

lemma rnd_error: "x \<noteq> 0 \<Longrightarrow> \<bar>rnd F x - x\<bar> \<le> p2 (quant F \<bar>x\<bar> - 1)"
proof -
  have pos: "\<bar>rnd_pos F y - y\<bar> \<le> p2 (quant F y - 1)" if "0 < y" for y
  proof -
    have "\<bar>of_int (rhe (y / p2 (quant F y))) * p2 (quant F y) - y\<bar> =
        \<bar>of_int (rhe (y / p2 (quant F y))) - y / p2 (quant F y)\<bar> * p2 (quant F y)"
    proof -
      have "\<bar>a * u - y\<bar> = \<bar>a - y / u\<bar> * u" if "0 < u" for a u :: real
      proof -
        have "a * u - y = (a - y / u) * u" using that by (simp add: left_diff_distrib)
        then show ?thesis using that by (simp add: abs_mult)
      qed
      then show ?thesis by simp
    qed
    also have "\<dots> \<le> 1 / 2 * p2 (quant F y)" by (intro mult_right_mono rhe_error) simp
    finally show ?thesis using that by (simp add: rnd_pos_def p2_diff)
  qed
  assume "x \<noteq> 0"
  then show ?thesis using pos [of x] pos [of "- x"] by (cases "0 < x") (auto simp: rnd_def)
qed

text \<open>The relative error, above the subnormal range.\<close>

lemma rnd_relative:
  assumes "p2 (emin F + int (prec F) - 1) \<le> \<bar>x\<bar>"
  shows "\<bar>rnd F x - x\<bar> \<le> \<bar>x\<bar> * p2 (- int (prec F))"
proof -
  have x: "0 < \<bar>x\<bar>" using assms p2_pos less_le_trans by blast
  have "p2 (emin F + int (prec F) - 1) < p2 (flog \<bar>x\<bar> + 1)"
    using flog_bounds [OF x] assms by linarith
  then have q: "quant F \<bar>x\<bar> - 1 = flog \<bar>x\<bar> + - int (prec F)" by (simp add: quant_def)
  have "\<bar>rnd F x - x\<bar> \<le> p2 (quant F \<bar>x\<bar> - 1)" using x by (intro rnd_error) simp
  also have "\<dots> = p2 (flog \<bar>x\<bar>) * p2 (- int (prec F))" unfolding q by (rule p2_add)
  also have "\<dots> \<le> \<bar>x\<bar> * p2 (- int (prec F))"
    using flog_bounds [OF x] by (intro mult_right_mono) simp_all
  finally show ?thesis .
qed

text \<open>Adding at most half a unit in the last place to a power of two changes nothing.\<close>

lemma rnd_absorbs:
  assumes F: "valid_format F" and k: "emin F \<le> k - int (prec F) + 1"
    and x: "0 \<le> x" "x \<le> p2 (k - int (prec F))"
  shows "rnd F (p2 k + x) = p2 k"
proof -
  have pr: "2 \<le> prec F" using F by (simp add: valid_format_def)
  have "p2 (k - int (prec F)) < p2 k" using pr by simp
  then have "x < p2 k" using x(2) by linarith
  then have fl: "flog (p2 k + x) = k" using x by (intro flog_unique) (simp_all add: p2_add)
  then have q: "quant F (p2 k + x) = k - int (prec F) + 1" using k by (simp add: quant_def)
  define u where "u = p2 (k - int (prec F) + 1)"
  have u: "0 < u" "p2 k = 2 ^ (prec F - 1) * u" "x \<le> u / 2"
  proof -
    have "p2 k = p2 (int (prec F - 1) + (k - int (prec F) + 1))" using pr by simp
    then show "p2 k = 2 ^ (prec F - 1) * u" unfolding p2_add p2_int u_def .
    show "x \<le> u / 2" using x(2) by (simp add: u_def p2_add)
  qed (simp add: u_def)
  have "(p2 k + x) / u = of_int (2 ^ (prec F - 1)) + x / u" using u(1,2) by (simp add: add_divide_distrib)
  moreover have "0 \<le> x / u" "x / u \<le> 1 / 2" using x(1) u by (simp_all add: divide_le_eq)
  moreover have "even ((2 :: int) ^ (prec F - 1))" using pr by simp
  moreover have "\<lfloor>of_int n + y\<rfloor> = n" if "0 \<le> y" "y \<le> 1 / 2" for n :: int and y :: real
    using that by (intro floor_unique) simp_all
  ultimately have "rhe ((p2 k + x) / u) = 2 ^ (prec F - 1)"
    by (simp add: rhe_def Let_def)
  moreover have "p2 k + x \<noteq> 0" "0 \<le> p2 k + x" using x(1) p2_pos [of k] by linarith+
  moreover have "p2 (quant F (p2 k + x)) = u" by (simp only: q u_def)
  ultimately have "rnd F (p2 k + x) = of_int (2 ^ (prec F - 1)) * u" by (simp only: rnd_eq_pos rnd_pos_def if_False)
  then show ?thesis by (simp add: u(2))
qed

text \<open>A rounded number is a value of the format, up to the overflow threshold.\<close>

lemma rnd_idem: assumes F: "valid_format F" shows "rnd F (rnd F x) = rnd F x"
proof -
  have pos: "rnd F (rnd_pos F y) = rnd_pos F y" if y: "0 < y" for y
  proof -
    define q r where "q = quant F y" and "r = rhe (y / p2 q)"
    have v: "rnd_pos F y = of_int r * p2 q" using y by (simp add: rnd_pos_def q_def r_def)
    have q: "emin F \<le> q" by (simp add: q_def quant_def)
    have r: "0 \<le> r" "r \<le> 2 ^ prec F"
      using rhe_scaled_le [OF y, of F] y by (simp_all add: r_def q_def rhe_nonneg)
    show ?thesis
    proof (cases "r = 2 ^ prec F")
      case True
      then have "rnd_pos F y = p2 (int (prec F) + q)" by (simp add: v p2_add p2_int)
      then show ?thesis using rnd_p2 [OF F, of "int (prec F) + q"] q by simp
    next
      case False
      then show ?thesis
        using rnd_representable_pos [OF F r(1) _ q] r rnd_pos_nonneg [of y F] y by (simp add: v rnd_eq_pos)
    qed
  qed
  consider "x = 0" | "0 < x" | "0 < - x" by linarith
  then show ?thesis
  proof cases
    case 3
    then have "rnd F x = - rnd_pos F (- x)" by (simp add: rnd_def)
    then show ?thesis using pos [OF 3] by (simp add: rnd_minus)
  qed (use pos in \<open>simp_all add: rnd_eq_pos\<close>)
qed

section \<open>Bounds that are values of the format\<close>

definition big :: real where "big = p2 1000"

definition grid :: "real \<Rightarrow> bool" where
  "grid b \<longleftrightarrow> rnd binary64 b = b \<and> \<bar>b\<bar> \<le> big"

lemma big_pos [simp]: "0 < big" "1 \<le> big"
proof -
  have "p2 0 \<le> p2 1000" unfolding p2_le by simp
  then show "0 < big" "1 \<le> big" by (simp_all add: big_def)
qed

lemma p2_big: "k \<le> 1000 \<Longrightarrow> p2 k \<le> big"
  unfolding big_def p2_le .

lemma grid_zero [simp]: "grid 0"
  by (simp add: grid_def less_imp_le)

lemma grid_minus [simp]: "grid (- b) = grid b"
  by (simp add: grid_def rnd_minus)

lemma grid_p2 [simp]: "- 1074 \<le> k \<Longrightarrow> k \<le> 1000 \<Longrightarrow> grid (p2 k)"
  using rnd_p2 [OF valid_format_binary(1), of k] by (simp add: grid_def p2_big binary64_def)

lemma grid_one [simp]: "grid 1"
  using grid_p2 [of 0] by simp

lemma grid_fval: "wfd x \<Longrightarrow> \<bar>fval x\<bar> \<le> big \<Longrightarrow> grid (fval x)"
  by (simp add: grid_def)

lemma in_range_double: "\<bar>x\<bar> \<le> big \<Longrightarrow> in_range binary64 x"
  unfolding big_def by (erule in_range_p2 [OF valid_format_binary(1)]) (simp_all add: binary64_def)

lemma rnd_between:
  assumes "grid a" "grid b" "a \<le> x" "x \<le> b"
  shows "a \<le> rnd binary64 x" "rnd binary64 x \<le> b" "in_range binary64 x"
proof -
  show "a \<le> rnd binary64 x" "rnd binary64 x \<le> b"
    using rnd_mono [OF valid_format_binary(1) assms(3)] rnd_mono [OF valid_format_binary(1) assms(4)] assms(1,2)
    by (simp_all add: grid_def)
  have "\<bar>x\<bar> \<le> big" using assms by (auto simp: grid_def)
  then show "in_range binary64 x" by (rule in_range_double)
qed

definition dbl_in :: "real \<Rightarrow> real \<Rightarrow> double \<Rightarrow> bool" where
  "dbl_in a b x \<longleftrightarrow> wfd x \<and> fisfinite x \<and> a \<le> fval x \<and> fval x \<le> b"

lemma dbl_in_facts: "dbl_in a b x \<Longrightarrow> wfd x" "dbl_in a b x \<Longrightarrow> fisfinite x"
  "dbl_in a b x \<Longrightarrow> a \<le> fval x" "dbl_in a b x \<Longrightarrow> fval x \<le> b"
  by (simp_all add: dbl_in_def)

lemma dbl_in_weaken: "dbl_in a b x \<Longrightarrow> c \<le> a \<Longrightarrow> b \<le> d \<Longrightarrow> dbl_in c d x"
  by (auto simp: dbl_in_def)

lemma dbl_in_zero: "a \<le> 0 \<Longrightarrow> 0 \<le> b \<Longrightarrow> dbl_in a b dzero"
  using wff_dzero(1) by (simp add: dbl_in_def smant_def del: wff.simps)

lemma dadd_in:
  assumes x: "wfd x" "fisfinite x" and y: "wfd y" "fisfinite y"
    and b: "grid a" "grid b" "a \<le> fval x + fval y" "fval x + fval y \<le> b"
  shows "dbl_in a b (dadd x y)" "fval (dadd x y) = rnd binary64 (fval x + fval y)"
  using fadd_facts [OF valid_format_binary(1) x(2) y(2)] rnd_between [OF b] by (simp_all add: dbl_in_def)

lemma dsub_in:
  assumes x: "wfd x" "fisfinite x" and y: "wfd y" "fisfinite y"
    and b: "grid a" "grid b" "a \<le> fval x - fval y" "fval x - fval y \<le> b"
  shows "dbl_in a b (dsub x y)" "fval (dsub x y) = rnd binary64 (fval x - fval y)"
  using fsub_facts [OF valid_format_binary(1) x(2) y(2)] rnd_between [OF b] by (simp_all add: dbl_in_def)

lemma dmul_in:
  assumes x: "wfd x" "fisfinite x" and y: "wfd y" "fisfinite y"
    and b: "grid a" "grid b" "a \<le> fval x * fval y" "fval x * fval y \<le> b"
  shows "dbl_in a b (dmul x y)" "fval (dmul x y) = rnd binary64 (fval x * fval y)"
  using fmul_facts [OF valid_format_binary(1) x(2,1) y(2,1)] rnd_between [OF b] by (simp_all add: dbl_in_def)

lemma ddiv_in:
  assumes x: "wfd x" "fisfinite x" and y: "wfd y" "fisfinite y" "fval y \<noteq> 0"
    and b: "grid a" "grid b" "a \<le> fval x / fval y" "fval x / fval y \<le> b"
  shows "dbl_in a b (ddiv x y)" "fval (ddiv x y) = rnd binary64 (fval x / fval y)"
  using fdiv_facts [OF valid_format_binary(1) x(2,1) y(2,1,3)] rnd_between [OF b] by (simp_all add: dbl_in_def)

text \<open>A quotient of finite values is never NaN, and overflows only to an infinity.\<close>

lemma roundf_not_nan: "roundf F s n d e \<noteq> FNaN"
  by (auto simp: roundf_def Let_def split: prod.splits)

lemma ddiv_not_nan: "fisfinite x \<Longrightarrow> fisfinite y \<Longrightarrow> wff F y \<Longrightarrow> fval y \<noteq> 0 \<Longrightarrow> ddiv x y \<noteq> FNaN"
  by (cases x; cases y) (auto simp: roundf_not_nan)

text \<open>A sum stays below a power of two when the second term is too small to be seen there.\<close>

lemma dadd_absorbs:
  assumes x: "dbl_in 0 (p2 k) x" and y: "dbl_in 0 (p2 j) y" and k: "j \<le> k - 53" "-1000 \<le> k" "k \<le> 900"
  shows "dbl_in 0 (p2 k) (dadd x y)"
proof -
  have F: "valid_format binary64" by simp
  note xf = dbl_in_facts [OF x] and yf = dbl_in_facts [OF y]
  have jk: "p2 j \<le> p2 (k - 53)" "p2 (k - 53) \<le> p2 k" unfolding p2_le using k(1) by simp_all
  have "fval x + fval y \<le> 2 * p2 k" using xf(4) yf(4) jk by linarith
  then have "fval x + fval y \<le> p2 (k + 1)" by (simp add: p2_add)
  then have s: "dbl_in 0 (p2 (k + 1)) (dadd x y)" "fval (dadd x y) = rnd binary64 (fval x + fval y)"
    using dadd_in [OF xf(1,2) yf(1,2) grid_zero grid_p2, of "k + 1"] xf(3) yf(3) k by simp_all
  have "rnd binary64 (fval x + fval y) \<le> rnd binary64 (p2 k + p2 (k - 53))"
    using xf yf jk by (intro rnd_mono [OF F]) linarith
  also have "\<dots> = p2 k" using rnd_absorbs [OF F, of k "p2 (k - 53)"] k by (simp add: binary64_def)
  finally show ?thesis using s by (simp add: dbl_in_def)
qed

lemma dmul_unit:
  assumes r: "dbl_in 0 1 r" and x: "dbl_in 0 b x" and b: "grid b"
  shows "dbl_in 0 b (dmul r x)"
proof -
  note rf = dbl_in_facts [OF r] and xf = dbl_in_facts [OF x]
  have "fval r * fval x \<le> 1 * b" using rf xf by (intro mult_mono) auto
  then show ?thesis using dmul_in(1) [OF rf(1,2) xf(1,2) grid_zero b] rf xf by simp
qed

section \<open>The square root\<close>

lemma isqrt_spec: "0 \<le> n \<Longrightarrow> isqrt n * isqrt n \<le> n \<and> n < (isqrt n + 1) * (isqrt n + 1)"
proof (induction n rule: isqrt.induct)
  case (1 n)
  show ?case
  proof (cases "n = 0")
    case False
    then have n: "\<not> n \<le> 0" using 1 by simp
    define r where "r = isqrt (n div 4)"
    have r: "r * r \<le> n div 4" "n div 4 < (r + 1) * (r + 1)" "0 \<le> r"
      using 1(1) [OF n] 1(2) isqrt_nonneg by (simp_all add: r_def)
    have "4 * (n div 4) \<le> n" "n \<le> 4 * (n div 4) + 3" by presburger+
    then have "2 * r * (2 * r) \<le> n" "n < (2 * r + 2) * (2 * r + 2)"
      using r by (simp_all add: algebra_simps)
    then show ?thesis using n by (subst (1 2 3 4) isqrt.simps) (auto simp: Let_def r_def [symmetric] algebra_simps)
  qed (simp add: isqrt.simps)
qed

lemma isqrt_ge: "0 \<le> k \<Longrightarrow> k * k \<le> n \<Longrightarrow> k \<le> isqrt n"
proof (rule ccontr)
  assume k: "0 \<le> k" "k * k \<le> n" "\<not> k \<le> isqrt n"
  then have "(isqrt n + 1) * (isqrt n + 1) \<le> k * k"
    using isqrt_nonneg [of n] by (intro mult_mono) auto
  moreover have "0 \<le> n" using k(1,2) by (meson order_trans zero_le_mult_iff)
  ultimately show False using isqrt_spec [of n] k(2) by linarith
qed

text \<open>The square root of a positive double is positive; it may not be NaN.\<close>

lemma dsqrt_pos:
  assumes "wfd x" "fisfinite x" "0 < fval x"
  shows "wfd (dsqrt x)" "fisfinite (dsqrt x) \<Longrightarrow> 0 < fval (dsqrt x)" "dsqrt x = FInf False \<or> fisfinite (dsqrt x)"
proof -
  obtain s m e where x: "x = Fin s m e" using assms(2) by (cases x) auto
  have m: "0 < m" "\<not> s" "-1074 \<le> e" "0 \<le> m"
    using assms by (auto simp: x smant_def zero_less_mult_iff binary64_def split: if_splits)
  show w: "wfd (dsqrt x)" by (rule wff_fsqrt [OF _ assms(1)]) simp
  define m' e' where "m' = (if even e then m else 2 * m)" and "e' = (if even e then e else e - 1)"
  define k where "k = m' * 4 ^ 55"
  define n where "n = 2 * isqrt k + (if isqrt k * isqrt k = k then 0 else 1)"
  have r: "dsqrt x = roundf binary64 False n 1 (e' div 2 - 56)"
    using m by (simp add: x n_def k_def m'_def e'_def Let_def binary64_def cong: if_cong)
  have "(2 :: int) ^ 55 * 2 ^ 55 \<le> k" using m by (simp add: k_def m'_def)
  then have "2 ^ 55 \<le> isqrt k" by (intro isqrt_ge) simp_all
  then have n: "2 ^ 56 \<le> n" by (simp add: n_def)
  then have n0: "0 \<le> n" by simp
  have eq: "real_of_int n * p2 (e' div 2 - 56) = (if False then -1 else 1) * (of_int n / of_int 1 * p2 (e' div 2 - 56))"
    by simp
  note f = roundf_facts [OF valid_format_binary(1) n0 zero_less_one eq]
  have "p2 (e' div 2) \<le> of_int n * p2 (e' div 2 - 56)"
  proof -
    have "p2 (e' div 2) = of_int (2 ^ 56) * p2 (e' div 2 - 56)" by (simp add: p2_diff)
    also have "\<dots> \<le> of_int n * p2 (e' div 2 - 56)" using n by (intro mult_right_mono) (simp_all only: of_int_le_iff p2_pos less_imp_le)
    finally show ?thesis .
  qed
  moreover have "-1074 \<le> e' div 2" using m(3) unfolding e'_def by (simp split: if_split, presburger)
  ultimately have "p2 (e' div 2) \<le> rnd binary64 (of_int n * p2 (e' div 2 - 56))"
    using rnd_mono [OF valid_format_binary(1)] rnd_p2 [OF valid_format_binary(1), of "e' div 2"] by (metis (no_types, lifting) binary64_def fpformat.select_convs(2))
  then have "0 < rnd binary64 (of_int n * p2 (e' div 2 - 56))" using p2_pos less_le_trans by blast
  then show "fisfinite (dsqrt x) \<Longrightarrow> 0 < fval (dsqrt x)" "dsqrt x = FInf False \<or> fisfinite (dsqrt x)"
    using f unfolding r by auto
qed

section \<open>Moving a mean towards an observation\<close>

text \<open>
  \<open>mean + rate * (x - mean)\<close> with a rate between 0 and 1 stays inside every interval
  \<open>[-2^k, 2^k]\<close> that holds both, although all three operations round: the first rounding
  can overshoot by half a unit in the last place, which the last one absorbs.
\<close>

lemma mean_step_real:
  fixes m x r :: real
  assumes k: "0 \<le> k" "k \<le> 900" and m: "\<bar>m\<bar> \<le> p2 k" and x: "\<bar>x\<bar> \<le> p2 k" and r: "0 \<le> r" "r \<le> 1"
  defines "d \<equiv> rnd binary64 (x - m)"
  shows "m + rnd binary64 (r * d) \<le> p2 k + p2 (k - 53)"
proof (cases "0 < d")
  case False
  then have "rnd binary64 (r * d) \<le> 0" using r by (intro rnd_nonpos) (simp add: mult_nonneg_nonpos)
  moreover have "0 < p2 (k - 53)" by simp
  ultimately show ?thesis using m by linarith
next
  case True
  have F: "valid_format binary64" by simp
  have dd: "rnd binary64 d = d" unfolding d_def by (rule rnd_idem [OF F])
  have "rnd binary64 (r * d) \<le> rnd binary64 d"
    using True r by (intro rnd_mono [OF F]) (simp add: mult_left_le_one_le)
  also have "\<dots> = d" by (rule dd)
  also have "d \<le> rnd binary64 (p2 k - m)" unfolding d_def using x by (intro rnd_mono [OF F]) simp
  finally have w: "rnd binary64 (r * d) \<le> rnd binary64 (p2 k - m)" .
  define z where "z = p2 k - m"
  have z: "0 \<le> z" "z \<le> p2 (k + 1)" using m by (auto simp: z_def p2_add)
  have "rnd binary64 z \<le> z + p2 (k - 53)"
  proof (cases "z = 0 \<or> z = p2 (k + 1)")
    case True
    then show ?thesis using rnd_p2 [OF F, of "k + 1"] k by (auto simp: binary64_def)
  next
    case False
    then have z': "0 < z" "z < p2 (k + 1)" using z by auto
    then have "p2 (flog z) < p2 (k + 1)" using flog_bounds [of z] by linarith
    then have "flog z \<le> k" by simp
    then have "quant binary64 z - 1 \<le> k - 53" using k by (simp add: quant_def binary64_def)
    then have "p2 (quant binary64 z - 1) \<le> p2 (k - 53)" unfolding p2_le .
    moreover have "rnd binary64 z \<le> z + p2 (quant binary64 z - 1)"
      using rnd_error [of z binary64] z' by (simp add: abs_if split: if_splits)
    ultimately show ?thesis by linarith
  qed
  then show ?thesis using w by (simp add: z_def)
qed

lemma mean_step:
  assumes k: "0 \<le> k" "k \<le> 900"
    and m: "dbl_in (- p2 k) (p2 k) mean" and x: "dbl_in (- p2 k) (p2 k) x" and r: "dbl_in 0 1 rate"
  shows "dbl_in (- p2 k) (p2 k) (dadd mean (dmul rate (dsub x mean)))"
    and "dbl_in (- p2 (k + 1)) (p2 (k + 1)) (dsub x mean)"
    and "dbl_in (- p2 (k + 1)) (p2 (k + 1)) (dmul rate (dsub x mean))"
proof -
  have F: "valid_format binary64" by simp
  note mf = dbl_in_facts [OF m] and xf = dbl_in_facts [OF x] and rf = dbl_in_facts [OF r]
  have g: "grid (p2 (k + 1))" "grid (- p2 (k + 1))" using k by simp_all
  have two: "p2 (k + 1) = 2 * p2 k" by (simp add: p2_add)
  have "- p2 (k + 1) \<le> fval x - fval mean" "fval x - fval mean \<le> p2 (k + 1)" using mf xf by (simp_all add: two)
  note d = dsub_in [OF xf(1,2) mf(1,2) g(2,1) this]
  then show "dbl_in (- p2 (k + 1)) (p2 (k + 1)) (dsub x mean)" by simp
  note df = dbl_in_facts [OF d(1)]
  have "\<bar>fval rate * fval (dsub x mean)\<bar> \<le> 1 * p2 (k + 1)"
    unfolding abs_mult using rf df by (intro mult_mono) auto
  then have "- p2 (k + 1) \<le> fval rate * fval (dsub x mean)" "fval rate * fval (dsub x mean) \<le> p2 (k + 1)" by auto
  note w = dmul_in [OF rf(1,2) df(1,2) g(2,1) this]
  then show "dbl_in (- p2 (k + 1)) (p2 (k + 1)) (dmul rate (dsub x mean))" by simp
  note wf = dbl_in_facts [OF w(1)]
  have ab: "rnd binary64 (p2 k + p2 (k - 53)) = p2 k"
    using rnd_absorbs [OF F, of k "p2 (k - 53)"] k by (simp add: binary64_def)
  have up: "fval mean + fval (dmul rate (dsub x mean)) \<le> p2 k + p2 (k - 53)"
    unfolding w(2) d(2) by (rule mean_step_real) (use k mf xf rf in auto)
  have low: "- fval mean - fval (dmul rate (dsub x mean)) \<le> p2 k + p2 (k - 53)"
  proof -
    have e: "- fval x - - fval mean = - (fval x - fval mean)" by simp
    have n: "fval rate * - y = - (fval rate * y)" for y by simp
    show ?thesis
      using mean_step_real [OF k, of "- fval mean" "- fval x" "fval rate", unfolded e rnd_minus n] mf(3,4) xf(3,4) rf(3,4)
      unfolding w(2) d(2) by simp
  qed
  have "rnd binary64 (fval mean + fval (dmul rate (dsub x mean))) \<le> p2 k"
    using rnd_mono [OF F up] by (simp add: ab)
  moreover have "- p2 k \<le> rnd binary64 (fval mean + fval (dmul rate (dsub x mean)))"
  proof -
    have e: "- fval mean - w = - (fval mean + w)" for w by simp
    show ?thesis using rnd_mono [OF F low] unfolding e rnd_minus ab by simp
  qed
  moreover have "in_range binary64 (fval mean + fval (dmul rate (dsub x mean)))"
  proof (rule in_range_p2 [OF F, of _ "k + 1"])
    have "p2 (k - 53) \<le> p2 k" unfolding p2_le by simp
    then show "\<bar>fval mean + fval (dmul rate (dsub x mean))\<bar> \<le> p2 (k + 1)" using up low two by linarith
  qed (use k in \<open>simp_all add: binary64_def\<close>)
  ultimately show "dbl_in (- p2 k) (p2 k) (dadd mean (dmul rate (dsub x mean)))"
    using fadd_facts [OF F mf(2) wf(2)] by (simp add: dbl_in_def)
qed

text \<open>The square a variance moves by, \<open>(rate * d) * d\<close>, is never negative.\<close>

lemma rate_square:
  assumes k: "0 \<le> k" "k \<le> 450" and d: "dbl_in (- p2 k) (p2 k) d" and r: "dbl_in 0 1 rate"
  shows "dbl_in 0 (p2 (2 * k)) (dmul (dmul rate d) d)"
proof -
  note df = dbl_in_facts [OF d] and rf = dbl_in_facts [OF r]
  have "\<bar>fval rate * fval d\<bar> \<le> 1 * p2 k" unfolding abs_mult using rf df by (intro mult_mono) auto
  then have w: "dbl_in (- p2 k) (p2 k) (dmul rate d)" "fval (dmul rate d) = rnd binary64 (fval rate * fval d)"
    using dmul_in [OF rf(1,2) df(1,2), of "- p2 k" "p2 k"] k by (simp_all add: abs_le_iff)
  note wf = dbl_in_facts [OF w(1)]
  have sgn: "0 \<le> fval (dmul rate d) * fval d"
    using rnd_nonneg [of "fval rate * fval d" binary64] rnd_nonpos [of "fval rate * fval d" binary64] rf(3)
    unfolding w(2) by (cases "0 \<le> fval d") (simp_all add: mult_nonneg_nonpos mult_nonpos_nonpos)
  have "\<bar>fval (dmul rate d) * fval d\<bar> \<le> p2 k * p2 k" unfolding abs_mult using wf df by (intro mult_mono) auto
  also have "\<dots> = p2 (2 * k)" by (simp add: p2_add [symmetric])
  finally show ?thesis using sgn k by (intro dmul_in [OF wf(1,2) df(1,2) grid_zero grid_p2]) auto
qed

end
