(* ===== verification/Metrics_Properties.thy ===== *)
theory Metrics_Properties
  imports Metrics Float_Bounds
begin

text \<open>
  The invariant of the normaliser: on metrics of a sane magnitude its baseline stays
  finite, the variance never falls below the configured floor, and the scores it hands on
  are numbers between -6 and 6.
\<close>

declare One_nat_def [simp del]

definition metric_bound :: real where "metric_bound = p2 300"
definition variance_bound :: real where "variance_bound = p2 700"

lemma metric_bounds [simp]: "0 < metric_bound" "0 < variance_bound" "grid metric_bound" "grid variance_bound"
    "1 \<le> metric_bound" "1 \<le> variance_bound"
proof -
  have "p2 0 \<le> p2 300" "p2 0 \<le> p2 700" unfolding p2_le by simp_all
  then show "1 \<le> metric_bound" "1 \<le> variance_bound" by (simp_all add: metric_bound_def variance_bound_def)
  show "grid metric_bound" "grid variance_bound"
    using grid_p2 [of 300] grid_p2 [of 700] by (simp_all add: metric_bound_def variance_bound_def del: grid_p2)
qed (simp_all add: metric_bound_def variance_bound_def)

abbreviation sane_metric :: "double \<Rightarrow> bool" where
  "sane_metric \<equiv> dbl_in (- metric_bound) metric_bound"

text \<open>Five metrics, finite and of a magnitude below \<open>2^300\<close>.\<close>

definition sane_metrics :: "network_metrics \<Rightarrow> bool" where
  "sane_metrics x \<longleftrightarrow> length x = 5 \<and> (\<forall>i < 5. sane_metric (x ! i))"

definition normalizer_inv :: "adaptive_normalizer \<Rightarrow> bool" where
  "normalizer_inv n \<longleftrightarrow>
     dbl_in 0 1 (nz_alpha n) \<and> dbl_in 0 1 (nz_epsilon n) \<and> 0 < fval (nz_epsilon n) \<and>
     (nz_initialized n \<longrightarrow>
        (\<forall>i < 5. sane_metric (nz_mean n ! i) \<and>
          dbl_in (fval (nz_epsilon n)) variance_bound (nz_variance n ! i)))"

section \<open>Constants\<close>

lemma metric_constants:
  "ddec 60 1 = Fin False 6755399441055744 (-50)" "ddec (-60) 1 = Fin True 6755399441055744 (-50)"
  "ddec 10 1 = Fin False 4503599627370496 (-52)" "ddec 1 1 = Fin False 7205759403792794 (-56)"
  by code_simp+

lemma metric_constant_values:
  "fval (ddec 60 1) = 6" "fval (ddec (-60) 1) = -6" "fval (ddec 10 1) = 1"
  "fisfinite (ddec 60 1)" "fisfinite (ddec (-60) 1)" "fisfinite (ddec 10 1)" "fisfinite (ddec 1 1)"
  "0 \<le> fval (ddec 1 1)" "fval (ddec 1 1) \<le> 1"
  unfolding metric_constants by (simp_all add: smant_def power_int_minus divide_simps)

lemma grid_six [simp]: "grid 6"
proof -
  have "p2 3 \<le> big" by (rule p2_big) simp
  then have "\<bar>fval (ddec 60 1)\<bar> \<le> big" by (simp add: metric_constant_values)
  then show ?thesis using grid_fval [OF wff_ddec, of 60 1] by (simp add: metric_constant_values)
qed

section \<open>The clamp\<close>

definition clamp_six :: "double \<Rightarrow> double" where
  "clamp_six z = (let z2 = (if flt (ddec 60 1) z then ddec 60 1 else z)
     in if flt z2 (ddec (-60) 1) then ddec (-60) 1 else z2)"

lemma clamp_six_in:
  assumes "wfd z" "z \<noteq> FNaN" shows "dbl_in (-6) 6 (clamp_six z)"
proof -
  have six: "dbl_in (-6) 6 (ddec 60 1)" "dbl_in (-6) 6 (ddec (-60) 1)"
    using metric_constant_values wff_ddec by (simp_all add: dbl_in_def del: wff.simps)
  have order: "\<not> flt (ddec 60 1) (ddec (-60) 1)"
    by (simp add: flt_fval metric_constant_values)
  show ?thesis
  proof (cases "fisfinite z")
    case True
    then show ?thesis
      using six order assms(1)
      by (auto simp: clamp_six_def Let_def flt_fval metric_constant_values dbl_in_def simp del: wff.simps)
  next
    case False
    then obtain s where z: "z = FInf s" using assms(2) by (cases z) auto
    show ?thesis
      using six order
      by (cases s) (simp_all add: clamp_six_def z Let_def metric_constants del: wff.simps)
  qed
qed

lemma z_score_clamp:
  "z_score n raw metric =
     clamp_six (let z = ddiv (dsub (raw ! metric) (nz_mean n ! metric))
                  (dsqrt (dadd (nz_variance n ! metric) (nz_epsilon n)))
                in if metric = metric_num GOODPUT then fneg z else z)"
  by (simp add: z_score_def clamp_six_def Let_def)

section \<open>One entry of the baseline\<close>

lemma one_minus_rate: "dbl_in 0 1 r \<Longrightarrow> dbl_in 0 1 (dsub (ddec 10 1) r)"
proof -
  assume "dbl_in 0 1 r"
  note rf = dbl_in_facts [OF this]
  show ?thesis by (rule dsub_in [OF wff_ddec _ rf(1,2)]) (use rf metric_constant_values in simp_all)
qed

lemma normalizer_entry:
  assumes "normalizer_inv n" "nz_initialized n" "sane_metrics raw" "i < 5"
  shows "dbl_in 0 1 (nz_alpha n)" "dbl_in 0 1 (nz_epsilon n)" "0 < fval (nz_epsilon n)"
    "sane_metric (nz_mean n ! i)" "dbl_in (fval (nz_epsilon n)) variance_bound (nz_variance n ! i)"
    "sane_metric (raw ! i)" "dbl_in (- p2 301) (p2 301) (dsub (raw ! i) (nz_mean n ! i))"
  using assms mean_step(2) [of 300 "nz_mean n ! i" "raw ! i" "nz_alpha n"]
  by (simp_all add: normalizer_inv_def sane_metrics_def metric_bound_def)

lemma next_mean_in:
  assumes "normalizer_inv n" "nz_initialized n" "sane_metrics raw" "i < 5"
  shows "sane_metric (next_mean n raw i)"
  unfolding next_mean_def metric_bound_def
  using mean_step(1) [of 300 "nz_mean n ! i" "raw ! i" "nz_alpha n"] normalizer_entry [OF assms]
  by (simp add: metric_bound_def)

lemma epsilon_grid: "normalizer_inv n \<Longrightarrow> grid (fval (nz_epsilon n))"
proof -
  assume "normalizer_inv n"
  then have "wfd (nz_epsilon n)" "0 < fval (nz_epsilon n)" "fval (nz_epsilon n) \<le> 1"
    by (simp_all add: normalizer_inv_def dbl_in_def)
  then show ?thesis using big_pos by (intro grid_fval) linarith+
qed

lemma z_score_in:
  assumes "normalizer_inv n" "nz_initialized n" "sane_metrics raw" "i < 5"
  shows "dbl_in (-6) 6 (z_score n raw i)"
proof -
  note e = normalizer_entry [OF assms]
  note df = dbl_in_facts [OF e(7)] and vf = dbl_in_facts [OF e(5)] and ef = dbl_in_facts [OF e(2)]
  let ?s = "dadd (nz_variance n ! i) (nz_epsilon n)"
  have "p2 701 = 2 * variance_bound" using p2_add [of 700 1] unfolding variance_bound_def by simp
  then have up: "fval (nz_variance n ! i) + fval (nz_epsilon n) \<le> p2 701"
    using vf(4) ef(4) metric_bounds(6) by linarith
  have s: "dbl_in (fval (nz_epsilon n)) (p2 701) ?s"
    by (rule dadd_in [OF vf(1,2) ef(1,2) epsilon_grid [OF assms(1)] grid_p2]) (use e(3) vf up in simp_all)
  note sf = dbl_in_facts [OF s]
  have sp: "0 < fval ?s" using sf(3) e(3) by simp
  note q = dsqrt_pos [OF sf(1,2) sp]
  define d z where "d = dsub (raw ! i) (nz_mean n ! i)" and "z = ddiv d (dsqrt ?s)"
  have "z \<noteq> FNaN"
  proof (cases "fisfinite (dsqrt ?s)")
    case True
    then show ?thesis unfolding z_def d_def using q df by (intro ddiv_not_nan) auto
  next
    case False
    then show ?thesis using q(3) df(2) by (cases d) (auto simp: z_def d_def)
  qed
  moreover have "wfd z" unfolding z_def d_def by (rule wff_fdiv [OF _ df(1) q(1)]) simp
  moreover have "wfd (fneg z) = wfd z" "fneg z \<noteq> FNaN \<longleftrightarrow> z \<noteq> FNaN" by (cases z; simp)+
  ultimately show ?thesis
    unfolding z_score_clamp Let_def z_def [symmetric] d_def [symmetric] by (auto intro: clamp_six_in)
qed

lemma next_variance_in:
  assumes "normalizer_inv n" "nz_initialized n" "sane_metrics raw" "i < 5"
  shows "dbl_in (fval (nz_epsilon n)) variance_bound (next_variance n raw i)"
proof -
  note e = normalizer_entry [OF assms]
  note vf = dbl_in_facts [OF e(5)] and ef = dbl_in_facts [OF e(2)]
  define d where "d = dsub (raw ! i) (nz_mean n ! i)"
  define w where "w = dmul (nz_alpha n) d"
  have dd: "dbl_in (- p2 301) (p2 301) d" using e(7) by (simp add: d_def)
  have wd: "dbl_in 0 (p2 602) (dmul w d)" using rate_square [OF _ _ dd e(1)] by (simp add: w_def)
  have v: "dbl_in 0 variance_bound (nz_variance n ! i)" using dbl_in_weaken [OF e(5)] e(3) by simp
  have sum: "dbl_in 0 variance_bound (dadd (nz_variance n ! i) (dmul w d))"
    using dadd_absorbs [OF v [unfolded variance_bound_def] wd] by (simp add: variance_bound_def)
  have one: "dbl_in 0 1 (dsub (ddec 10 1) (nz_alpha n))" by (rule one_minus_rate [OF e(1)])
  have p: "dbl_in 0 variance_bound (dmul (dsub (ddec 10 1) (nz_alpha n)) (dadd (nz_variance n ! i) (dmul w d)))"
    by (rule dmul_unit [OF one sum]) simp
  have "fval (nz_epsilon n) \<le> variance_bound" using ef(4) metric_bounds(6) by linarith
  then show ?thesis
    using p ef
    unfolding next_variance_def d_def [symmetric] w_def [symmetric] Let_def
    by (auto simp: dbl_in_def flt_fval simp del: wff.simps)
qed

lemma first_variance_in:
  assumes "sane_metric x" shows "dbl_in 1 variance_bound (first_variance x)"
proof -
  note xf = dbl_in_facts [OF assms]
  have ax: "dbl_in 0 metric_bound (fabs x)" using xf by (simp add: dbl_in_def fabs_fval del: wff.simps)
  have c: "dbl_in 0 1 (ddec 1 1)" using metric_constant_values wff_ddec by (simp add: dbl_in_def del: wff.simps)
  note cf = dbl_in_facts [OF c] and axf = dbl_in_facts [OF ax]
  have "fval (fabs x) * fval (ddec 1 1) \<le> metric_bound * 1"
    using cf axf by (intro mult_mono) auto
  then have s: "dbl_in 0 metric_bound (dmul (fabs x) (ddec 1 1))"
    using cf axf by (intro dmul_in [OF axf(1,2) cf(1,2)]) simp_all
  define scale where "scale = (if flt (dmul (fabs x) (ddec 1 1)) (ddec 10 1) then ddec 10 1 else dmul (fabs x) (ddec 1 1))"
  have sc: "dbl_in 1 metric_bound scale"
    using s metric_constant_values wff_ddec [of 10 1] by (auto simp: scale_def dbl_in_def flt_fval simp del: wff.simps)
  note sf = dbl_in_facts [OF sc]
  have "1 * 1 \<le> fval scale * fval scale" using sf(3) by (intro mult_mono) auto
  moreover have "fval scale * fval scale \<le> metric_bound * metric_bound" using sf by (intro mult_mono) auto
  moreover have "metric_bound * metric_bound \<le> variance_bound"
  proof -
    have "metric_bound * metric_bound = p2 600" by (simp add: metric_bound_def p2_add [symmetric])
    also have "\<dots> \<le> variance_bound" unfolding variance_bound_def p2_le by simp
    finally show ?thesis .
  qed
  ultimately show ?thesis
    unfolding first_variance_def Let_def scale_def [symmetric]
    by (intro dmul_in [OF sf(1,2) sf(1,2)]) simp_all
qed

section \<open>The operation\<close>

lemma normalizer_update_keeps:
  assumes inv: "normalizer_inv n" and raw: "sane_metrics raw"
  shows "\<exists>z n'. adaptive_normalizer_update (Some n) (Some raw) True = (Inr z, Some n') \<and>
    length z = 5 \<and> (\<forall>i < 5. dbl_in (-6) 6 (z ! i)) \<and>
    (\<not> nz_initialized n \<longrightarrow> z = replicate 5 dzero) \<and>
    normalizer_inv n' \<and> nz_initialized n' \<and> nz_alpha n' = nz_alpha n \<and> nz_epsilon n' = nz_epsilon n"
proof (cases "nz_initialized n")
  case True
  have fin: "list_all (\<lambda>metric. fisfinite (raw ! metric)) [0..<5]"
    using raw by (auto simp: sane_metrics_def dbl_in_def list_all_iff)
  show ?thesis
    using True fin inv z_score_in [OF inv True raw] next_mean_in [OF inv True raw] next_variance_in [OF inv True raw]
    by (simp add: adaptive_normalizer_update_def adaptive_bounds normalizer_inv_def)
next
  case False
  have fin: "list_all (\<lambda>metric. fisfinite (raw ! metric)) [0..<5]"
    using raw by (auto simp: sane_metrics_def dbl_in_def list_all_iff)
  have e: "fval (nz_epsilon n) \<le> 1" using inv by (simp add: normalizer_inv_def dbl_in_def)
  have v: "i < 5 \<Longrightarrow> dbl_in (fval (nz_epsilon n)) variance_bound (first_variance (raw ! i))" for i
    using first_variance_in [of "raw ! i"] raw e by (auto simp: sane_metrics_def intro: dbl_in_weaken)
  have z: "dbl_in (-6) 6 dzero" by (rule dbl_in_zero) simp_all
  show ?thesis
    using False fin inv v raw z
    by (simp add: adaptive_normalizer_update_def adaptive_bounds normalizer_inv_def sane_metrics_def)
qed

text \<open>
  C27: on metrics that are finite and below \<open>2^300\<close> in magnitude, an update succeeds, hands
  on five numbers between -6 and 6 (all zero for the very first observation), and keeps the
  baseline finite with every variance at or above the configured floor. The normaliser never
  produces a NaN or an infinity.
\<close>

theorem normalizer_update_inv:
  assumes inv: "normalizer_inv n" and raw: "sane_metrics raw"
  shows "\<exists>z n'. adaptive_normalizer_update (Some n) (Some raw) True = (Inr z, Some n') \<and>
    length z = 5 \<and> (\<forall>i < 5. dbl_in (-6) 6 (z ! i)) \<and>
    (\<not> nz_initialized n \<longrightarrow> z = replicate 5 dzero) \<and>
    normalizer_inv n' \<and> nz_initialized n' \<and> nz_alpha n' = nz_alpha n \<and> nz_epsilon n' = nz_epsilon n"
  by (rule normalizer_update_keeps [OF assms])

lemma normalizer_init_inv:
  assumes "dbl_in 0 1 alpha" "dbl_in 0 1 epsilon" "0 < fval epsilon"
  shows "normalizer_inv (the (adaptive_normalizer_init (Some n) alpha epsilon))"
  using assms by (simp add: adaptive_normalizer_init_def zero_normalizer_def normalizer_inv_def)

definition example_normalizer :: adaptive_normalizer where
  "example_normalizer = zero_normalizer\<lparr>nz_alpha := ddec 1 1, nz_epsilon := ddec 10 1\<rparr>"

theorem normalizer_update_inv_witness:
  "\<exists>n'. adaptive_normalizer_update (Some example_normalizer) (Some (replicate 5 (ddec 10 1))) True =
    (Inr (replicate 5 dzero), Some n') \<and> normalizer_inv n'"
proof -
  have one: "dbl_in 1 1 (ddec 10 1)" using metric_constant_values wff_ddec [of 10 1] by (simp add: dbl_in_def del: wff.simps)
  have "dbl_in 0 1 (ddec 1 1)" using metric_constant_values wff_ddec by (simp add: dbl_in_def del: wff.simps)
  then have "normalizer_inv example_normalizer"
    using dbl_in_weaken [OF one, of 0 1]
    by (simp add: example_normalizer_def normalizer_inv_def zero_normalizer_def metric_constant_values)
  moreover have "sane_metric (ddec 10 1)" using metric_bounds(5) by (intro dbl_in_weaken [OF one]) linarith+
  then have "sane_metrics (replicate 5 (ddec 10 1))" by (simp add: sane_metrics_def)
  moreover have "\<not> nz_initialized example_normalizer" by (simp add: example_normalizer_def zero_normalizer_def)
  ultimately show ?thesis using normalizer_update_inv by blast
qed

end
