(* ===== verification/Hmm_Invariant.thy ===== *)
theory Hmm_Invariant
  imports Hmm Metrics_Properties
begin

text \<open>
  The numeric invariant of the hidden Markov model: probabilities, transition rows, counts
  and emission parameters stay finite and in their ranges at every observation, overflow of
  the emission logarithms to minus infinity included. What the mathematics library is
  asked for is stated in \<open>libm_ok\<close>.
\<close>

declare One_nat_def [simp del]

section \<open>Sums and quotients of non-negative doubles\<close>

lemma dsum_snoc: "dsum (xs @ [x]) = dadd (dsum xs) x"
  by (simp add: dsum_def)

lemma dsum_in:
  assumes "\<forall>x \<in> set xs. dbl_in 0 (p2 k) x" "- 1074 \<le> k" "k + int (length xs) \<le> 1000"
  shows "dbl_in 0 (p2 (k + int (length xs))) (dsum xs) \<and> (\<forall>x \<in> set xs. fval x \<le> fval (dsum xs))"
  using assms
proof (induction xs rule: rev_induct)
  case Nil
  then show ?case using dbl_in_zero [of 0 "p2 k"] by (simp add: dsum_def less_imp_le)
next
  case (snoc x xs)
  have F: "valid_format binary64" by simp
  have ih: "dbl_in 0 (p2 (k + int (length xs))) (dsum xs)" "\<forall>x \<in> set xs. fval x \<le> fval (dsum xs)"
    using snoc by simp_all
  have x: "dbl_in 0 (p2 k) x" using snoc.prems(1) by simp
  note sf = dbl_in_facts [OF ih(1)] and xf = dbl_in_facts [OF x]
  have "p2 k \<le> p2 (k + int (length xs))" unfolding p2_le by simp
  then have "fval (dsum xs) + fval x \<le> 2 * p2 (k + int (length xs))" using sf(4) xf(4) by linarith
  also have "\<dots> = p2 (k + int (length (xs @ [x])))" using p2_add [of "k + int (length xs)" 1] by (simp add: algebra_simps)
  finally have up: "fval (dsum xs) + fval x \<le> p2 (k + int (length (xs @ [x])))" .
  have s: "dbl_in 0 (p2 (k + int (length (xs @ [x])))) (dsum (xs @ [x]))"
      "fval (dsum (xs @ [x])) = rnd binary64 (fval (dsum xs) + fval x)"
    unfolding dsum_snoc
    using dadd_in [OF sf(1,2) xf(1,2) grid_zero grid_p2 _ up] sf(3) xf(3) snoc.prems(2,3) by simp_all
  have "rnd binary64 (fval (dsum xs)) \<le> fval (dsum (xs @ [x]))" "rnd binary64 (fval x) \<le> fval (dsum (xs @ [x]))"
    unfolding s(2) using sf(3) xf(3) by (intro rnd_mono [OF F]; simp)+
  then have "fval (dsum xs) \<le> fval (dsum (xs @ [x]))" "fval x \<le> fval (dsum (xs @ [x]))"
    using sf(1) xf(1) by (simp_all del: wff.simps)
  then show ?case using s(1) ih(2) by fastforce
qed

lemma quotient_in:
  assumes "dbl_in 0 a x" "wfd t" "fisfinite t" "0 < fval t" "fval x \<le> fval t"
  shows "dbl_in 0 1 (ddiv x t)"
proof -
  note xf = dbl_in_facts [OF assms(1)]
  show ?thesis
    by (rule ddiv_in(1) [OF xf(1,2) assms(2,3)]) (use assms xf in \<open>simp_all add: divide_le_eq\<close>)
qed

definition prob_vector :: "double list \<Rightarrow> bool" where
  "prob_vector p \<longleftrightarrow> length p = 5 \<and> (\<forall>x \<in> set p. dbl_in 0 1 x)"

lemma dbl_min_pos: "fisfinite dbl_min" "0 < fval dbl_min"
  by (simp_all add: dbl_min_def smant_def)

lemma dint_five: "dint 5 = Fin False 5629499534213120 (-50)"
  by code_simp

lemma normalize_values_prob:
  assumes "length xs = 5" "\<forall>x \<in> set xs. dbl_in 0 (p2 k) x" "- 1074 \<le> k" "k \<le> 900"
  shows "prob_vector (normalize_values xs)"
proof -
  have s: "dbl_in 0 (p2 (k + 5)) (dsum xs)" "\<forall>x \<in> set xs. fval x \<le> fval (dsum xs)"
    using dsum_in [OF assms(2,3)] assms(1,4) by simp_all
  note sf = dbl_in_facts [OF s(1)]
  show ?thesis
  proof (cases "fle (dsum xs) dbl_min")
    case True
    have "dbl_in 0 1 (ddec 10 1)" using metric_constant_values wff_ddec by (simp add: dbl_in_def del: wff.simps)
    then have "dbl_in 0 1 (ddiv (ddec 10 1) (dint 5))"
      by (rule quotient_in [OF _ wff_fof_int]) (simp_all add: dint_five smant_def metric_constant_values power_int_minus)
    then show ?thesis using True assms(1) by (simp add: normalize_values_def prob_vector_def)
  next
    case False
    then have "0 < fval (dsum xs)" using sf(2) dbl_min_pos by (simp add: fle_fval)
    then show ?thesis
      using False assms s sf quotient_in [of "p2 k"]
      by (auto simp: normalize_values_def Let_def prob_vector_def simp del: wff.simps)
  qed
qed

section \<open>Values that may overflow to one side\<close>

definition below :: "real \<Rightarrow> double \<Rightarrow> bool" where
  "below b x \<longleftrightarrow> wfd x \<and> (fisfinite x \<and> fval x \<le> b \<or> x = FInf True)"

definition above :: "real \<Rightarrow> double \<Rightarrow> bool" where
  "above b x \<longleftrightarrow> wfd x \<and> (fisfinite x \<and> b \<le> fval x \<or> x = FInf False)"

lemma rnd_le_grid: "grid b \<Longrightarrow> x \<le> b \<Longrightarrow> rnd binary64 x \<le> b"
  using rnd_mono [OF valid_format_binary(1), of x b] by (simp add: grid_def)

lemma rnd_ge_grid: "grid b \<Longrightarrow> b \<le> x \<Longrightarrow> b \<le> rnd binary64 x"
  using rnd_mono [OF valid_format_binary(1), of b x] by (simp add: grid_def)

lemma out_of_range_negative: "\<not> in_range binary64 x \<Longrightarrow> x \<le> b \<Longrightarrow> grid b \<Longrightarrow> x < 0"
  using in_range_double [of x] by (fastforce simp: grid_def abs_if split: if_splits)

lemma out_of_range_positive: "\<not> in_range binary64 x \<Longrightarrow> b \<le> x \<Longrightarrow> grid b \<Longrightarrow> 0 < x"
  using in_range_double [of x] by (fastforce simp: grid_def abs_if split: if_splits)

lemma below_add:
  assumes x: "below a x" and y: "below b y" and c: "grid c" "a + b \<le> c"
  shows "below c (dadd x y)"
proof -
  have F: "valid_format binary64" by simp
  have w: "wfd (dadd x y)" by (rule wff_fadd [OF F])
  show ?thesis
  proof (cases "fisfinite x \<and> fisfinite y")
    case True
    then have le: "fval x + fval y \<le> c" using x y c(2) by (auto simp: below_def)
    show ?thesis
      using w True fadd_facts [OF F, of x y] rnd_le_grid [OF c(1) le] out_of_range_negative [OF _ le c(1)]
      by (auto simp: below_def simp del: wff.simps)
  next
    case False
    then show ?thesis using x y w by (cases x; cases y) (auto simp: below_def simp del: wff.simps)
  qed
qed

lemma above_add:
  assumes x: "above a x" and y: "above b y" and c: "grid c" "c \<le> a + b"
  shows "above c (dadd x y)"
proof -
  have F: "valid_format binary64" by simp
  have w: "wfd (dadd x y)" by (rule wff_fadd [OF F])
  show ?thesis
  proof (cases "fisfinite x \<and> fisfinite y")
    case True
    then have le: "c \<le> fval x + fval y" using x y c(2) by (auto simp: above_def)
    show ?thesis
      using w True fadd_facts [OF F, of x y] rnd_ge_grid [OF c(1) le] out_of_range_positive [OF _ le c(1)]
      by (auto simp: above_def simp del: wff.simps)
  next
    case False
    then show ?thesis using x y w by (cases x; cases y) (auto simp: above_def simp del: wff.simps)
  qed
qed

lemma minus_half: "ddec (-5) 1 = Fin True 4503599627370496 (-53)"
  by code_simp

lemma below_minus_half:
  assumes "above (- b) x" "grid b" "0 \<le> b"
  shows "below b (dmul (ddec (-5) 1) x)"
proof -
  have F: "valid_format binary64" by simp
  have h: "fval (ddec (-5) 1) = - (1 / 2)" "fisfinite (ddec (-5) 1)"
    by (simp_all add: minus_half smant_def power_int_minus divide_simps)
  have w: "wfd (dmul (ddec (-5) 1) x)" using assms(1) by (intro wff_fmul [where H = binary64, OF F wff_ddec]) (simp add: above_def)
  show ?thesis
  proof (cases "fisfinite x")
    case True
    then have "fval (ddec (-5) 1) * fval x \<le> b" using assms by (auto simp: above_def h)
    moreover have "in_range binary64 (fval (ddec (-5) 1) * fval x)"
    proof (rule in_range_abs_mono [OF F _ in_range_fval [OF F, of x]])
      show "wfd x" using assms(1) by (simp add: above_def)
    qed (simp add: h abs_mult)
    ultimately show ?thesis
      using w True h fmul_facts [OF F h(2) wff_ddec True] rnd_le_grid [OF assms(2)] assms(1)
      by (auto simp: below_def above_def simp del: wff.simps)
  next
    case False
    then show ?thesis using assms(1) w by (cases x) (auto simp: below_def above_def minus_half simp del: wff.simps)
  qed
qed

lemma above_div:
  assumes "wfd x" "fisfinite x" "0 \<le> fval x" "wfd y" "fisfinite y" "0 < fval y"
  shows "above 0 (ddiv x y)"
proof -
  have F: "valid_format binary64" by simp
  have w: "wfd (ddiv x y)" by (rule wff_fdiv [OF F assms(1,4)])
  obtain s m e u n f where xy: "x = Fin s m e" "y = Fin u n f" using assms by (cases x; cases y) auto
  have m: "0 \<le> m" "0 < n" "\<not> u" using assms by (auto simp: xy smant_def zero_less_mult_iff split: if_splits)
  have eq: "fval x / fval y = (if s \<noteq> u then -1 else 1) * (of_int m / of_int n * p2 (e - f))"
    unfolding xy fval_smant by (simp add: p2_diff)
  note rf = roundf_facts [OF F m(1,2) eq]
  have q: "0 \<le> fval x / fval y" using assms by simp
  have d: "ddiv x y = roundf binary64 (s \<noteq> u) m n (e - f)" using m by (simp add: xy)
  show ?thesis
  proof (cases "in_range binary64 (fval x / fval y)")
    case True
    then show ?thesis using rf w rnd_nonneg [OF q] d by (simp add: above_def del: wff.simps)
  next
    case False
    then have "fval x / fval y \<noteq> 0" by (auto simp: in_range_def)
    then have "\<not> (s \<noteq> u)" using eq q m by (auto simp: mult_le_0_iff zero_le_divide_iff divide_le_0_iff split: if_splits)
    then show ?thesis using rf False w d by (simp add: above_def del: wff.simps)
  qed
qed

section \<open>The mathematics library\<close>

text \<open>
  The logarithm of a positive double is finite and at most 1024 in magnitude; the
  exponential of a number that is not positive, minus infinity included, is a number
  between 0 and 1.
\<close>

definition libm_ok :: "libm \<Rightarrow> bool" where
  "libm_ok m \<longleftrightarrow>
     (\<forall>x. wfd x \<and> fisfinite x \<and> 0 < fval x \<longrightarrow> dbl_in (- 1024) 1024 (m_log m x)) \<and>
     (\<forall>x. below 0 x \<longrightarrow> dbl_in 0 1 (m_exp m x))"

section \<open>The invariant\<close>

definition count_bound :: real where "count_bound = p2 100"

text \<open>The parameters the model keeps for its lifetime.\<close>

definition hmm_parameters_ok :: "adaptive_hmm \<Rightarrow> bool" where
  "hmm_parameters_ok h \<longleftrightarrow>
     dbl_in 0 1 (hmm_alpha h) \<and> dbl_in 0 1 (hmm_forgetting h) \<and>
     dbl_in (p2 (- 500)) count_bound (hmm_smoothing h) \<and>
     dbl_in 0 variance_bound (min_variance h) \<and> 0 < fval (min_variance h) \<and>
     length (hmm_prior h) = 5 \<and>
     (\<forall>row \<in> set (hmm_prior h). prob_vector row \<and> (\<exists>x \<in> set row. p2 (- 6) \<le> fval x))"

definition hmm_inv :: "adaptive_hmm \<Rightarrow> bool" where
  "hmm_inv h \<longleftrightarrow>
     hmm_parameters_ok h \<and> prob_vector (probability h) \<and>
     length (transition h) = 5 \<and> (\<forall>row \<in> set (transition h). prob_vector row) \<and>
     length (transition_count h) = 5 \<and>
     (\<forall>row \<in> set (transition_count h). length row = 5 \<and> (\<forall>x \<in> set row. dbl_in 0 count_bound x)) \<and>
     (\<forall>s < 5. \<forall>k < 5. sane_metric (hmm_mean h ! s ! k) \<and> dbl_in 0 variance_bound (hmm_variance h ! s ! k)) \<and>
     hmm_state h < 5 \<and> recovery_remaining h \<le> hmm_hold h"

lemma prob_vector_nth: "prob_vector p \<Longrightarrow> i < 5 \<Longrightarrow> dbl_in 0 1 (p ! i)"
  by (simp add: prob_vector_def)

lemma hmm_inv_entries:
  assumes "hmm_inv h" "i < 5"
  shows "dbl_in 0 1 (probability h ! i)" "prob_vector (transition h ! i)"
    "length (transition_count h ! i) = 5" "\<forall>x \<in> set (transition_count h ! i). dbl_in 0 count_bound x"
proof -
  have "transition_count h ! i \<in> set (transition_count h)" "transition h ! i \<in> set (transition h)"
    using assms by (simp_all add: hmm_inv_def)
  then show "dbl_in 0 1 (probability h ! i)" "prob_vector (transition h ! i)"
    "length (transition_count h ! i) = 5" "\<forall>x \<in> set (transition_count h ! i). dbl_in 0 count_bound x"
    using assms prob_vector_nth unfolding hmm_inv_def by blast+
qed

section \<open>Transitions\<close>

lemma row_counts_in:
  assumes inv: "hmm_inv h" and rc: "row < 5" "to < 5"
  shows "length (row_counts h from to row) = 5 \<and> (\<forall>x \<in> set (row_counts h from to row). dbl_in 0 count_bound x)"
proof -
  have f: "dbl_in 0 1 (hmm_forgetting h)" using inv by (simp add: hmm_inv_def hmm_parameters_ok_def)
  note row = hmm_inv_entries(3,4) [OF inv rc(1)]
  have cb: "grid count_bound" unfolding count_bound_def by (rule grid_p2) simp_all
  have c: "dbl_in 0 count_bound (dmul x (hmm_forgetting h))" if "x \<in> set (transition_count h ! row)" for x
  proof -
    note xf = dbl_in_facts [OF row(2) [rule_format, OF that]] and ff = dbl_in_facts [OF f]
    have "fval x * fval (hmm_forgetting h) \<le> count_bound * 1" using xf ff by (intro mult_mono) auto
    then show ?thesis using dmul_in(1) [OF xf(1,2) ff(1,2) grid_zero cb] xf ff by simp
  qed
  let ?c = "map (\<lambda>c. dmul c (hmm_forgetting h)) (transition_count h ! row)"
  have all: "\<forall>x \<in> set ?c. dbl_in 0 count_bound x" using c by auto
  have one: "dbl_in 0 (p2 0) (ddec 10 1)" using metric_constant_values wff_ddec [of 10 1] by (simp add: dbl_in_def del: wff.simps)
  have "dbl_in 0 count_bound (dadd (?c ! to) (ddec 10 1))"
    unfolding count_bound_def
    by (rule dadd_absorbs [OF _ one]) (use all row(1) rc(2) in \<open>simp_all add: count_bound_def\<close>)
  then have "\<forall>x \<in> set (?c[to := dadd (?c ! to) (ddec 10 1)]). dbl_in 0 count_bound x"
    using all set_update_subset_insert [of ?c to "dadd (?c ! to) (ddec 10 1)"] by blast
  then show ?thesis using all row(1) unfolding row_counts_def Let_def by (cases "row = from") simp_all
qed

lemma row_transition_prob:
  assumes inv: "hmm_inv h" and row: "row < 5"
    and counts: "length counts = 5" "\<forall>x \<in> set counts. dbl_in 0 count_bound x"
  shows "prob_vector (row_transition h row counts)"
proof -
  have s: "dbl_in (p2 (- 500)) count_bound (hmm_smoothing h)"
    and prior: "prob_vector (hmm_prior h ! row)" "\<exists>x \<in> set (hmm_prior h ! row). p2 (- 6) \<le> fval x"
    using inv row by (simp_all add: hmm_inv_def hmm_parameters_ok_def)
  note sf = dbl_in_facts [OF s]
  have cb: "grid count_bound" unfolding count_bound_def by (rule grid_p2) simp_all
  have s0: "0 < fval (hmm_smoothing h)" using sf(3) p2_pos [of "- 500"] by linarith
  have len: "length (hmm_prior h ! row) = 5" using prior(1) by (simp add: prob_vector_def)
  define w where "w p = dmul (hmm_smoothing h) p" for p
  define mass where "mass = map2 (\<lambda>c p. dadd c (w p)) counts (hmm_prior h ! row)"
  have w: "dbl_in 0 count_bound (w p)" "p2 (- 6) \<le> fval p \<Longrightarrow> p2 (- 506) \<le> fval (w p)"
    if "p \<in> set (hmm_prior h ! row)" for p
  proof -
    have "dbl_in 0 1 p" using prior(1) that by (simp add: prob_vector_def)
    note pf = dbl_in_facts [OF this]
    have up: "fval (hmm_smoothing h) * fval p \<le> count_bound * 1"
      using sf pf s0 by (intro mult_mono) auto
    show "dbl_in 0 count_bound (w p)"
      unfolding w_def using dmul_in(1) [OF sf(1,2) pf(1,2) grid_zero cb] up pf s0 by simp
    assume "p2 (- 6) \<le> fval p"
    then have "p2 (- 500) * p2 (- 6) \<le> fval (hmm_smoothing h) * fval p"
      using sf pf by (intro mult_mono) auto
    then have "p2 (- 506) \<le> fval (hmm_smoothing h) * fval p" using p2_add [of "- 500" "- 6"] by simp
    then show "p2 (- 506) \<le> fval (w p)"
      unfolding w_def using dmul_in(1) [OF sf(1,2) pf(1,2) grid_p2 cb, of "- 506"] up by (simp add: dbl_in_def)
  qed
  have m: "dbl_in 0 (p2 101) (dadd c (w p))" "p2 (- 6) \<le> fval p \<Longrightarrow> p2 (- 506) \<le> fval (dadd c (w p))"
    if "c \<in> set counts" "p \<in> set (hmm_prior h ! row)" for c p
  proof -
    note cf = dbl_in_facts [OF counts(2) [rule_format, OF that(1)]] and wf = dbl_in_facts [OF w(1) [OF that(2)]]
    have "p2 101 = 2 * count_bound" using p2_add [of 100 1] unfolding count_bound_def by simp
    then have up: "fval c + fval (w p) \<le> p2 101" using cf(4) wf(4) by linarith
    show "dbl_in 0 (p2 101) (dadd c (w p))"
      using dadd_in(1) [OF cf(1,2) wf(1,2) grid_zero grid_p2 _ up] cf wf by simp
    assume "p2 (- 6) \<le> fval p"
    then have "p2 (- 506) \<le> fval c + fval (w p)" using w(2) [OF that(2)] cf(3) by linarith
    then show "p2 (- 506) \<le> fval (dadd c (w p))"
      using dadd_in(1) [OF cf(1,2) wf(1,2) grid_p2 grid_p2 _ up, of "- 506"] by (simp add: dbl_in_def)
  qed
  have all: "\<forall>x \<in> set mass. dbl_in 0 (p2 101) x" unfolding mass_def using m(1) by (auto dest: set_zip_leftD set_zip_rightD)
  have lm: "length mass = 5" by (simp add: mass_def counts(1) len)
  have big_entry: "\<exists>x \<in> set mass. p2 (- 506) \<le> fval x"
  proof -
    obtain j where j: "j < 5" "p2 (- 6) \<le> fval (hmm_prior h ! row ! j)"
      using prior(2) len by (auto simp: in_set_conv_nth)
    then have "mass ! j = dadd (counts ! j) (w (hmm_prior h ! row ! j))" by (simp add: mass_def counts(1) len)
    moreover have "p2 (- 506) \<le> fval (dadd (counts ! j) (w (hmm_prior h ! row ! j)))"
      using j counts(1) len by (intro m(2)) auto
    ultimately show ?thesis using j(1) lm by (metis nth_mem)
  qed
  have sum: "dbl_in 0 (p2 106) (dsum mass)" "\<forall>x \<in> set mass. fval x \<le> fval (dsum mass)"
    using dsum_in [OF all] lm by simp_all
  have "0 < fval (dsum mass)" using big_entry sum(2) p2_pos [of "- 506"] by force
  then show ?thesis
    using quotient_in [of "p2 101" _ "dsum mass"] all sum dbl_in_facts [OF sum(1)] lm
    unfolding row_transition_def Let_def w_def [symmetric] mass_def [symmetric] prob_vector_def
    by (auto simp del: wff.simps)
qed

section \<open>Emissions\<close>

text \<open>An observation is a vector of normalised metrics.\<close>

definition scores :: "network_metrics \<Rightarrow> bool" where
  "scores z \<longleftrightarrow> length z = 5 \<and> (\<forall>k < 5. dbl_in (-6) 6 (z ! k))"

lemma score_sane: "dbl_in (-6) 6 x \<Longrightarrow> sane_metric x"
proof -
  have "p2 3 \<le> metric_bound" unfolding metric_bound_def p2_le by simp
  then have "6 \<le> metric_bound" by simp
  then show "dbl_in (-6) 6 x \<Longrightarrow> sane_metric x" by (auto simp: dbl_in_def)
qed

lemma floor_variance_in:
  assumes "dbl_in 0 variance_bound least" "dbl_in 0 variance_bound v"
  shows "dbl_in 0 variance_bound (floor_variance least v)" "fval least \<le> fval (floor_variance least v)"
  using assms by (auto simp: floor_variance_def dbl_in_def flt_fval simp del: wff.simps)

lemma variance_update_in:
  assumes d: "dbl_in (- p2 301) (p2 301) d" and v: "dbl_in 0 variance_bound v" and r: "dbl_in 0 1 rate"
  shows "dbl_in 0 variance_bound (dadd (dmul (dsub (ddec 10 1) rate) v) (dmul (dmul rate d) d))"
proof -
  have w: "dbl_in 0 (p2 602) (dmul (dmul rate d) d)" using rate_square [OF _ _ d r] by simp
  have b: "dbl_in 0 (p2 700) (dmul (dsub (ddec 10 1) rate) v)"
    unfolding variance_bound_def [symmetric] by (rule dmul_unit [OF one_minus_rate [OF r] v]) simp
  show ?thesis
    unfolding variance_bound_def by (rule dadd_absorbs [OF b w]) simp_all
qed

lemma next_emissions_in:
  assumes inv: "hmm_inv h" and z: "scores z" and sk: "s < 5" "k < 5"
  shows "sane_metric (next_emission_mean h z s k)"
    and "dbl_in 0 variance_bound (next_emission_variance h z s k)"
    and "fval (min_variance h) \<le> fval (next_emission_variance h z s k)"
proof -
  have p: "dbl_in 0 1 (hmm_alpha h)" "dbl_in 0 variance_bound (min_variance h)" "dbl_in 0 1 (probability h ! s)"
    "sane_metric (hmm_mean h ! s ! k)" "dbl_in 0 variance_bound (hmm_variance h ! s ! k)"
    using inv sk by (simp_all add: hmm_inv_def hmm_parameters_ok_def prob_vector_def)
  have x: "sane_metric (z ! k)" using z sk by (simp add: scores_def score_sane)
  have r: "dbl_in 0 1 (dmul (hmm_alpha h) (probability h ! s))" by (rule dmul_unit [OF p(1,3)]) simp
  note ms = mean_step [of 300, OF _ _ p(4) [unfolded metric_bound_def] x [unfolded metric_bound_def] r]
  show "sane_metric (next_emission_mean h z s k)"
    using ms(1) by (simp add: next_emission_mean_def Let_def metric_bound_def)
  have "dbl_in (- p2 301) (p2 301) (dsub (z ! k) (hmm_mean h ! s ! k))" using ms(2) by simp
  note v = variance_update_in [OF this p(5) r]
  show "dbl_in 0 variance_bound (next_emission_variance h z s k)"
    "fval (min_variance h) \<le> fval (next_emission_variance h z s k)"
    unfolding next_emission_variance_def Let_def by (rule floor_variance_in [OF p(2) v])+
qed

section \<open>The logarithm of an emission\<close>

lemma two_pi_value: "two_pi = Fin False 7074237752028440 (-50)"
  unfolding two_pi_def by code_simp

lemma two_pi_bounds: "wfd two_pi" "fisfinite two_pi" "1 \<le> fval two_pi" "fval two_pi \<le> 8"
  by (simp_all add: two_pi_value binary64_def smant_def power_int_minus divide_simps)

lemma grid_numerals [simp]: "grid 1024" "grid 2048" "grid 4096" "grid 8192" "grid 16384"
  using grid_p2 [of 10] grid_p2 [of 11] grid_p2 [of 12] grid_p2 [of 13] grid_p2 [of 14] by simp_all

lemma emission_term_below:
  assumes m: "libm_ok m" and d: "dbl_in (- p2 301) (p2 301) d"
    and v: "dbl_in 0 variance_bound v" "0 < fval v"
  shows "below 1024 (dmul (ddec (-5) 1) (dadd (m_log m (dmul two_pi v)) (ddiv (dmul d d) v)))"
proof -
  note vf = dbl_in_facts [OF v(1)] and df = dbl_in_facts [OF d]
  have "fval two_pi * fval v \<le> 8 * variance_bound" using two_pi_bounds vf by (intro mult_mono) auto
  also have "\<dots> = p2 703" using p2_add [of 3 700] by (simp add: variance_bound_def)
  finally have up: "fval two_pi * fval v \<le> p2 703" .
  have g: "grid (fval v)" using vf v(2) p2_big [of 700] by (intro grid_fval) (auto simp: variance_bound_def)
  have "1 * fval v \<le> fval two_pi * fval v" using two_pi_bounds v(2) by (intro mult_mono) auto
  then have "dbl_in (fval v) (p2 703) (dmul two_pi v)"
    using dmul_in(1) [OF two_pi_bounds(1,2) vf(1,2) g grid_p2 _ up] by simp
  then have "dbl_in (- 1024) 1024 (m_log m (dmul two_pi v))"
    using m v(2) by (simp add: libm_ok_def dbl_in_def)
  then have l: "above (- 1024) (m_log m (dmul two_pi v))" by (simp add: above_def dbl_in_def)
  have "\<bar>fval d * fval d\<bar> \<le> p2 301 * p2 301" unfolding abs_mult using df by (intro mult_mono) auto
  also have "\<dots> = p2 602" by (simp add: p2_add [symmetric])
  finally have "dbl_in 0 (p2 602) (dmul d d)"
    by (intro dmul_in [OF df(1,2) df(1,2) grid_zero grid_p2]) auto
  note qf = dbl_in_facts [OF this]
  have "above 0 (ddiv (dmul d d) v)" using qf vf v(2) by (intro above_div) simp_all
  from above_add [OF l this, of "- 1024"] show ?thesis by (intro below_minus_half) simp_all
qed

lemma emission_log_below:
  assumes m: "libm_ok m" and inv: "hmm_inv h" and z: "scores z" and s: "s < 5"
  shows "below 16384 (emission_log_probability m h s z)"
proof -
  define f where "f metric = dmul (ddec (-5) 1) (dadd (m_log m (dmul two_pi
      (floor_variance (min_variance h) (hmm_variance h ! s ! metric))))
      (ddiv (dmul (dsub (z ! metric) (hmm_mean h ! s ! metric)) (dsub (z ! metric) (hmm_mean h ! s ! metric)))
        (floor_variance (min_variance h) (hmm_variance h ! s ! metric))))" for metric
  have t: "below 1024 (f k)" if k: "k < 5" for k
  proof -
    have p: "dbl_in 0 variance_bound (min_variance h)" "0 < fval (min_variance h)" "dbl_in 0 1 (hmm_alpha h)"
      "sane_metric (hmm_mean h ! s ! k)" "dbl_in 0 variance_bound (hmm_variance h ! s ! k)"
      using inv s k by (simp_all add: hmm_inv_def hmm_parameters_ok_def)
    have x: "sane_metric (z ! k)" using z k by (simp add: scores_def score_sane)
    have "dbl_in (- p2 301) (p2 301) (dsub (z ! k) (hmm_mean h ! s ! k))"
      using mean_step(2) [of 300, OF _ _ p(4) [unfolded metric_bound_def] x [unfolded metric_bound_def] p(3)] by simp
    then show ?thesis
      unfolding f_def using floor_variance_in [OF p(1,5)] p(2) by (intro emission_term_below [OF m]) auto
  qed
  have z0: "below 0 dzero" using dbl_in_zero [of 0 0] by (simp add: below_def dbl_in_def)
  have five: "[0..<ADAPTIVE_METRIC_COUNT] = [0, 1, 2, 3, 4]" by (simp add: adaptive_bounds upt_rec)
  have "below 1024 (dadd dzero (f 0))" by (rule below_add [OF z0 t]) simp_all
  then have "below 2048 (dadd (dadd dzero (f 0)) (f 1))" by (rule below_add [OF _ t]) simp_all
  then have "below 4096 (dadd (dadd (dadd dzero (f 0)) (f 1)) (f 2))" by (rule below_add [OF _ t]) simp_all
  then have "below 8192 (dadd (dadd (dadd (dadd dzero (f 0)) (f 1)) (f 2)) (f 3))" by (rule below_add [OF _ t]) simp_all
  then have "below 16384 (dadd (dadd (dadd (dadd (dadd dzero (f 0)) (f 1)) (f 2)) (f 3)) (f 4))"
    by (rule below_add [OF _ t]) simp_all
  moreover have "emission_log_probability m h s z = foldl (\<lambda>r k. dadd r (f k)) dzero [0..<ADAPTIVE_METRIC_COUNT]"
    by (simp add: emission_log_probability_def f_def Let_def)
  ultimately show ?thesis unfolding five by simp
qed

section \<open>The posterior\<close>

lemma prediction_in:
  assumes inv: "hmm_inv h" and j: "j < 5"
  shows "dbl_in 0 (p2 5) (prediction h j)"
proof -
  define terms where "terms = map (\<lambda>i. dmul (probability h ! i) (transition h ! i ! j)) [0..<5]"
  have "dbl_in 0 1 (probability h ! i)" "dbl_in 0 1 (transition h ! i ! j)" if "i < 5" for i
    using hmm_inv_entries [OF inv that] j by (simp_all add: prob_vector_nth)
  then have "\<forall>x \<in> set terms. dbl_in 0 (p2 0) x"
    unfolding terms_def by (auto intro!: dmul_unit)
  then have "dbl_in 0 (p2 5) (dsum terms)" using dsum_in [of terms 0] by (simp add: terms_def)
  moreover have "prediction h j = dsum terms"
    by (simp add: prediction_def dsum_def terms_def foldl_map adaptive_bounds)
  ultimately show ?thesis by simp
qed

text \<open>The search for the maximum never leaves the finite range and bounds every entry.\<close>

lemma max_log_in:
  assumes "wfd a" "fisfinite a" "fval a \<le> b" "\<forall>e \<in> set es. below b e"
  shows "wfd (foldl (\<lambda>mx e. if flt mx e then e else mx) a es) \<and>
    fisfinite (foldl (\<lambda>mx e. if flt mx e then e else mx) a es) \<and>
    fval a \<le> fval (foldl (\<lambda>mx e. if flt mx e then e else mx) a es) \<and>
    fval (foldl (\<lambda>mx e. if flt mx e then e else mx) a es) \<le> b \<and>
    (\<forall>e \<in> set es. fisfinite e \<longrightarrow> fval e \<le> fval (foldl (\<lambda>mx e. if flt mx e then e else mx) a es))"
  using assms
proof (induction es arbitrary: a)
  case (Cons e es)
  define a' where "a' = (if flt a e then e else a)"
  have e: "below b e" using Cons.prems by simp
  then have "wfd a' \<and> fisfinite a' \<and> fval a' \<le> b \<and> fval a \<le> fval a' \<and> (fisfinite e \<longrightarrow> fval e \<le> fval a')"
  proof (cases "fisfinite e")
    case True
    then show ?thesis using Cons.prems(1-3) e by (auto simp: a'_def below_def flt_fval simp del: wff.simps)
  next
    case False
    then have "e = FInf True" using e by (auto simp: below_def)
    then have "\<not> flt a e" using Cons.prems(2) by (cases a) auto
    then show ?thesis using Cons.prems(1-3) False by (simp add: a'_def del: wff.simps)
  qed
  then show ?case using Cons.IH [of a'] Cons.prems(4) unfolding a'_def by fastforce
qed simp

lemma dbl_max_facts: "wfd (fneg dbl_max)" "fisfinite (fneg dbl_max)" "fval (fneg dbl_max) \<le> 0"
proof -
  show "wfd (fneg dbl_max)" unfolding fneg_wff by (simp add: dbl_max_def binary64_def)
  show "fisfinite (fneg dbl_max)" by (simp add: dbl_max_def)
  show "fval (fneg dbl_max) \<le> 0" by (simp add: dbl_max_def smant_def)
qed

lemma below_difference:
  assumes e: "below b e" and mx: "wfd mx" "fisfinite mx" "fisfinite e \<longrightarrow> fval e \<le> fval mx"
  shows "below 0 (dsub e mx)"
proof -
  have F: "valid_format binary64" by simp
  have w: "wfd (dsub e mx)" by (rule wff_fsub [OF F])
  show ?thesis
  proof (cases "fisfinite e")
    case True
    then have le: "fval e - fval mx \<le> 0" using mx by simp
    have "fsub binary64 e mx = FInf True" if "\<not> in_range binary64 (fval e - fval mx)"
      using fsub_facts [OF F True mx(2)] that out_of_range_negative [OF that le grid_zero] by simp
    then show ?thesis
      using w fsub_facts [OF F True mx(2)] rnd_nonpos [OF le, of binary64]
      by (auto simp: below_def simp del: wff.simps)
  next
    case False
    then have "e = FInf True" using e by (auto simp: below_def)
    then show ?thesis using w mx(2) by (cases mx) (simp_all add: below_def fsub_def del: wff.simps)
  qed
qed

lemma posterior_prob:
  assumes m: "libm_ok m" and inv: "hmm_inv h" and z: "scores z"
  shows "prob_vector (posterior m h z)"
proof -
  define logs where "logs = map (\<lambda>j. emission_log_probability m h j z) [0..<5]"
  define mx where "mx = foldl (\<lambda>mx e. if flt mx e then e else mx) (fneg dbl_max) logs"
  have logs: "\<forall>e \<in> set logs. below 16384 e" using emission_log_below [OF m inv z] by (auto simp: logs_def)
  have mxf: "wfd mx" "fisfinite mx" "\<forall>e \<in> set logs. fisfinite e \<longrightarrow> fval e \<le> fval mx"
    using max_log_in [OF dbl_max_facts(1,2) _ logs] dbl_max_facts(3) unfolding mx_def [symmetric] by auto
  have t: "dbl_in 0 (p2 5) (dmul (prediction h j) (m_exp m (dsub (logs ! j) mx)))" if j: "j < 5" for j
  proof -
    have "logs ! j \<in> set logs" using j by (simp add: logs_def)
    then have "below 0 (dsub (logs ! j) mx)" using logs mxf by (intro below_difference) auto
    then have e: "dbl_in 0 1 (m_exp m (dsub (logs ! j) mx))" using m by (simp add: libm_ok_def)
    note ef = dbl_in_facts [OF e] and pf = dbl_in_facts [OF prediction_in [OF inv j]]
    have "fval (prediction h j) * fval (m_exp m (dsub (logs ! j) mx)) \<le> p2 5 * 1" using ef pf by (intro mult_mono) auto
    then show ?thesis using dmul_in(1) [OF pf(1,2) ef(1,2) grid_zero grid_p2, of 5] ef pf by simp
  qed
  have "posterior m h z = normalize_values (map (\<lambda>j. dmul (prediction h j) (m_exp m (dsub (logs ! j) mx))) [0..<5])"
    by (simp add: posterior_def logs_def mx_def Let_def adaptive_bounds)
  moreover have "prob_vector (normalize_values (map (\<lambda>j. dmul (prediction h j) (m_exp m (dsub (logs ! j) mx))) [0..<5]))"
    by (rule normalize_values_prob [of _ 5]) (use t in auto)
  ultimately show ?thesis by simp
qed

lemma half_value: "ddec 5 1 = Fin False 4503599627370496 (-53)"
  by code_simp

lemma blend_prob:
  assumes p: "prob_vector p" and s: "s < 5"
  shows "prob_vector (blend p s)"
proof -
  have h: "dbl_in 0 1 (ddec 5 1)" using wff_ddec [of 5 1]
    by (simp add: half_value dbl_in_def smant_def power_int_minus divide_simps del: wff.simps)
  define half where "half = map (\<lambda>v. dmul v (ddec 5 1)) p"
  note hf = dbl_in_facts [OF h]
  have m: "dbl_in 0 1 (dmul v (ddec 5 1))" if "dbl_in 0 1 v" for v
  proof -
    note vf = dbl_in_facts [OF that]
    have "fval v * fval (ddec 5 1) \<le> 1 * 1" using vf hf by (intro mult_mono) auto
    then show ?thesis using dmul_in(1) [OF vf(1,2) hf(1,2) grid_zero grid_one] vf hf by simp
  qed
  have half: "length half = 5" "\<forall>x \<in> set half. dbl_in 0 1 x"
    using p m by (auto simp: half_def prob_vector_def)
  then have "dbl_in 0 1 (half ! s)" using s by simp
  note sf = dbl_in_facts [OF this]
  have "fval (half ! s) + fval (ddec 5 1) \<le> p2 1" using sf hf by simp
  then have sum: "dbl_in 0 (p2 1) (dadd (half ! s) (ddec 5 1))"
    using dadd_in(1) [OF sf(1,2) hf(1,2) grid_zero grid_p2, of 1] sf hf by simp
  have "\<forall>x \<in> set (half[s := dadd (half ! s) (ddec 5 1)]). dbl_in 0 (p2 1) x"
  proof
    fix x assume "x \<in> set (half[s := dadd (half ! s) (ddec 5 1)])"
    then have "x = dadd (half ! s) (ddec 5 1) \<or> x \<in> set half"
      using set_update_subset_insert [of half s] by blast
    then show "dbl_in 0 (p2 1) x" using sum half(2) by (auto intro: dbl_in_weaken)
  qed
  then show ?thesis
    unfolding blend_def Let_def half_def [symmetric] using half by (intro normalize_values_prob [of _ 1]) simp_all
qed

lemma largest_probability_less: "largest_probability p < 5"
  unfolding largest_probability_def by (rule foldl_invariant) (auto simp: adaptive_bounds)

lemma select_state_less:
  assumes "candidate < 5" "remaining \<le> hold" "select_state hold from remaining candidate = (s, r)"
  shows "s < 5 \<and> r \<le> hold"
  using assms by (auto simp: select_state_def split: if_splits)

section \<open>The step\<close>

lemma update_transition_fields [simp]:
  "probability (update_transition h f t) = probability h" "hmm_mean (update_transition h f t) = hmm_mean h"
  "hmm_variance (update_transition h f t) = hmm_variance h" "hmm_alpha (update_transition h f t) = hmm_alpha h"
  "min_variance (update_transition h f t) = min_variance h" "hmm_state (update_transition h f t) = hmm_state h"
  "observations (update_transition h f t) = observations h" "hmm_hold (update_transition h f t) = hmm_hold h"
  "recovery_remaining (update_transition h f t) = recovery_remaining h"
  "hmm_forgetting (update_transition h f t) = hmm_forgetting h" "hmm_prior (update_transition h f t) = hmm_prior h"
  "hmm_smoothing (update_transition h f t) = hmm_smoothing h" "previous_state (update_transition h f t) = previous_state h"
  by (simp_all add: update_transition_def)

lemma update_transition_inv:
  assumes "hmm_inv h" "to < 5" shows "hmm_inv (update_transition h from to)"
proof -
  have "row < 5 \<Longrightarrow> prob_vector (row_transition h row (row_counts h from to row))" for row
    using row_counts_in [OF assms(1) _ assms(2)] row_transition_prob [OF assms(1)] by blast
  then show ?thesis
    using assms row_counts_in [OF assms(1) _ assms(2)]
    by (simp add: hmm_inv_def hmm_parameters_ok_def update_transition_def adaptive_bounds)
qed

lemma update_emissions_inv:
  assumes "hmm_inv h" "scores z"
  shows "hmm_inv (update_emissions h z) \<and>
    (\<forall>s < 5. \<forall>k < 5. fval (min_variance h) \<le> fval (hmm_variance (update_emissions h z) ! s ! k))"
  using assms(1) next_emissions_in [OF assms]
  by (simp add: hmm_inv_def hmm_parameters_ok_def update_emissions_def adaptive_bounds)

lemma hmm_step_keeps:
  assumes m: "libm_ok m" and inv: "hmm_inv h" and z: "scores z"
  shows "\<exists>s p h'. adaptive_hmm_step m (Some h) (Some z) True = (Inr (s, p), Some h') \<and>
    s < 5 \<and> hmm_state h' = s \<and> previous_state h' = hmm_state h \<and> observations h' = observations h + 1 \<and>
    p = probability h' \<and> prob_vector p \<and> hmm_inv h' \<and>
    (\<forall>s < 5. \<forall>k < 5. fval (min_variance h') \<le> fval (hmm_variance h' ! s ! k))"
proof -
  define post where "post = posterior m h z"
  define cand where "cand = largest_probability post"
  obtain s r where sel: "select_state (hmm_hold h) (hmm_state h) (recovery_remaining h) cand = (s, r)"
    by (metis surj_pair)
  have pp: "prob_vector post" unfolding post_def by (rule posterior_prob [OF m inv z])
  have sr: "s < 5 \<and> r \<le> hmm_hold h"
    using select_state_less [OF _ _ sel] largest_probability_less inv by (simp add: cand_def hmm_inv_def)
  define h1 where "h1 = h\<lparr>recovery_remaining := r, previous_state := hmm_state h, hmm_state := s,
    probability := (if s \<noteq> cand then blend post s else post)\<rparr>"
  have "hmm_inv h1"
    using inv sr pp blend_prob [OF pp, of s] unfolding h1_def hmm_inv_def hmm_parameters_ok_def by simp
  then have u: "hmm_inv (update_transition h1 (hmm_state h) s)" using sr by (intro update_transition_inv) simp_all
  define h2 where "h2 = update_emissions (update_transition h1 (hmm_state h) s) z"
  have h2: "hmm_inv h2" "\<forall>s < 5. \<forall>k < 5. fval (min_variance h) \<le> fval (hmm_variance h2 ! s ! k)"
    using update_emissions_inv [OF u z] by (simp_all add: h2_def h1_def)
  have fields: "hmm_state h2 = s" "previous_state h2 = hmm_state h" "observations h2 = observations h"
    "min_variance h2 = min_variance h"
    by (simp_all add: h2_def h1_def update_emissions_def)
  have "adaptive_hmm_step m (Some h) (Some z) True =
      (Inr (s, probability h2), Some (h2\<lparr>observations := observations h2 + 1\<rparr>))"
    unfolding adaptive_hmm_step_def
    by (simp add: post_def [symmetric] cand_def [symmetric] sel Let_def h1_def [symmetric] h2_def [symmetric])
  moreover have "hmm_inv (h2\<lparr>observations := observations h2 + 1\<rparr>)"
    using h2(1) by (simp add: hmm_inv_def hmm_parameters_ok_def)
  moreover have "prob_vector (probability h2)" using h2(1) by (simp add: hmm_inv_def)
  ultimately show ?thesis using sr h2(2) fields by simp
qed

text \<open>
  C28: the hidden Markov model is numerically closed. When its parameters are in range and
  the observation is a vector of normalised metrics, a step returns one of the five states
  with a probability vector whose entries are finite and between 0 and 1, and every table of
  the model stays finite and in range: transition rows are probabilities, counts are
  bounded, no emission variance is below the configured floor. So no sequence of
  observations drives the model into a NaN or an infinity.
\<close>

theorem hmm_step_inv:
  assumes m: "libm_ok m" and inv: "hmm_inv h" and z: "scores z"
  shows "\<exists>s p h'. adaptive_hmm_step m (Some h) (Some z) True = (Inr (s, p), Some h') \<and>
    s < 5 \<and> hmm_state h' = s \<and> previous_state h' = hmm_state h \<and> observations h' = observations h + 1 \<and>
    p = probability h' \<and> prob_vector p \<and> hmm_inv h' \<and>
    (\<forall>s < 5. \<forall>k < 5. fval (min_variance h') \<le> fval (hmm_variance h' ! s ! k))"
  by (rule hmm_step_keeps [OF assms])

end
