(* ===== verification/Hmm_Start.thy ===== *)
theory Hmm_Start
  imports Hmm_Invariant Config_Defaults Codec_Silence
begin

text \<open>
  The invariant holds from the start: the model that \<open>adaptive_hmm_init\<close> builds from a
  configuration of sane magnitudes, the default one for example.
\<close>

declare One_nat_def [simp del]

section \<open>Normalising the prior\<close>

lemma positive_double_ge: "wfd x \<Longrightarrow> 0 < fval x \<Longrightarrow> p2 (- 1074) \<le> fval x"
proof (cases x)
  case (Fin s m e)
  assume x: "wfd x" "0 < fval x"
  then have "1 \<le> m" "- 1074 \<le> e" "\<not> s" by (auto simp: Fin smant_def binary64_def zero_less_mult_iff split: if_splits)
  have "p2 (- 1074) \<le> p2 e" unfolding p2_le by fact
  also have "1 * p2 e \<le> of_int m * p2 e" using \<open>1 \<le> m\<close> by (intro mult_right_mono) simp_all
  finally show ?thesis using \<open>\<not> s\<close> by (simp only: Fin fval.simps smant_def if_False mult_1)
qed simp_all

lemma prior_row_prob:
  assumes row: "length row = 5" "\<forall>x \<in> set row. dbl_in 0 count_bound x" and mass: "\<exists>x \<in> set row. 0 < fval x"
  shows "prob_vector (prior_row row) \<and> (\<exists>x \<in> set (prior_row row). p2 (- 6) \<le> fval x)"
proof -
  define mx where "mx = Max (fval ` set row)"
  have mx: "mx \<in> fval ` set row" "\<forall>x \<in> set row. fval x \<le> mx"
    using row(1) unfolding mx_def by (auto intro!: Max_in)
  then obtain x where x: "x \<in> set row" "fval x = mx" by auto
  have xf: "dbl_in 0 count_bound x" using row(2) x(1) by simp
  have pos: "0 < mx" using mass mx(2) by force
  have low: "p2 (- 1074) \<le> mx" using positive_double_ge [of x] xf pos x(2) by (simp add: dbl_in_def)
  define j where "j = flog mx + 1"
  have j: "mx \<le> p2 j" "p2 (j - 1) \<le> mx" using flog_bounds [OF pos] by (simp_all add: j_def less_imp_le)
  have "p2 (- 1074) < p2 j" using flog_bounds [OF pos] low unfolding j_def by linarith
  then have j1: "- 1074 \<le> j" unfolding p2_less by simp
  have "p2 (j - 1) \<le> p2 100" using j(2) x(2) xf by (auto simp: dbl_in_def count_bound_def)
  then have j2: "j \<le> 101" unfolding p2_le by simp
  have all: "\<forall>y \<in> set row. dbl_in 0 (p2 j) y" using row(2) mx(2) j(1) by (auto simp: dbl_in_def)
  have s: "dbl_in 0 (p2 (j + 5)) (dsum row)" "\<forall>y \<in> set row. fval y \<le> fval (dsum row)"
    using dsum_in [OF all j1] row(1) j2 by simp_all
  note sf = dbl_in_facts [OF s(1)]
  have sp: "0 < fval (dsum row)" using s(2) x pos by force
  have q: "dbl_in 0 1 (ddiv y (dsum row))" if "y \<in> set row" for y
    using that all s(2) by (intro quotient_in [OF _ sf(1,2) sp]) auto
  have "p2 (- 6) * fval (dsum row) \<le> p2 (- 6) * p2 (j + 5)" using sf(4) by (intro mult_left_mono) simp_all
  also have "\<dots> = p2 (- 6 + (j + 5))" by (rule p2_add [symmetric])
  also have "\<dots> = p2 (j - 1)" by simp
  also have "\<dots> \<le> fval x" using j(2) x(2) by simp
  finally have r: "p2 (- 6) \<le> fval x / fval (dsum row)" using sp by (simp add: pos_le_divide_eq)
  have "dbl_in (p2 (- 6)) 1 (ddiv x (dsum row))"
    by (rule ddiv_in(1) [OF _ _ sf(1,2) _ grid_p2 grid_one r]) (use xf sp s(2) x(1) in \<open>simp_all add: dbl_in_def divide_le_eq del: wff.simps\<close>)
  then show ?thesis
    using q x(1) row(1) by (auto simp: prior_row_def prob_vector_def dbl_in_def simp del: wff.simps)
qed

section \<open>Configurations of sane magnitudes\<close>

definition hmm_config_ok :: "adaptive_config \<Rightarrow> bool" where
  "hmm_config_ok c \<longleftrightarrow>
     dbl_in 0 1 (emission_alpha c) \<and> dbl_in 0 1 (transition_forgetting c) \<and>
     dbl_in (p2 (- 500)) count_bound (transition_smoothing c) \<and>
     dbl_in 0 count_bound (transition_prior_strength c) \<and>
     dbl_in 0 variance_bound (min_emission_variance c) \<and> 0 < fval (min_emission_variance c) \<and>
     length (initial_probability c) = 5 \<and> (\<forall>x \<in> set (initial_probability c). dbl_in 0 count_bound x) \<and>
     length (transition_prior c) = 5 \<and>
     (\<forall>row \<in> set (transition_prior c). length row = 5 \<and> (\<forall>x \<in> set row. dbl_in 0 count_bound x) \<and>
        (\<exists>x \<in> set row. 0 < fval x)) \<and>
     (\<forall>s < 5. \<forall>k < 5. sane_metric (emission_mean c ! s ! k) \<and> dbl_in 0 variance_bound (emission_variance c ! s ! k))"

lemma hmm_init_establishes:
  assumes "hmm_config_ok c"
  shows "\<exists>h. adaptive_hmm_init True (Some c) = Inr h \<and> hmm_inv h \<and> hmm_hold h = recovery_hold c \<and>
    recovery_remaining h = 0 \<and> previous_state h = hmm_state h"
proof -
  note c = assms [unfolded hmm_config_ok_def]
  have init: "prob_vector (normalize_values (initial_probability c))"
    by (rule normalize_values_prob [of _ 100]) (use c in \<open>auto simp: count_bound_def\<close>)
  have prior: "prob_vector (prior_row row) \<and> (\<exists>x \<in> set (prior_row row). p2 (- 6) \<le> fval x)"
    if "row \<in> set (transition_prior c)" for row
    using c that by (intro prior_row_prob) auto
  have cb: "grid count_bound" unfolding count_bound_def by (rule grid_p2) simp_all
  have cnt: "dbl_in 0 count_bound (dmul (transition_prior_strength c) x)" if "dbl_in 0 1 x" for x
  proof -
    have "dbl_in 0 count_bound (transition_prior_strength c)" using c by simp
    note sf = dbl_in_facts [OF this] and xf = dbl_in_facts [OF that]
    have "fval (transition_prior_strength c) * fval x \<le> count_bound * 1" using sf xf by (intro mult_mono) auto
    then show ?thesis using dmul_in(1) [OF sf(1,2) xf(1,2) grid_zero cb] sf xf by simp
  qed
  have counts: "length row = 5 \<and> (\<forall>x \<in> set row. dbl_in 0 count_bound x)"
    if r: "row \<in> set (map (map (dmul (transition_prior_strength c))) (map prior_row (transition_prior c)))" for row
    using r prior cnt by (fastforce simp: prob_vector_def)
  show ?thesis
    using init prior counts c largest_probability_less
    by (simp add: adaptive_hmm_init_def Let_def hmm_inv_def hmm_parameters_ok_def)
qed

text \<open>
  C29: from a configuration whose learning parameters and tables have sane magnitudes,
  initialisation succeeds and establishes the invariant, so that \<open>hmm_step_inv\<close> applies to
  every later observation.
\<close>

theorem hmm_init_inv:
  assumes "hmm_config_ok c"
  shows "\<exists>h. adaptive_hmm_init True (Some c) = Inr h \<and> hmm_inv h \<and> hmm_hold h = recovery_hold c \<and>
    recovery_remaining h = 0 \<and> previous_state h = hmm_state h"
  using hmm_init_establishes [OF assms] .

section \<open>The default configuration\<close>

lemma unit_ddec: "0 \<le> n \<Longrightarrow> n \<le> 10 ^ k \<Longrightarrow> dbl_in 0 1 (ddec n k)"
  using mass_ddec [of n k] by (simp add: mass_upto_def number_def dbl_in_def del: wff.simps)

lemma one_le_bounds: "1 \<le> count_bound" "1 \<le> variance_bound" "100 \<le> count_bound"
proof -
  have "p2 7 \<le> p2 100" unfolding p2_le by simp
  then show "100 \<le> count_bound" "1 \<le> count_bound" by (simp_all add: count_bound_def)
qed simp

lemma count_ddec: "0 \<le> n \<Longrightarrow> n \<le> 10 ^ k \<Longrightarrow> dbl_in 0 count_bound (ddec n k)"
  using unit_ddec one_le_bounds by (meson dbl_in_weaken order.refl)

lemma sane_ddec: "\<bar>n\<bar> \<le> 2 ^ 20 * 10 ^ k \<Longrightarrow> sane_metric (ddec n k)"
proof -
  assume n: "\<bar>n\<bar> \<le> 2 ^ 20 * 10 ^ k"
  then have "real_of_int \<bar>n\<bar> \<le> of_int (2 ^ 20 * 10 ^ k)" by (simp only: of_int_le_iff)
  then have "\<bar>real_of_int n / 10 ^ k\<bar> \<le> p2 20" by (simp add: divide_le_eq)
  also have "p2 20 \<le> metric_bound" unfolding metric_bound_def p2_le by simp
  finally have b: "- metric_bound \<le> real_of_int n / 10 ^ k" "real_of_int n / 10 ^ k \<le> metric_bound"
    by linarith+
  show ?thesis
    using ddec_facts [OF n] rnd_between [OF _ _ b] by (simp add: number_def dbl_in_def del: wff.simps)
qed

lemma quarter: "ddec 25 2 = Fin False 4503599627370496 (-54)"
  by code_simp

lemma default_smoothing: "dbl_in (p2 (- 500)) count_bound (ddec 25 2)"
proof -
  have "fval (ddec 25 2) = p2 (- 2)" by (simp add: quarter smant_def power_int_minus divide_simps)
  moreover have "p2 (- 500) \<le> p2 (- 2)" "p2 (- 2) \<le> p2 100" unfolding p2_le by simp_all
  moreover have "fisfinite (ddec 25 2)" by (simp add: quarter)
  ultimately show ?thesis using wff_ddec [of 25 2] unfolding dbl_in_def count_bound_def by (simp del: wff.simps power_int_numeral)
qed

lemma default_hmm_config: "hmm_config_ok default_config"
proof -
  have strength: "dbl_in 0 count_bound (ddec 80 1)"
  proof -
    have n: "number (ddec 80 1)" and v: "fval (ddec 80 1) = rnd binary64 8" using ddec_facts [of 80 1] by simp_all
    have "rnd binary64 8 = 8" using rnd_nat [of 8] by simp
    then show ?thesis using n v one_le_bounds by (simp add: dbl_in_def number_def del: wff.simps)
  qed
  have var: "dbl_in 0 variance_bound (ddec 5 2)" "0 < fval (ddec 5 2)" "dbl_in 0 variance_bound (ddec 10 1)"
    using unit_ddec [of 5 2] unit_ddec [of 10 1] one_le_bounds ddec_lower [of 5 2]
    by (auto intro: dbl_in_weaken)
  have mean: "sane_metric (dadd (ddec 0 1) (ddec 25 2))"
  proof -
    have u: "dbl_in 0 1 (ddec 0 1)" "dbl_in 0 1 (ddec 25 2)" by (rule unit_ddec; simp)+
    note a = dbl_in_facts [OF u(1)] and b = dbl_in_facts [OF u(2)]
    have "fval (ddec 0 1) + fval (ddec 25 2) \<le> p2 1" using a b by simp
    then have "dbl_in 0 (p2 1) (dadd (ddec 0 1) (ddec 25 2))"
      using dadd_in(1) [OF a(1,2) b(1,2) grid_zero grid_p2, of 1] a b by simp
    moreover have "p2 1 \<le> metric_bound" unfolding metric_bound_def p2_le by simp
    ultimately show ?thesis using metric_bounds(1) by (auto simp: dbl_in_def simp del: wff.simps)
  qed
  have five: "k < 5 \<Longrightarrow> k = 0 \<or> k = 1 \<or> k = 2 \<or> k = 3 \<or> k = 4" for k :: nat by auto
  have tables: "sane_metric (emission_mean default_config ! s ! k) \<and>
      dbl_in 0 variance_bound (emission_variance default_config ! s ! k)" if "s < 5" "k < 5" for s k
    using that five [of s] mean var(3) unfolding default_fields by (auto simp: sane_ddec)
  have rows: "\<forall>row \<in> set (transition_prior default_config). length row = 5 \<and>
      (\<forall>x \<in> set row. dbl_in 0 count_bound x) \<and> (\<exists>x \<in> set row. 0 < fval x)"
    unfolding default_fields by (simp add: count_ddec ddec_lower)
  have init: "\<forall>x \<in> set (initial_probability default_config). dbl_in 0 count_bound x"
    using count_ddec [of 10 1] dbl_in_zero [of 0 count_bound] one_le_bounds by (simp add: default_fields)
  show ?thesis
    unfolding hmm_config_ok_def
    using strength var tables rows init default_smoothing unit_ddec [of 25 3] unit_ddec [of 995 3]
    by (simp add: default_fields(1-13)) (simp add: default_fields)
qed

text \<open>The zero functions are the simplest library that keeps the documented bounds.\<close>

lemma zero_libm_ok: "libm_ok zero_libm"
  using dbl_in_zero [of "- 1024" 1024] dbl_in_zero [of 0 1] by (simp add: libm_ok_def zero_libm_def)

theorem hmm_init_inv_witness:
  "\<exists>h. adaptive_hmm_init True (Some default_config) = Inr h \<and> hmm_inv h \<and> hmm_hold h = 3"
  using hmm_init_inv [OF default_hmm_config] by (auto simp: default_fields)

lemma default_hmm: "\<exists>h. adaptive_hmm_init True (Some default_config) = Inr h \<and> hmm_inv h \<and> hmm_hold h = 3"
  using hmm_init_establishes [OF default_hmm_config] by (auto simp: default_fields)

theorem hmm_step_inv_witness:
  "\<exists>h s p h'. hmm_inv h \<and> adaptive_hmm_step zero_libm (Some h) (Some (replicate 5 dzero)) True = (Inr (s, p), Some h') \<and>
     s < 5 \<and> prob_vector p \<and> hmm_inv h'"
proof -
  have "scores (replicate 5 dzero)" using dbl_in_zero [of "-6" 6] by (simp add: scores_def)
  then show ?thesis using default_hmm hmm_step_inv [OF zero_libm_ok] by blast
qed

end
