(* ===== verification/Hmm_Recovery.thy ===== *)
theory Hmm_Recovery
  imports Hmm_Start
begin

text \<open>
  The history-dependent part of the model as a state machine over the reported state and
  the count of observations RECOVERY is still held. \<open>mode_step\<close> is the contract; the code's
  selection implements exactly it, and the results about runs are proved on it.
\<close>

declare One_nat_def [simp del]

section \<open>The contract\<close>

inductive mode_step :: "nat \<Rightarrow> nat \<times> nat \<Rightarrow> nat \<times> nat \<Rightarrow> bool" for hold where
  stay_out: "s \<in> {0, 1, 2} \<Longrightarrow> t \<in> {0, 1, 2, 3} \<Longrightarrow> mode_step hold (s, r) (t, r)"
| congested: "mode_step hold (3, r) (3, r)"
| leave_congested: "mode_step hold (3, r) (4, hold)"
| hold_recovery: "0 < r \<Longrightarrow> mode_step hold (4, r) (4, r - 1)"
| congested_again: "mode_step hold (4, r) (3, 0)"
| leave_recovery: "t \<in> {0, 1, 2} \<Longrightarrow> mode_step hold (4, 0) (t, 0)"

inductive_cases mode_stepE: "mode_step hold (s, r) (t, q)"

inductive_simps mode_step_congested: "mode_step hold (3, r) (t, q)"
inductive_simps mode_step_recovery: "mode_step hold (4, r) (t, q)"

lemma select_state_cases:
  "select_state hold from r c =
     (if from = 3 \<and> c \<noteq> 3 then (4, hold)
      else if from = 4 then
        if c = 3 then (3, 0) else if 0 < r then (4, r - 1) else if c = 4 then (1, r) else (c, r)
      else if c = 4 then (1, r) else (c, r))"
  by (simp add: select_state_def)

text \<open>The selection makes exactly the steps of the contract, each for some candidate.\<close>

lemma select_state_mode_step:
  assumes "s < 5" shows "(\<exists>c < 5. select_state hold s r c = (t, q)) \<longleftrightarrow> mode_step hold (s, r) (t, q)"
proof
  have five: "c < 5 \<Longrightarrow> c = 0 \<or> c = 1 \<or> c = 2 \<or> c = 3 \<or> c = 4" for c :: nat by auto
  assume "\<exists>c < 5. select_state hold s r c = (t, q)"
  then obtain c where c: "c < 5" "select_state hold s r c = (t, q)" by blast
  from c(2) show "mode_step hold (s, r) (t, q)"
    using five [OF assms] five [OF c(1)]
    by (elim disjE) (auto simp: select_state_cases mode_step.simps split: if_splits)
next
  assume "mode_step hold (s, r) (t, q)"
  then show "\<exists>c < 5. select_state hold s r c = (t, q)"
  proof cases
    case stay_out
    then show ?thesis by (intro exI [of _ t]) (auto simp: select_state_cases)
  next
    case congested
    then show ?thesis by (intro exI [of _ 3]) (auto simp: select_state_cases)
  next
    case leave_congested
    then show ?thesis by (intro exI [of _ 0]) (auto simp: select_state_cases)
  next
    case hold_recovery
    then show ?thesis by (intro exI [of _ 0]) (auto simp: select_state_cases)
  next
    case congested_again
    then show ?thesis by (intro exI [of _ 3]) (auto simp: select_state_cases)
  next
    case leave_recovery
    then show ?thesis by (intro exI [of _ t]) (auto simp: select_state_cases)
  qed
qed

section \<open>Runs\<close>

text \<open>The states reported for a list of observations, and the model at the end.\<close>

fun hmm_run :: "libm \<Rightarrow> adaptive_hmm \<Rightarrow> network_metrics list \<Rightarrow> nat list \<times> adaptive_hmm" where
  "hmm_run m h [] = ([], h)"
| "hmm_run m h (z # zs) =
     (case adaptive_hmm_step m (Some h) (Some z) True of
        (Inr (s, p), Some h') \<Rightarrow> (let (ss, h'') = hmm_run m h' zs in (s # ss, h''))
      | _ \<Rightarrow> ([], h))"

definition mode :: "adaptive_hmm \<Rightarrow> nat \<times> nat" where
  "mode h = (hmm_state h, recovery_remaining h)"

lemma hmm_step_mode:
  assumes "hmm_state h < 5"
  shows "\<exists>s p h'. adaptive_hmm_step m (Some h) (Some z) True = (Inr (s, p), Some h') \<and> hmm_state h' = s \<and> s < 5 \<and>
    hmm_hold h' = hmm_hold h \<and> mode_step (hmm_hold h) (mode h) (mode h')"
proof -
  define c where "c = largest_probability (posterior m h z)"
  obtain s q where sel: "select_state (hmm_hold h) (hmm_state h) (recovery_remaining h) c = (s, q)" by (metis surj_pair)
  have c: "c < 5" unfolding c_def by (rule largest_probability_less)
  then have "mode_step (hmm_hold h) (hmm_state h, recovery_remaining h) (s, q)"
    using select_state_mode_step [OF assms] sel by blast
  moreover have "s < 5" using sel c by (auto simp: select_state_cases split: if_splits)
  ultimately show ?thesis
    using sel by (simp add: adaptive_hmm_step_def mode_def c_def Let_def update_emissions_def)
qed

text \<open>The mode does not depend on the numbers: a run traces a path of the contract.\<close>

inductive mode_path :: "nat \<Rightarrow> nat \<times> nat \<Rightarrow> nat list \<Rightarrow> bool" for hold where
  path_Nil: "mode_path hold a []"
| path_Cons: "mode_step hold a (s, r) \<Longrightarrow> mode_path hold (s, r) ss \<Longrightarrow> mode_path hold a (s # ss)"

inductive_cases mode_path_ConsE: "mode_path hold a (s # ss)"

lemma hmm_run_path:
  "hmm_state h < 5 \<Longrightarrow> mode_path (hmm_hold h) (mode h) (fst (hmm_run m h zs)) \<and> length (fst (hmm_run m h zs)) = length zs"
proof (induction zs arbitrary: h)
  case Nil
  then show ?case by (simp add: path_Nil)
next
  case (Cons z zs)
  obtain s p h' where st: "adaptive_hmm_step m (Some h) (Some z) True = (Inr (s, p), Some h')" "hmm_state h' = s" "s < 5"
      "hmm_hold h' = hmm_hold h" "mode_step (hmm_hold h) (mode h) (mode h')"
    using hmm_step_mode [OF Cons.prems] by blast
  have "mode h' = (s, recovery_remaining h')" by (simp add: mode_def st(2))
  then show ?case
    using st Cons.IH [of h'] by (auto simp: case_prod_unfold Let_def intro: path_Cons)
qed

lemma recovery_path:
  "mode_path hold (4, r) ss \<Longrightarrow> length ss = Suc r \<Longrightarrow> 3 \<notin> set ss \<Longrightarrow> \<exists>t. ss = replicate r 4 @ [t] \<and> t < 3"
proof (induction r arbitrary: ss)
  case 0
  then obtain t where t: "ss = [t]" by (auto simp: length_Suc_conv)
  then obtain q where "mode_step hold (4, 0) (t, q)" using 0(1) by (auto elim: mode_path_ConsE)
  then show ?case using 0(3) t by (auto simp: mode_step_recovery)
next
  case (Suc r)
  then obtain s rest where ss: "ss = s # rest" by (cases ss) auto
  then obtain q where st: "mode_step hold (4, Suc r) (s, q)" "mode_path hold (s, q) rest"
    using Suc.prems(1) by (auto elim: mode_path_ConsE)
  then have "s = 4" "q = r" using Suc.prems(3) ss by (auto simp: mode_step_recovery)
  then show ?case using Suc.IH [of rest] st(2) Suc.prems ss by simp
qed

text \<open>
  C30: RECOVERY lasts one observation longer than \<open>recovery_hold\<close>. When the model is in
  CONGESTED and the next \<open>hold + 2\<close> reported states do not include CONGESTED, they are
  RECOVERY exactly \<open>hold + 1\<close> times and then one of GOOD, NORMAL and DEGRADED, whatever the
  observations and the learned parameters are.
\<close>

theorem recovery_duration:
  assumes "hmm_state h = state_num CONGESTED" "length zs = hmm_hold h + 2"
    and "state_num CONGESTED \<notin> set (fst (hmm_run m h zs))"
  shows "\<exists>t. fst (hmm_run m h zs) = replicate (hmm_hold h + 1) (state_num RECOVERY) @ [t] \<and>
    t \<in> {state_num GOOD, state_num NORMAL, state_num DEGRADED}"
proof -
  have path: "mode_path (hmm_hold h) (3, recovery_remaining h) (fst (hmm_run m h zs))"
    and len: "length (fst (hmm_run m h zs)) = hmm_hold h + 2"
    using hmm_run_path [of h m zs] assms(1,2) by (simp_all add: mode_def)
  then obtain s rest where ss: "fst (hmm_run m h zs) = s # rest" by (cases "fst (hmm_run m h zs)") auto
  then obtain q where "mode_step (hmm_hold h) (3, recovery_remaining h) (s, q)" "mode_path (hmm_hold h) (s, q) rest"
    using path by (auto elim: mode_path_ConsE)
  moreover have "s \<noteq> 3" using assms(3) ss by simp
  ultimately have "s = 4" "mode_path (hmm_hold h) (4, hmm_hold h) rest" by (auto simp: mode_step_congested)
  moreover have "length rest = Suc (hmm_hold h)" "3 \<notin> set rest" using len ss assms(3) by simp_all
  ultimately obtain t where "rest = replicate (hmm_hold h) 4 @ [t]" "t < 3" using recovery_path by blast
  moreover have "4 # replicate (hmm_hold h) (4 :: nat) = replicate (hmm_hold h + 1) 4" by (simp add: One_nat_def)
  ultimately show ?thesis using ss \<open>s = 4\<close> by auto
qed

section \<open>Entering RECOVERY\<close>

text \<open>
  C31: every observation moves the model by a step of the contract, so RECOVERY is entered
  from CONGESTED only, CONGESTED is left to RECOVERY only, and RECOVERY is left early to
  CONGESTED only; conversely every step of the contract is taken for some candidate.
\<close>

theorem hmm_step_refines:
  assumes "hmm_state h < 5"
  shows "(\<exists>s p h'. adaptive_hmm_step m (Some h) (Some z) True = (Inr (s, p), Some h') \<and>
      mode_step (hmm_hold h) (mode h) (mode h') \<and> hmm_hold h' = hmm_hold h \<and>
      (s = state_num RECOVERY \<longrightarrow> hmm_state h \<in> {state_num CONGESTED, state_num RECOVERY}) \<and>
      (hmm_state h = state_num CONGESTED \<longrightarrow> s \<in> {state_num CONGESTED, state_num RECOVERY}) \<and>
      (hmm_state h = state_num RECOVERY \<and> 0 < recovery_remaining h \<longrightarrow> s \<in> {state_num CONGESTED, state_num RECOVERY})) \<and>
    (\<forall>b. mode_step (hmm_hold h) (mode h) b \<longrightarrow>
      (\<exists>c < 5. select_state (hmm_hold h) (hmm_state h) (recovery_remaining h) c = b))"
proof -
  obtain s p h' where st: "adaptive_hmm_step m (Some h) (Some z) True = (Inr (s, p), Some h')" "hmm_state h' = s"
      "hmm_hold h' = hmm_hold h" "mode_step (hmm_hold h) (hmm_state h, recovery_remaining h) (s, recovery_remaining h')"
    using hmm_step_mode [OF assms] unfolding mode_def by blast
  have "s = 4 \<longrightarrow> hmm_state h \<in> {3, 4}" "hmm_state h = 3 \<longrightarrow> s \<in> {3, 4}"
    "hmm_state h = 4 \<and> 0 < recovery_remaining h \<longrightarrow> s \<in> {3, 4}"
    using st(4) by (auto elim!: mode_stepE)
  then show ?thesis using st select_state_mode_step [OF assms] by (auto simp: mode_def)
qed

section \<open>Witnesses\<close>

text \<open>
  With a library whose exponential is zero every posterior is uniform, so the candidate is
  GOOD and the model walks from CONGESTED through RECOVERY.
\<close>

lemma zero_candidate:
  assumes inv: "hmm_inv h" and z: "scores z"
  shows "largest_probability (posterior zero_libm h z) = 0"
proof -
  have nil: "dbl_in 0 (p2 (- 1074)) (dmul (prediction h j) dzero)" if "j < 5" for j
  proof -
    have z0: "dbl_in 0 0 dzero" by (rule dbl_in_zero) simp_all
    note pf = dbl_in_facts [OF prediction_in [OF inv that]] and zf = dbl_in_facts [OF z0]
    have "fval (prediction h j) * fval dzero = 0" using zf by simp
    then show ?thesis using dmul_in(1) [OF pf(1,2) zf(1,2) grid_zero grid_p2, of "- 1074"] by simp
  qed
  define xs where "xs = map (\<lambda>j. dmul (prediction h j) dzero) [0..<5]"
  have "dbl_in 0 (p2 (- 1074 + 5)) (dsum xs)"
    using dsum_in [of xs "- 1074"] nil by (simp add: xs_def)
  moreover have "p2 (- 1074 + 5) \<le> fval dbl_min"
  proof -
    have "fval dbl_min = p2 (52 + - 1074)" unfolding p2_add dbl_min_def fval.simps smant_def by simp
    then show ?thesis by (simp only: p2_le)
  qed
  ultimately have "fle (dsum xs) dbl_min" by (auto simp: dbl_in_def fle_fval dbl_min_pos simp del: wff.simps)
  then have "normalize_values xs = replicate 5 (ddiv (ddec 10 1) (dint 5))"
    by (simp add: normalize_values_def xs_def)
  moreover have "posterior zero_libm h z = normalize_values xs"
    by (simp add: posterior_def zero_libm_def xs_def adaptive_bounds Let_def)
  moreover have "largest_probability (replicate 5 c) = 0" for c
  proof -
    have "\<not> flt c c" by (cases c) (simp_all add: fcmp_def)
    then show ?thesis by (simp add: largest_probability_def adaptive_bounds upt_rec)
  qed
  ultimately show ?thesis by simp
qed

lemma zero_run_not_congested:
  "hmm_inv h \<Longrightarrow> \<forall>z \<in> set zs. scores z \<Longrightarrow> 3 \<notin> set (fst (hmm_run zero_libm h zs))"
proof (induction zs arbitrary: h)
  case (Cons z zs)
  obtain s p h' where st: "adaptive_hmm_step zero_libm (Some h) (Some z) True = (Inr (s, p), Some h')" "hmm_inv h'"
    using hmm_step_keeps [OF zero_libm_ok Cons.prems(1), of z] Cons.prems(2) by (metis list.set_intros(1))
  have "s = fst (select_state (hmm_hold h) (hmm_state h) (recovery_remaining h) 0)"
    using st(1) zero_candidate [of h z] Cons.prems by (simp add: adaptive_hmm_step_def Let_def case_prod_unfold)
  then have "s \<noteq> 3" by (simp add: select_state_cases)
  then show ?case using st Cons.IH [OF st(2)] Cons.prems(2) by (simp add: case_prod_unfold Let_def)
qed simp

lemma recovery_duration_witness:
  "\<exists>h t. hmm_state h = state_num CONGESTED \<and> hmm_hold h = 3 \<and>
     fst (hmm_run zero_libm h (replicate 5 (replicate 5 dzero))) = [4, 4, 4, 4, t] \<and> t \<in> {0, 1, 2}"
proof -
  obtain h where h: "hmm_inv h" "hmm_hold h = 3" using default_hmm by blast
  define g where "g = h\<lparr>hmm_state := 3\<rparr>"
  have g: "hmm_inv g" "hmm_hold g = 3" "hmm_state g = state_num CONGESTED"
    using h by (simp_all add: g_def hmm_inv_def hmm_parameters_ok_def)
  have "scores (replicate 5 dzero)" using dbl_in_zero [of "-6" 6] by (simp add: scores_def)
  then have "3 \<notin> set (fst (hmm_run zero_libm g (replicate 5 (replicate 5 dzero))))"
    by (intro zero_run_not_congested [OF g(1)]) simp
  then obtain t where "fst (hmm_run zero_libm g (replicate 5 (replicate 5 dzero))) = replicate (3 + 1) 4 @ [t]"
      "t \<in> {0, 1, 2}"
    using recovery_duration [of g "replicate 5 (replicate 5 dzero)" zero_libm] g by auto
  moreover have "replicate (3 + 1) (4 :: nat) = [4, 4, 4, 4]" by (simp add: numeral_eq_Suc)
  ultimately show ?thesis using g by auto
qed

lemma hmm_step_refines_witness:
  "\<exists>h. hmm_state h < 5 \<and> (\<exists>s p h'. adaptive_hmm_step zero_libm (Some h) (Some (replicate 5 dzero)) True =
     (Inr (s, p), Some h') \<and> mode_step (hmm_hold h) (mode h) (mode h'))"
proof -
  obtain h where "hmm_inv h" using default_hmm by blast
  then have "hmm_state h < 5" by (simp add: hmm_inv_def)
  then show ?thesis using hmm_step_refines [of h zero_libm "replicate 5 dzero"] by blast
qed

end
