(* ===== verification/Pipeline.thy ===== *)
theory Pipeline
  imports Aad Security Hmm
begin

text \<open>
  \<^verbatim>\<open>include/adaptive/pipeline.h\<close> and \<^verbatim>\<open>src/pipeline.c\<close>: one sensor window from the network
  metrics to the packets. The transport is a function argument with a state of its own, as
  the callback and its context are in the code; the session the pipeline points to is part
  of its state. \<open>write_u32_be\<close> is the writer of \<^verbatim>\<open>Byte_Order\<close>, which the file repeats.
\<close>

record 'c adaptive_pipeline =
  pl_config :: adaptive_config
  pl_normalizer :: adaptive_normalizer
  pl_hmm :: adaptive_hmm
  pl_security :: "'c security_session option"
  next_window_id :: u32
  next_message_id :: u16

record pipeline_stats =
  st_window_id :: u32
  st_state :: nat
  state_probability :: double
  st_sampling_factor :: double
  input_bytes :: nat
  compressed_bytes :: nat
  protected_body_bytes :: nat
  block_count :: nat
  st_block_szx :: u8
  compression_ratio :: double

text \<open>A transport returns a result code; anything but \<open>ADAPTIVE_OK\<close> stops the window.\<close>

type_synonym 's send_fn = "bytes \<Rightarrow> 's \<Rightarrow> adaptive_result \<times> 's"

definition adaptive_pipeline_init ::
    "bool \<Rightarrow> adaptive_config option \<Rightarrow> 'c security_session option \<Rightarrow> 'c adaptive_pipeline outcome" where
  "adaptive_pipeline_init pipeline_ok config security =
     (case (config, security) of
        (Some c, Some s) \<Rightarrow>
          if \<not> pipeline_ok \<or> sess_seal s = None \<or> sess_overhead s = 0 then Inl ADAPTIVE_ERR_ARGUMENT
          else
            outcome_bind (adaptive_hmm_init True config) (\<lambda>hmm.
              Inr \<lparr>pl_config = c,
                   pl_normalizer =
                     the (adaptive_normalizer_init (Some zero_normalizer) (baseline_alpha c) (baseline_epsilon c)),
                   pl_hmm = hmm, pl_security = security, next_window_id = 1, next_message_id = 1\<rparr>)
      | _ \<Rightarrow> Inl ADAPTIVE_ERR_ARGUMENT)"

section \<open>The blocks of a window\<close>

text \<open>What stays fixed while the blocks of one window are sent.\<close>

record transfer =
  tr_window_id :: u32
  tr_state :: nat
  tr_bytes :: bytes          \<comment> \<open>the representation\<close>
  tr_block_size :: nat
  tr_capacity :: nat         \<comment> \<open>plaintext bytes per block\<close>
  tr_count :: nat            \<comment> \<open>number of blocks\<close>
  tr_total :: nat            \<comment> \<open>bytes of all records\<close>

definition pipeline_block :: "adaptive_config \<Rightarrow> transfer \<Rightarrow> u16 \<Rightarrow> nat \<Rightarrow> u8 \<Rightarrow> coap_block" where
  "pipeline_block c t mid n more_blocks =
     zero_block\<lparr>cb_type := ADAPTIVE_COAP_TYPE_CON, cb_code := ADAPTIVE_COAP_CODE_POST, message_id := mid,
       token_length := 4, token := write_u32_be (tr_window_id t) @ drop 4 (token zero_block),
       block_number := word_of_nat n, more_flag := more_blocks, szx := block_szx c ! tr_state t,
       content_format := config_content_format c, size1 := word_of_nat (tr_total t)\<rparr>"

text \<open>
  One turn of the loop: seal, check the record's size, build the packet, send it. The
  result is the number of plaintext bytes the block took.
\<close>

definition send_block ::
    "'s send_fn \<Rightarrow> transfer \<Rightarrow> nat \<Rightarrow> nat \<Rightarrow> 'c adaptive_pipeline \<Rightarrow> 's \<Rightarrow> nat outcome \<times> 'c adaptive_pipeline \<times> 's" where
  "send_block send t n offset p s =
     (let remaining = length (tr_bytes t) - offset;
          plaintext_length = (if remaining < tr_capacity t then remaining else tr_capacity t);
          more_blocks = (if n + 1 < tr_count t then 1 else 0);
          block = pipeline_block (pl_config p) t (next_message_id p) n more_blocks;
          p1 = p\<lparr>next_message_id := next_message_id p + 1\<rparr>;
          aad = adaptive_pipeline_build_aad (Some block) True;
          (sealed, security) =
            adaptive_security_seal (pl_security p1) (Some (drop offset (tr_bytes t))) plaintext_length
              (Some aad) (length aad) True ADAPTIVE_MAX_BLOCK_SIZE True;
          p2 = p1\<lparr>pl_security := security\<rparr>
      in case sealed of
           Inl e \<Rightarrow> (Inl e, p2, s)
         | Inr rec \<Rightarrow>
             if tr_block_size t < length rec \<or> (more_blocks \<noteq> 0 \<and> length rec \<noteq> tr_block_size t)
             then (Inl ADAPTIVE_ERR_FORMAT, p2, s)
             else case adaptive_coap_build_block1
                    (Some (block\<lparr>payload := Some rec, payload_length := length rec\<rparr>))
                    (Some (uri_path (pl_config p))) True ADAPTIVE_MAX_COAP_PACKET True of
               Inl e \<Rightarrow> (Inl e, p2, s)
             | Inr packet \<Rightarrow>
                 (case send packet s of
                    (r, s') \<Rightarrow> if r \<noteq> ADAPTIVE_OK then (Inl r, p2, s') else (Inr plaintext_length, p2, s')))"

function send_blocks ::
    "'s send_fn \<Rightarrow> transfer \<Rightarrow> nat \<Rightarrow> nat \<Rightarrow> 'c adaptive_pipeline \<Rightarrow> 's \<Rightarrow> unit outcome \<times> 'c adaptive_pipeline \<times> 's" where
  "send_blocks send t n offset p s =
     (if n < tr_count t then
        (case send_block send t n offset p s of
           (Inl e, p', s') \<Rightarrow> (Inl e, p', s')
         | (Inr plaintext_length, p', s') \<Rightarrow> send_blocks send t (n + 1) (offset + plaintext_length) p' s')
      else (Inr (), p, s))"
  by pat_completeness auto
termination
  by (relation "measure (\<lambda>(send, t, n, offset, p, s). tr_count t - n)") auto

declare send_blocks.simps [simp del]

section \<open>One window\<close>

text \<open>The transfer for a representation, or the error of the size checks.\<close>

definition plan_transfer ::
    "adaptive_config \<Rightarrow> nat \<Rightarrow> u32 \<Rightarrow> nat \<Rightarrow> bytes \<Rightarrow> transfer outcome" where
  "plan_transfer c overhead window_id state rep =
     (let block_size = adaptive_coap_block_size (block_szx c ! state)
      in if block_size = 0 \<or> ADAPTIVE_MAX_BLOCK_SIZE < block_size \<or> block_size \<le> overhead
         then Inl ADAPTIVE_ERR_RANGE
         else
           let capacity = block_size - overhead;
               blocks = (length rep + capacity - 1) div capacity;
               total_protected = length rep + blocks * overhead
           in if 4294967295 < total_protected then Inl ADAPTIVE_ERR_RANGE
              else Inr \<lparr>tr_window_id = window_id, tr_state = state, tr_bytes = rep, tr_block_size = block_size,
                     tr_capacity = capacity, tr_count = blocks, tr_total = total_protected\<rparr>)"

definition window_stats ::
    "adaptive_config \<Rightarrow> transfer \<Rightarrow> double list \<Rightarrow> nat \<Rightarrow> pipeline_stats" where
  "window_stats c t probabilities sample_count =
     \<lparr>st_window_id = tr_window_id t, st_state = tr_state t, state_probability = probabilities ! tr_state t,
      st_sampling_factor = sampling_factor c ! tr_state t, input_bytes = sample_count * 4,
      compressed_bytes = length (tr_bytes t), protected_body_bytes = tr_total t, block_count = tr_count t,
      st_block_szx = block_szx c ! tr_state t,
      compression_ratio = ddiv (dint (int (length (tr_bytes t)))) (dint (int (sample_count * 4)))\<rparr>"

text \<open>
  The steps after the state estimate: encode, plan and send. They are given the pipeline
  with the new window id already taken.
\<close>

definition send_window ::
    "libm \<Rightarrow> 's send_fn \<Rightarrow> float32 list \<Rightarrow> nat \<Rightarrow> u32 \<Rightarrow> nat \<Rightarrow> double list \<Rightarrow> 'c adaptive_pipeline \<Rightarrow> 's \<Rightarrow>
     pipeline_stats outcome \<times> 'c adaptive_pipeline \<times> 's" where
  "send_window m send xs sample_count window_id state probabilities p s =
     (case adaptive_codec_encode m (Some xs) sample_count window_id state (Some (pl_config p))
             True ADAPTIVE_MAX_REPRESENTATION True of
        Inl e \<Rightarrow> (Inl e, p, s)
      | Inr (rep, md) \<Rightarrow>
          (case plan_transfer (pl_config p) (sess_overhead (the (pl_security p))) window_id state rep of
             Inl e \<Rightarrow> (Inl e, p, s)
           | Inr t \<Rightarrow>
               (case send_blocks send t 0 0 p s of
                  (Inl e, p', s') \<Rightarrow> (Inl e, p', s')
                | (Inr _, p', s') \<Rightarrow> (Inr (window_stats (pl_config p') t probabilities sample_count), p', s'))))"

definition adaptive_pipeline_process ::
    "libm \<Rightarrow> 'c adaptive_pipeline option \<Rightarrow> float32 list option \<Rightarrow> nat \<Rightarrow> network_metrics option \<Rightarrow>
     's send_fn option \<Rightarrow> 's \<Rightarrow> pipeline_stats outcome \<times> 'c adaptive_pipeline option \<times> 's" where
  "adaptive_pipeline_process m pipeline samples sample_count metrics send s =
     (case (pipeline, samples, metrics, send) of
        (Some p, Some xs, Some raw, Some f) \<Rightarrow>
          if sample_count \<noteq> window_size (pl_config p) then (Inl ADAPTIVE_ERR_ARGUMENT, pipeline, s)
          else
            (case adaptive_normalizer_update (Some (pl_normalizer p)) metrics True of
               (Inl e, n) \<Rightarrow> (Inl e, Some (p\<lparr>pl_normalizer := the n\<rparr>), s)
             | (Inr normalized, n) \<Rightarrow>
                 (case adaptive_hmm_step m (Some (pl_hmm p)) (Some normalized) True of
                    (Inl e, h) \<Rightarrow> (Inl e, Some (p\<lparr>pl_normalizer := the n, pl_hmm := the h\<rparr>), s)
                  | (Inr (state, probabilities), h) \<Rightarrow>
                      (case send_window m f xs sample_count (next_window_id p) state probabilities
                              (p\<lparr>pl_normalizer := the n, pl_hmm := the h,
                                 next_window_id := next_window_id p + 1\<rparr>) s of
                         (r, p', s') \<Rightarrow> (r, Some p', s'))))
      | _ \<Rightarrow> (Inl ADAPTIVE_ERR_ARGUMENT, pipeline, s))"

end
