(* ===== verification/Loopback.thy ===== *)
theory Loopback
  imports Pipeline Receiver
begin

text \<open>
  The in-process transport of \<^verbatim>\<open>src/main.c\<close>: the pipeline's send callback hands every packet
  to a receiver. The sample array keeps what a shorter window does not overwrite.
\<close>

record 'c loopback =
  lb_receiver :: "'c adaptive_receiver"
  lb_samples :: "float32 list"
  lb_sample_count :: nat
  lb_metadata :: "codec_metadata option"   \<comment> \<open>\<open>None\<close>: still zero\<close>
  complete_windows :: nat

definition loopback_send :: "bytes \<Rightarrow> 'c loopback \<Rightarrow> adaptive_result \<times> 'c loopback" where
  "loopback_send packet l =
     (case adaptive_receiver_accept (Some (lb_receiver l)) (Some packet) True ADAPTIVE_MAX_WINDOW True of
        (result, receiver) \<Rightarrow>
          let l1 = l\<lparr>lb_receiver := the receiver\<rparr>
          in case result of
               Inl e \<Rightarrow> (e, l1)
             | Inr None \<Rightarrow> (ADAPTIVE_OK, l1)
             | Inr (Some (samples, md)) \<Rightarrow>
                 (ADAPTIVE_OK,
                  l1\<lparr>lb_samples := samples @ drop (length samples) (lb_samples l1),
                     lb_sample_count := length samples, lb_metadata := Some md,
                     complete_windows := complete_windows l1 + 1\<rparr>))"

end
