(* ===== verification/Security_Oqs.thy ===== *)
theory Security_Oqs
  imports Security
begin

text \<open>
  \<^verbatim>\<open>src/security_oqs.c\<close>: the ML-KEM, HKDF-SHA-256 and AES-256-GCM provider. The libraries
  it calls, OpenSSL and liboqs, are not part of the repository: what they compute is the
  argument \<open>crypto_library\<close>, one function per sequence of calls, \<open>None\<close> when one of the
  calls of the sequence reports a failure. What is taken from their documentation is stated
  as the hypothesis \<open>gcm_ok\<close>.
\<close>

section \<open>The libraries\<close>

text \<open>
  A key encapsulation scheme as \<open>OQS_KEM_new\<close> returns it, for one run: its sizes and what
  key generation, encapsulation and decapsulation yield.
\<close>

record kem_scheme =
  method_name :: string
  length_public_key :: nat
  length_secret_key :: nat
  length_ciphertext :: nat
  length_shared_secret :: nat
  kem_keypair :: "(bytes \<times> bytes) option"                 \<comment> \<open>public key, secret key\<close>
  kem_encaps :: "bytes \<Rightarrow> (bytes \<times> bytes) option"         \<comment> \<open>ciphertext, shared secret\<close>
  kem_decaps :: "bytes \<Rightarrow> bytes \<Rightarrow> bytes option"          \<comment> \<open>of ciphertext and secret key\<close>

text \<open>
  The arguments of \<open>gcm_encrypt\<close> and \<open>gcm_decrypt\<close> are key, nonce, additional data (all of
  it, in order), then plaintext, or ciphertext and tag.
\<close>

record crypto_library =
  sha256 :: "bytes \<Rightarrow> bytes option"
  hmac_sha256 :: "bytes \<Rightarrow> bytes \<Rightarrow> bytes option"
  gcm_encrypt :: "bytes \<Rightarrow> bytes \<Rightarrow> bytes \<Rightarrow> bytes \<Rightarrow> (bytes \<times> bytes) option"
  gcm_decrypt :: "bytes \<Rightarrow> bytes \<Rightarrow> bytes \<Rightarrow> bytes \<Rightarrow> bytes \<Rightarrow> bytes option"
  kem_new :: "string \<Rightarrow> kem_scheme option"
  default_algorithm :: string                              \<comment> \<open>\<open>OQS_KEM_alg_ml_kem_512\<close>\<close>

definition INT_MAX :: nat where "INT_MAX = 2147483647"

section \<open>Key derivation\<close>

record oqs_context =
  oq_tx_key :: bytes
  oq_rx_key :: bytes
  tx_nonce_base :: bytes
  rx_nonce_base :: bytes
  oq_tx_sequence :: u64
  oq_rx_highest :: u64
  oq_rx_initialized :: bool

definition zero_oqs_context :: oqs_context where
  "zero_oqs_context =
     \<lparr>oq_tx_key = replicate 32 0, oq_rx_key = replicate 32 0, tx_nonce_base = replicate 12 0,
      rx_nonce_base = replicate 12 0, oq_tx_sequence = 0, oq_rx_highest = 0, oq_rx_initialized = False\<rparr>"

definition label_bytes :: "string \<Rightarrow> bytes" where
  "label_bytes s = map of_char s"

definition hkdf_expand :: "crypto_library \<Rightarrow> bytes \<Rightarrow> bytes \<Rightarrow> string \<Rightarrow> bytes outcome" where
  "hkdf_expand lib shared transcript label =
     (if 96 < length label + 1 then Inl ADAPTIVE_ERR_RANGE
      else case sha256 lib transcript of
        None \<Rightarrow> Inl ADAPTIVE_ERR_CRYPTO
      | Some salt \<Rightarrow>
          (case hmac_sha256 lib salt shared of
             None \<Rightarrow> Inl ADAPTIVE_ERR_CRYPTO
           | Some prk \<Rightarrow>
               (case hmac_sha256 lib prk (label_bytes label @ [1]) of
                  None \<Rightarrow> Inl ADAPTIVE_ERR_CRYPTO
                | Some out \<Rightarrow> if length out < 32 then Inl ADAPTIVE_ERR_CRYPTO else Inr (take 32 out))))"

definition make_nonce :: "bytes \<Rightarrow> u64 \<Rightarrow> bytes" where
  "make_nonce base sequence =
     foldl (\<lambda>nonce i. nonce[11 - i := nonce ! (11 - i) XOR ucast (drop_bit (8 * i) sequence)]) base [0..<8]"

section \<open>Seal and open\<close>

definition oqs_header :: "u64 \<Rightarrow> bytes" where
  "oqs_header sequence = ADAPTIVE_SECURITY_RECORD_VERSION # write_u64_be sequence"

text \<open>The sequence number is used up even when the cipher fails.\<close>

definition oqs_seal :: "crypto_library \<Rightarrow> oqs_context seal_fn" where
  "oqs_seal lib context plaintext aad record_capacity =
     (case context of
        None \<Rightarrow> (Inl ADAPTIVE_ERR_CAPACITY, None)
      | Some oqs \<Rightarrow>
          if INT_MAX < length plaintext \<or> INT_MAX < length aad \<or> record_capacity < length plaintext \<or>
             record_capacity - length plaintext < ADAPTIVE_SECURITY_OVERHEAD
          then (Inl ADAPTIVE_ERR_CAPACITY, context)
          else
            let sequence = oq_tx_sequence oqs;
                oqs1 = oqs\<lparr>oq_tx_sequence := sequence + 1\<rparr>;
                header = oqs_header sequence;
                nonce = make_nonce (tx_nonce_base oqs) sequence
            in case gcm_encrypt lib (oq_tx_key oqs) nonce (header @ aad) plaintext of
                 None \<Rightarrow> (Inl ADAPTIVE_ERR_CRYPTO, Some oqs1)
               | Some (ciphertext, tag) \<Rightarrow> (Inr (header @ ciphertext @ tag), Some oqs1))"

definition oqs_open :: "crypto_library \<Rightarrow> oqs_context open_fn" where
  "oqs_open lib context rec aad plaintext_capacity =
     (case context of
        None \<Rightarrow> (Inl ADAPTIVE_ERR_FORMAT, None)
      | Some oqs \<Rightarrow>
          if length rec < ADAPTIVE_SECURITY_OVERHEAD \<or> rec ! 0 \<noteq> ADAPTIVE_SECURITY_RECORD_VERSION \<or>
             INT_MAX < length aad
          then (Inl ADAPTIVE_ERR_FORMAT, context)
          else
            let sequence = read_u64_be (drop 1 rec)
            in if oq_rx_initialized oqs \<and> sequence \<le> oq_rx_highest oqs
               then (Inl ADAPTIVE_ERR_REPLAY, context)
               else
                 let ciphertext_length = length rec - ADAPTIVE_SECURITY_OVERHEAD
                 in if plaintext_capacity < ciphertext_length \<or> INT_MAX < ciphertext_length
                    then (Inl ADAPTIVE_ERR_CAPACITY, context)
                    else
                      let start = 1 + ADAPTIVE_SECURITY_SEQUENCE_BYTES;
                          ciphertext = take ciphertext_length (drop start rec);
                          tag = drop (start + ciphertext_length) rec;
                          nonce = make_nonce (rx_nonce_base oqs) sequence
                      in case gcm_decrypt lib (oq_rx_key oqs) nonce (take start rec @ aad) ciphertext tag of
                           None \<Rightarrow> (Inl ADAPTIVE_ERR_INTEGRITY, context)
                         | Some plaintext \<Rightarrow>
                             (Inr plaintext, Some (oqs\<lparr>oq_rx_highest := sequence, oq_rx_initialized := True\<rparr>)))"

text \<open>What is in the context's memory when it is freed.\<close>

definition oqs_destroy :: "oqs_context destroy_fn" where
  "oqs_destroy context = zero_oqs_context"

section \<open>Creating a pair\<close>

definition initialize_contexts ::
    "crypto_library \<Rightarrow> oqs_context \<Rightarrow> oqs_context \<Rightarrow> bytes \<Rightarrow> bytes \<Rightarrow> (oqs_context \<times> oqs_context) outcome" where
  "initialize_contexts lib client server shared transcript =
     outcome_bind (hkdf_expand lib shared transcript ''adaptive/c2s/key'') (\<lambda>c2s_key.
     outcome_bind (hkdf_expand lib shared transcript ''adaptive/s2c/key'') (\<lambda>s2c_key.
     outcome_bind (hkdf_expand lib shared transcript ''adaptive/c2s/nonce'') (\<lambda>c2s_nonce.
     outcome_bind (hkdf_expand lib shared transcript ''adaptive/s2c/nonce'') (\<lambda>s2c_nonce.
       Inr (client\<lparr>oq_tx_key := c2s_key, oq_rx_key := s2c_key,
                   tx_nonce_base := take 12 c2s_nonce, rx_nonce_base := take 12 s2c_nonce\<rparr>,
            server\<lparr>oq_tx_key := s2c_key, oq_rx_key := c2s_key,
                   tx_nonce_base := take 12 s2c_nonce, rx_nonce_base := take 12 c2s_nonce\<rparr>)))))"

definition set_session :: "crypto_library \<Rightarrow> oqs_context \<Rightarrow> oqs_context security_session" where
  "set_session lib context =
     zero_session\<lparr>sess_context := Some context, sess_seal := Some (oqs_seal lib),
       sess_open := Some (oqs_open lib), sess_destroy := Some oqs_destroy,
       sess_overhead := ADAPTIVE_SECURITY_OVERHEAD, sess_production := True\<rparr>"

record kem_info =
  public_key_bytes :: nat
  secret_key_bytes :: nat
  ciphertext_bytes :: nat
  shared_secret_bytes :: nat
  algorithm_name :: string         \<comment> \<open>\<open>char algorithm[32]\<close>: at most 31 characters\<close>

definition describe_kem :: "kem_scheme \<Rightarrow> kem_info" where
  "describe_kem kem =
     \<lparr>public_key_bytes = length_public_key kem, secret_key_bytes = length_secret_key kem,
      ciphertext_bytes = length_ciphertext kem, shared_secret_bytes = length_shared_secret kem,
      algorithm_name = take 31 (method_name kem)\<rparr>"

text \<open>One key agreement: the shared secret of the client and the ciphertext.\<close>

definition agree :: "kem_scheme \<Rightarrow> (bytes \<times> bytes) option" where
  "agree kem =
     (case kem_keypair kem of
        None \<Rightarrow> None
      | Some (public_key, secret_key) \<Rightarrow>
          (case kem_encaps kem public_key of
             None \<Rightarrow> None
           | Some (ciphertext, client_shared) \<Rightarrow>
               (case kem_decaps kem ciphertext secret_key of
                  None \<Rightarrow> None
                | Some server_shared \<Rightarrow>
                    if client_shared \<noteq> server_shared then None else Some (client_shared, ciphertext))))"

text \<open>
  The flags say whether the session pointers are valid and whether all seven allocations
  succeed. The result is the pair of sessions written, with the description of the scheme;
  on an error the sessions and the description are not written.
\<close>

definition adaptive_security_oqs_pair ::
    "crypto_library \<Rightarrow> bool \<Rightarrow> bool \<Rightarrow> string option \<Rightarrow> bool \<Rightarrow>
     (oqs_context security_session \<times> oqs_context security_session \<times> kem_info) outcome" where
  "adaptive_security_oqs_pair lib client_ok server_ok algorithm allocated =
     (let selected = (case algorithm of Some a \<Rightarrow> a | None \<Rightarrow> default_algorithm lib)
      in if \<not> client_ok \<or> \<not> server_ok then Inl ADAPTIVE_ERR_ARGUMENT
         else case kem_new lib selected of
           None \<Rightarrow> Inl ADAPTIVE_ERR_UNSUPPORTED
         | Some kem \<Rightarrow>
             if \<not> allocated then Inl ADAPTIVE_ERR_CAPACITY
             else case agree kem of
               None \<Rightarrow> Inl ADAPTIVE_ERR_CRYPTO
             | Some (shared, ciphertext) \<Rightarrow>
                 outcome_bind (initialize_contexts lib zero_oqs_context zero_oqs_context shared ciphertext)
                   (\<lambda>(client_context, server_context).
                      Inr (set_session lib client_context, set_session lib server_context, describe_kem kem)))"

text \<open>The version that is compiled without liboqs; \<open>info\<close> is cleared.\<close>

definition oqs_pair_unavailable ::
    "kem_info option \<Rightarrow> (oqs_context security_session \<times> oqs_context security_session) outcome \<times> kem_info option" where
  "oqs_pair_unavailable info =
     (Inl ADAPTIVE_ERR_UNSUPPORTED,
      map_option (\<lambda>_. \<lparr>public_key_bytes = 0, secret_key_bytes = 0, ciphertext_bytes = 0,
        shared_secret_bytes = 0, algorithm_name = []\<rparr>) info)"

end
