(* ===== verification/Demo.thy ===== *)
theory Demo
  imports Loopback Config Security_Test Security_Oqs
begin

text \<open>
  \<^verbatim>\<open>src/main.c\<close>: the demonstration program. It reads its arguments and a configuration file,
  creates a pair of sessions, and sends generated windows through the loopback transport.
  The file system, the sine and cosine of the C library and the outcome of the allocations
  are arguments; what is printed is the list of the rows of its table.
\<close>

section \<open>Generated input\<close>

record trig =
  m_sin :: "double \<Rightarrow> double"
  m_cos :: "double \<Rightarrow> double"

definition generate_sample :: "trig \<Rightarrow> nat \<Rightarrow> nat \<Rightarrow> nat \<Rightarrow> float32" where
  "generate_sample tr count step i =
     (let t = ddiv (dint (int i)) (dint (int count));
          drift = dmul (ddec 15 2) (m_sin tr (ddiv (dmul two_pi (dint (int step))) (ddec 170 1)));
          slow = m_sin tr (dmul (dmul two_pi (ddec 30 1)) t);
          fast = dmul (ddec 30 2) (m_cos tr (dmul (dmul two_pi (ddec 110 1)) t));
          ripple = dmul (ddec 5 2) (m_sin tr (ddiv (dmul two_pi (dint (int (i + step)))) (ddec 70 1)))
      in to_float (dadd (dadd (dadd slow fast) ripple) drift))"

definition generate_signal :: "trig \<Rightarrow> nat \<Rightarrow> nat \<Rightarrow> float32 list" where
  "generate_signal tr count step = map (generate_sample tr count step) [0..<count]"

definition network_pressure :: "nat \<Rightarrow> double" where
  "network_pressure step =
     (let phase = step mod 24
      in if phase < 5 then dadd (ddec 15 2) (dmul (ddec 2 2) (dint (int phase)))
         else if phase < 10 then dadd (ddec 35 2) (dmul (ddec 10 2) (dint (int (phase - 5))))
         else if phase < 16 then dadd (ddec 115 2) (dmul (ddec 8 2) (dint (int (phase - 10))))
         else if phase < 20 then dsub (ddec 75 2) (dmul (ddec 12 2) (dint (int (phase - 16))))
         else ddec 20 2)"

text \<open>The five metrics, in the order of \<open>metric_num\<close>.\<close>

definition generate_network_parameters :: "nat \<Rightarrow> network_metrics" where
  "generate_network_parameters step =
     (let pressure = network_pressure step
      in [dadd (ddec 8 2) (dmul (ddec 42 2) pressure),
          dadd (ddec 1 2) (dmul (ddec 10 2) pressure),
          dadd (ddec 450 1) (dmul (ddec 950 1) pressure),
          dadd (ddec 2 2) (dmul (ddec 18 2) pressure),
          ddiv (ddec 180000 1) (dadd (ddec 10 1) (dmul (ddec 85 2) pressure))])"

text \<open>The difference is computed in single precision, the rest in double.\<close>

definition rmse :: "float32 list \<Rightarrow> float32 list \<Rightarrow> nat \<Rightarrow> double" where
  "rmse left right count =
     dsqrt (ddiv
       (foldl (\<lambda>acc i. let difference = to_double (fsub binary32 (left ! i) (right ! i))
                       in dadd acc (dmul difference difference)) dzero [0..<count])
       (dint (int count)))"

section \<open>The arguments\<close>

record options =
  config_path :: string
  opt_steps :: nat                   \<comment> \<open>\<open>unsigned\<close>: below \<open>2^32\<close>\<close>
  use_oqs :: bool
  oqs_algorithm :: "string option"

definition default_options :: options where
  "default_options =
     \<lparr>config_path = ''config/runtime.conf'', opt_steps = 36, use_oqs = False, oqs_algorithm = None\<rparr>"

text \<open>The arguments after the program's name; \<open>None\<close>: the usage message and exit code 2.\<close>

fun parse_arguments :: "string list \<Rightarrow> options \<Rightarrow> options option" where
  "parse_arguments [] opts = Some opts"
| "parse_arguments (a # rest) opts =
     (if a = ''--config'' \<and> rest \<noteq> [] then parse_arguments (tl rest) (opts\<lparr>config_path := hd rest\<rparr>)
      else if a = ''--steps'' \<and> rest \<noteq> [] then
        (case strtoul (hd rest) of
           None \<Rightarrow> None
         | Some (parsed, end_ptr, errno) \<Rightarrow>
             if end_ptr \<noteq> [] \<or> parsed = 0 then None
             else parse_arguments (tl rest) (opts\<lparr>opt_steps := parsed mod 2 ^ 32\<rparr>))
      else if a = ''--oqs'' then
        (if rest \<noteq> [] \<and> take 1 (hd rest) \<noteq> ''-''
         then parse_arguments (tl rest) (opts\<lparr>use_oqs := True, oqs_algorithm := Some (hd rest)\<rparr>)
         else parse_arguments rest (opts\<lparr>use_oqs := True\<rparr>))
      else None)"

section \<open>The run\<close>

record step_row =
  row_step :: nat
  row_stats :: pipeline_stats
  row_error :: double

text \<open>
  The loop over the steps. A window that the pipeline reports as sent and the loopback has
  not completed also ends the run, with the result \<open>ADAPTIVE_OK\<close>.
\<close>

function run_steps ::
    "libm \<Rightarrow> trig \<Rightarrow> adaptive_config \<Rightarrow> nat \<Rightarrow> nat \<Rightarrow> 'c adaptive_pipeline \<Rightarrow> 'c loopback \<Rightarrow>
     adaptive_result \<times> step_row list \<times> 'c adaptive_pipeline \<times> 'c loopback" where
  "run_steps m tr c steps step p l =
     (if step < steps then
        let source = generate_signal tr (window_size c) step
        in case adaptive_pipeline_process m (Some p) (Some source) (window_size c)
                  (Some (generate_network_parameters step)) (Some loopback_send) l of
             (Inl e, p', l') \<Rightarrow> (e, [], the p', l')
           | (Inr stats, p', l') \<Rightarrow>
               if complete_windows l' \<noteq> complete_windows l + 1 \<or> lb_sample_count l' \<noteq> window_size c
               then (ADAPTIVE_OK, [], the p', l')
               else
                 let row = \<lparr>row_step = step, row_stats = stats,
                            row_error = rmse source (lb_samples l') (window_size c)\<rparr>
                 in case run_steps m tr c steps (step + 1) (the p') l' of
                      (result, rows, p'', l'') \<Rightarrow> (result, row # rows, p'', l'')
      else (ADAPTIVE_OK, [], p, l))"
  by pat_completeness auto
termination
  by (relation "measure (\<lambda>(m, tr, c, steps, step, p, l). steps - step)") auto

declare run_steps.simps [simp del]

definition zero_loopback :: "'c loopback" where
  "zero_loopback =
     \<lparr>lb_receiver = \<lparr>rv_security = None, representation = [], next_block = 0, rv_token = replicate 8 0,
        rv_token_length = 0, rv_active = False\<rparr>,
      lb_samples = replicate ADAPTIVE_MAX_WINDOW fzero, lb_sample_count = 0, lb_metadata = None, complete_windows = 0\<rparr>"

text \<open>
  What follows the creation of the two sessions: the result code, the rows, and the two
  sessions after they are destroyed.
\<close>

definition run_program ::
    "libm \<Rightarrow> trig \<Rightarrow> adaptive_config \<Rightarrow> nat \<Rightarrow> 'c security_session \<Rightarrow> 'c security_session \<Rightarrow>
     adaptive_result \<times> step_row list \<times> 'c security_session option \<times> 'c security_session option" where
  "run_program m tr c steps client server =
     (case adaptive_pipeline_init True (Some c) (Some client) of
        Inl e \<Rightarrow>
          (e, [], fst (adaptive_security_session_destroy (Some client)), fst (adaptive_security_session_destroy (Some server)))
      | Inr p \<Rightarrow>
          let l = zero_loopback\<lparr>lb_receiver := the (adaptive_receiver_init (Some (lb_receiver zero_loopback)) (Some server))\<rparr>
          in case run_steps m tr c steps 0 p l of
               (result, rows, p', l') \<Rightarrow>
                 (result, rows, fst (adaptive_security_session_destroy (pl_security p')),
                  fst (adaptive_security_session_destroy (rv_security (lb_receiver l')))))"

text \<open>The exit code and the rows.\<close>

definition exit_code :: "adaptive_result \<Rightarrow> nat" where
  "exit_code result = (if result = ADAPTIVE_OK then 0 else 1)"

text \<open>
  \<open>files\<close> is what opening and reading a path gives; \<open>lib = None\<close> is the program built
  without liboqs; \<open>allocated\<close> are the outcomes of the allocations of the session contexts.
\<close>

definition demo_main ::
    "libm \<Rightarrow> trig \<Rightarrow> crypto_library option \<Rightarrow> (string \<Rightarrow> (string \<times> bool) option) \<Rightarrow> bool \<times> bool \<Rightarrow> adaptive_config \<Rightarrow>
     string list \<Rightarrow> nat \<times> step_row list" where
  "demo_main m tr lib files allocated uninitialised arguments =
     (case parse_arguments arguments default_options of
        None \<Rightarrow> (2, [])
      | Some opts \<Rightarrow>
          (case adaptive_config_load (adaptive_config_defaults (Some uninitialised)) (Some (config_path opts)) (Some 160)
                  (files (config_path opts)) of
             (result, message, config) \<Rightarrow>
               if result \<noteq> ADAPTIVE_OK then (1, [])
               else if use_oqs opts then
                 (case lib of
                    None \<Rightarrow> (1, [])
                  | Some library \<Rightarrow>
                      (case adaptive_security_oqs_pair library True True (oqs_algorithm opts) (fst allocated \<and> snd allocated) of
                         Inl _ \<Rightarrow> (1, [])
                       | Inr (client, server, info) \<Rightarrow>
                           (case run_program m tr (the config) (opt_steps opts) client server of
                              (r, rows, _) \<Rightarrow> (exit_code r, rows))))
               else
                 (case adaptive_security_test_pair True True 0x6c6f7770616e2026 (fst allocated) (snd allocated) of
                    Inl _ \<Rightarrow> (1, [])
                  | Inr (client, server) \<Rightarrow>
                      (case run_program m tr (the config) (opt_steps opts) client server of
                         (r, rows, _) \<Rightarrow> (exit_code r, rows)))))"

end
