(* ===== verification/Float_Ranges.thy ===== *)
theory Float_Ranges
  imports Config_Defaults Metrics_Properties
begin

text \<open>
  Interval arithmetic for the double precision computations of the demonstration program and
  of the Contiki port: dyadic bounds are values of the format, and the operations stay within
  bounds that are.
\<close>

declare One_nat_def [simp del]

lemma grid_scaled:
  assumes "0 \<le> m" "m < 2 ^ 53" "- 1074 \<le> e" "e \<le> 900" shows "grid (of_int m * p2 e)"
proof -
  have "rnd binary64 (of_int m * p2 e) = of_int m * p2 e"
    using rnd_representable_pos [OF valid_format_binary(1), of m e] assms by (simp add: rnd_eq_pos binary64_def)
  moreover have "real_of_int m * p2 e \<le> big"
  proof -
    have "real_of_int m \<le> of_int (2 ^ 53)" using assms(2) by (simp only: of_int_le_iff)
    then have "real_of_int m \<le> p2 53" by simp
    then have "real_of_int m * p2 e \<le> p2 53 * p2 e" by (rule mult_right_mono) simp
    also have "p2 53 * p2 e = p2 (53 + e)" by (simp add: power_int_add)
    also have "\<dots> \<le> big" by (rule p2_big) (use assms(4) in simp)
    finally show ?thesis .
  qed
  ultimately show ?thesis using assms(1) by (simp add: grid_def)
qed

lemma grid_dyadic:
  assumes "0 \<le> m" "m < 2 ^ 53" "j \<le> 1000" shows "grid (of_int m / 2 ^ j)"
proof -
  have eq: "of_int m / 2 ^ j = of_int m * p2 (- int j)" by (simp add: power_int_minus field_simps)
  have "rnd binary64 (of_int m * p2 (- int j)) = of_int m * p2 (- int j)"
    using rnd_representable_pos [OF valid_format_binary(1), of m "- int j"] assms
    by (simp add: rnd_eq_pos binary64_def)
  moreover have "real_of_int m / 2 ^ j \<le> real_of_int m"
    using assms(1) mult_left_mono [of 1 "2 ^ j" "real_of_int m"] by (simp add: divide_le_eq)
  moreover have "real_of_int m \<le> of_int (2 ^ 53)" using assms(2) by (simp only: of_int_le_iff)
  moreover have "p2 53 \<le> big" by (rule p2_big) simp
  ultimately show ?thesis using assms(1) by (simp add: grid_def eq)
qed

lemma ddec_in:
  assumes "0 \<le> n" "n \<le> 2 ^ 20 * 10 ^ k" "grid a" "grid b" "a \<le> of_int n / 10 ^ k" "of_int n / 10 ^ k \<le> b"
  shows "dbl_in a b (ddec n k)"
  using ddec_facts [of n k] rnd_between [OF assms(3-6)] assms(1,2) by (simp add: dbl_in_def number_def)

lemma dmul_nonneg_in:
  assumes "dbl_in 0 a x" "dbl_in 0 b y" "grid (a * b)" shows "dbl_in 0 (a * b) (dmul x y)"
proof -
  note x = dbl_in_facts [OF assms(1)] and y = dbl_in_facts [OF assms(2)]
  have "0 \<le> fval x * fval y" "fval x * fval y \<le> a * b" using x(3,4) y(3,4) by (simp, intro mult_mono) auto
  then show ?thesis by (rule dmul_in(1) [OF x(1,2) y(1,2) grid_zero assms(3)])
qed

lemma dadd_range:
  assumes "dbl_in a b x" "dbl_in c d y" "grid e" "grid f" "e \<le> a + c" "b + d \<le> f" shows "dbl_in e f (dadd x y)"
  by (rule dadd_in(1)) (use assms dbl_in_facts [OF assms(1)] dbl_in_facts [OF assms(2)] in auto)

lemma dint_in:
  assumes "a \<le> k" "k \<le> 2 ^ 64" "0 \<le> a" "a < 2 ^ 53" shows "dbl_in (of_int a) (p2 64) (dint k)"
proof -
  have "real_of_int k \<le> of_int (2 ^ 64)" using assms(2) by (simp only: of_int_le_iff)
  then have k: "of_int a \<le> real_of_int k" "real_of_int k \<le> p2 64" using assms(1) by simp_all
  have "grid (of_int a)" using grid_scaled [of a 0] assms(3,4) by simp
  from rnd_between [OF this grid_p2 k] show ?thesis
    using fof_int_facts [OF valid_format_binary(1), of k] by (simp add: dbl_in_def)
qed

lemma ddiv_at_least_one:
  assumes "dbl_in 0 b x" "dbl_in 1 c y" "grid b" shows "dbl_in 0 b (ddiv x y)"
proof -
  note x = dbl_in_facts [OF assms(1)] and y = dbl_in_facts [OF assms(2)]
  have "fval x / fval y \<le> fval x / 1" using x(3) y(3) by (intro divide_left_mono) simp_all
  then have "0 \<le> fval x / fval y" "fval x / fval y \<le> b" using x(3,4) y(3) by simp_all
  then show ?thesis by (intro ddiv_in(1) [OF x(1,2) y(1,2) _ grid_zero assms(3)]) (use y(3) in simp_all)
qed

end
