(* ===== verification/Codec_Integrity.thy ===== *)
theory Codec_Integrity
  imports Codec_Silence
begin

text \<open>
  What the decoder refuses: the checksum catches every change that stays within four
  consecutive bytes of the body, and whatever the decoder accepts is a well-formed window.
\<close>

section \<open>The checksum\<close>

lemma crc32_bit_alt: "crc32_bit x = drop_bit 1 x XOR (if bit x 0 then 0xedb88320 else 0)"
proof -
  have "x AND 1 = (if bit x 0 then 1 else 0)" by (simp add: and_one_eq mod2_eq_if bit_0)
  then show ?thesis by (simp add: crc32_bit_def)
qed

lemma crc32_bit_top: "bit (crc32_bit x) 31 = bit x 0"
  using bit_imp_le_length [of x 32] by (auto simp: crc32_bit_alt bit_xor_iff bit_drop_bit_eq)

lemma crc32_bit_inj: "crc32_bit x = crc32_bit y \<Longrightarrow> x = y"
proof -
  assume e: "crc32_bit x = crc32_bit y"
  then have b: "bit x 0 = bit y 0" by (metis crc32_bit_top)
  have d: "drop_bit 1 x = drop_bit 1 y" using e unfolding crc32_bit_alt b xor_cancel .
  show "x = y"
  proof (rule bit_word_eqI)
    fix n assume n: "n < LENGTH(32)"
    have "bit (drop_bit 1 x) k = bit (drop_bit 1 y) k" for k by (simp only: d)
    then show "bit x n = bit y n" using b by (cases n) (simp_all add: bit_drop_bit_eq)
  qed
qed

lemma crc32_bits_inj: "(crc32_bit ^^ n) u = (crc32_bit ^^ n) v \<Longrightarrow> u = v"
  by (induction n) (auto dest: crc32_bit_inj)

lemma crc32_byte_inj_state: "crc32_byte x b = crc32_byte y b \<Longrightarrow> x = y"
  unfolding crc32_byte_def by (drule crc32_bits_inj) (simp only: xor_cancel)

lemma crc32_byte_inj_byte: "crc32_byte x a = crc32_byte x b \<Longrightarrow> a = b"
proof -
  have "(ucast a :: u32) = ucast b \<Longrightarrow> a = b"
    by (auto simp: bit_eq_iff bit_ucast_iff)
  then show "crc32_byte x a = crc32_byte x b \<Longrightarrow> a = b"
    unfolding crc32_byte_def by (metis crc32_bits_inj xor_cancel(1))
qed

lemma crc32_foldl_inj: "foldl crc32_byte x d = foldl crc32_byte y d \<Longrightarrow> x = y"
  by (induction d arbitrary: x y) (auto dest: crc32_byte_inj_state)

text \<open>Four bytes act on the register as one word, shifted through it bit by bit.\<close>

lemma crc32_bits_low:
  "(\<forall>k. bit y k \<longrightarrow> k + n < 32) \<Longrightarrow>
   (crc32_bit ^^ n) (x XOR push_bit n y) = (crc32_bit ^^ n) x XOR (y :: u32)"
proof (induction n arbitrary: x y)
  case (Suc n)
  have "crc32_bit (u XOR push_bit 1 y) = crc32_bit u XOR y" for u
  proof -
    have "drop_bit 1 (u XOR push_bit 1 y) = drop_bit 1 u XOR y"
    proof (rule bit_word_eqI)
      fix k assume "k < LENGTH(32)"
      then show "bit (drop_bit 1 (u XOR push_bit 1 y)) k = bit (drop_bit 1 u XOR y) k"
        using Suc.prems [rule_format, of k]
        unfolding bit_drop_bit_eq bit_xor_iff bit_push_bit_iff comp_def by auto
    qed
    moreover have "bit (u XOR push_bit 1 y) 0 = bit u 0" unfolding bit_xor_iff bit_push_bit_iff by simp
    ultimately show ?thesis by (simp add: crc32_bit_alt xor.assoc xor.commute xor.left_commute)
  qed
  note step = this
  have "push_bit (Suc n) y = push_bit n (push_bit 1 y)" by (simp add: push_bit_push_bit)
  moreover have "\<forall>k. bit (push_bit 1 y) k \<longrightarrow> k + n < 32"
    unfolding bit_push_bit_iff using Suc.prems by (metis One_nat_def Suc_diff_1 add_Suc less_Suc_eq_le not_one_le_zero
      numeral_nat(7) zero_less_Suc add_Suc_right le_add_diff_inverse plus_1_eq_Suc)
  ultimately show ?case using Suc.IH [of "push_bit 1 y" x] step by simp
qed simp

lemma crc32_four_bytes:
  "foldl crc32_byte x [a, b, c, d] = (crc32_bit ^^ 32) (x XOR read_u32 [a, b, c, d])"
proof -
  have low: "\<forall>k. bit (ucast w :: u32) k \<longrightarrow> k + n < 32" if "n \<le> 24" for w :: u8 and n
    using that by (auto simp: bit_ucast_iff dest: bit_u8)
  have step: "crc32_byte ((crc32_bit ^^ n) u) w = (crc32_bit ^^ (8 + n)) (u XOR push_bit n (ucast w))"
    if "n \<le> 24" for n u w
    using crc32_bits_low [OF low [OF that, of w], of u] by (simp add: crc32_byte_def funpow_add)
  have r: "read_u32 [a, b, c, d] = ucast a XOR push_bit 8 (ucast b) XOR push_bit 16 (ucast c) XOR push_bit 24 (ucast d)"
  proof (rule bit_word_eqI)
    fix n assume "n < LENGTH(32)"
    then have "n < 8 \<or> (8 \<le> n \<and> n < 16) \<or> (16 \<le> n \<and> n < 24) \<or> (24 \<le> n \<and> n < 32)" by auto
    then show "bit (read_u32 [a, b, c, d]) n =
      bit (ucast a XOR push_bit 8 (ucast b) XOR push_bit 16 (ucast c) XOR push_bit 24 (ucast d) :: u32) n"
      by (elim disjE) (auto simp: read_u32_def bit_simps)
  qed
  show ?thesis
    using step [of 0 x a] step [of 8 _ b] step [of 16 _ c] step [of 24 _ d] by (simp add: r xor.assoc)
qed

lemma read_u32_inj: "read_u32 [a, b, c, d] = read_u32 [a', b', c', d'] \<Longrightarrow> [a, b, c, d] = [a', b', c', d']"
proof -
  have w: "write_u32 (read_u32 [a, b, c, d]) = [a, b, c, d]" for a b c d
  proof -
    have "ucast (read_u32 [a, b, c, d]) = a" "ucast (drop_bit 8 (read_u32 [a, b, c, d])) = b"
      "ucast (drop_bit 16 (read_u32 [a, b, c, d])) = c" "ucast (drop_bit 24 (read_u32 [a, b, c, d])) = d"
      by (auto intro!: bit_word_eqI simp: read_u32_def bit_simps)
    then show ?thesis by (simp add: write_u32_def ucast_low_byte32)
  qed
  show "read_u32 [a, b, c, d] = read_u32 [a', b', c', d'] \<Longrightarrow> [a, b, c, d] = [a', b', c', d']"
    by (metis w)
qed

lemma length4_cases:
  assumes "length xs = 4"
  obtains a b c d where "xs = [a, b, c, d]"
  using assms by (auto simp: eval_nat_numeral length_Suc_conv)

lemma crc32_burst:
  assumes "length v = 4" "length w = 4" "v \<noteq> w"
  shows "crc32_update c (pre @ v @ post) \<noteq> crc32_update c (pre @ w @ post)"
proof
  assume e: "crc32_update c (pre @ v @ post) = crc32_update c (pre @ w @ post)"
  define x where "x = foldl crc32_byte (NOT c) pre"
  have "foldl crc32_byte (foldl crc32_byte x v) post = foldl crc32_byte (foldl crc32_byte x w) post"
    using e by (simp add: crc32_update_def x_def bit.compl_eq_compl_iff)
  then have "foldl crc32_byte x v = foldl crc32_byte x w" by (rule crc32_foldl_inj)
  moreover obtain a b c d a' b' c' d' where "v = [a, b, c, d]" "w = [a', b', c', d']"
    using assms length4_cases by metis
  ultimately show False
    using assms(3) crc32_four_bytes [of x] by (metis crc32_bits_inj xor_cancel(1) read_u32_inj)
qed

section \<open>Changes to the body\<close>

lemma read_append:
  "k + 2 \<le> length pre \<Longrightarrow> read_u16 (drop k (pre @ x)) = read_u16 (drop k pre)"
  "k + 4 \<le> length pre \<Longrightarrow> read_u32 (drop k (pre @ x)) = read_u32 (drop k pre)"
  by (simp_all add: read_u16_def read_u32_def nth_append)

text \<open>
  C25: every change of an accepted representation that stays within four consecutive bytes
  after the header, a burst of at most 32 bits, is answered with the integrity error.
\<close>

theorem codec_detects_burst:
  assumes acc: "adaptive_codec_decode (Some (pre @ v @ post)) True capacity True = Inr r"
    and pre: "28 \<le> length pre" and len: "length v = 4" "length w = 4" and diff: "w \<noteq> v"
  shows "adaptive_codec_decode (Some (pre @ w @ post)) True capacity True = Inl ADAPTIVE_ERR_INTEGRITY"
proof -
  have crc: "crc32_update 0 (drop 28 (pre @ w @ post)) \<noteq> crc32_update 0 (drop 28 (pre @ v @ post))"
    using crc32_burst [OF len(2,1) diff, of 0 "drop 28 pre" post] pre by simp
  have same: "take 4 (pre @ x) = take 4 pre" "(pre @ x) ! 4 = pre ! 4" "(pre @ x) ! 5 = pre ! 5"
    "(pre @ x) ! 6 = pre ! 6" "(pre @ x) ! 7 = pre ! 7"
    "read_u16 (drop 8 (pre @ x)) = read_u16 (drop 8 pre)" "read_u16 (drop 10 (pre @ x)) = read_u16 (drop 10 pre)"
    "read_u32 (drop 16 (pre @ x)) = read_u32 (drop 16 pre)" "read_u32 (drop 24 (pre @ x)) = read_u32 (drop 24 pre)" for x
    using pre by (simp_all add: nth_append read_append del: drop_append)
  have "crc32_update 0 (drop 28 (pre @ v @ post)) = read_u32 (drop 24 pre)"
    using acc unfolding adaptive_codec_decode_def option.case Let_def CODEC_HEADER_BYTES_def same
    by (simp split: if_splits del: drop_append)
  then have "crc32_update 0 (drop 28 (pre @ w @ post)) \<noteq> read_u32 (drop 24 pre)" using crc by simp
  moreover have "length (pre @ w @ post) = length (pre @ v @ post)" using len by simp
  ultimately show ?thesis
    using acc unfolding adaptive_codec_decode_def option.case Let_def CODEC_HEADER_BYTES_def same
    by (simp split: if_splits del: drop_append length_append)
qed

section \<open>What the decoder accepts\<close>

text \<open>The index and the value of a pair of the representation.\<close>

definition pair_index :: "bytes \<Rightarrow> nat \<Rightarrow> nat" where
  "pair_index inp i = unat (read_u16 (drop (28 + i * 4) inp))"

lemma decode_pairs_accepts:
  "decode_pairs inp i nz count scale previous s = Inr r \<Longrightarrow>
   length r = length s \<and> (\<forall>j \<in> {i..<nz}. pair_index inp j < count) \<and>
   (\<forall>j \<in> {i..<nz}. \<forall>p. previous = Some p \<longrightarrow> p < pair_index inp j) \<and>
   (\<forall>j \<in> {i..<nz}. \<forall>k \<in> {j<..<nz}. pair_index inp j < pair_index inp k)"
proof (induction inp i nz count scale previous s rule: decode_pairs.induct)
  case (1 inp i nz count scale previous s)
  show ?case
  proof (cases "i < nz")
    case True
    have ok: "pair_index inp i < count" "\<And>p. previous = Some p \<Longrightarrow> p < pair_index inp i"
      and rest: "decode_pairs inp (i + 1) nz count scale (Some (pair_index inp i))
        (s[pair_index inp i := fmul binary32 (fof_int binary32 (sint (read_u16 (drop (28 + i * 4 + 2) inp)))) scale]) = Inr r"
      using 1(2) True by (auto simp: decode_pairs.simps [of inp i] pair_index_def Let_def CODEC_HEADER_BYTES_def
          split: if_splits option.splits)
    have order: "\<not> (case previous of Some p \<Rightarrow> pair_index inp i \<le> p | None \<Rightarrow> False)"
      using ok(2) by (cases previous) auto
    have ih: "length r = length s" "\<forall>j \<in> {i+1..<nz}. pair_index inp j < count"
      "\<forall>j \<in> {i+1..<nz}. pair_index inp i < pair_index inp j"
      "\<forall>j \<in> {i+1..<nz}. \<forall>k \<in> {j<..<nz}. pair_index inp j < pair_index inp k"
      using 1(1) [OF True refl refl refl _ , unfolded CODEC_HEADER_BYTES_def, folded pair_index_def, OF _ rest] ok(1) order
      by auto
    have split: "j = i \<or> j \<in> {i+1..<nz}" if "j \<in> {i..<nz}" for j using that by auto
    show ?thesis using ok ih split by (smt (verit) Suc_eq_plus1 Suc_leI atLeastLessThan_iff greaterThanLessThan_iff less_trans)
  next
    case False
    then show ?thesis using 1(2) by (simp add: decode_pairs.simps)
  qed
qed

lemma increasing_bounded:
  fixes f :: "nat \<Rightarrow> nat"
  assumes "\<forall>j < n. f j < c" "\<forall>j < n. \<forall>k. j < k \<and> k < n \<longrightarrow> f j < f k"
  shows "n \<le> c"
proof -
  have "inj_on f {..<n}" using assms(2) by (intro linorder_inj_onI) (force simp: less_le, simp add: linorder_linear)
  moreover have "f ` {..<n} \<subseteq> {..<c}" using assms(1) by auto
  ultimately show ?thesis using card_inj_on_le [of f "{..<n}" "{..<c}"] by simp
qed

lemma decode_pairs_wfs:
  assumes "wfs scale"
  shows "decode_pairs inp i nz count scale previous s = Inr r \<Longrightarrow> \<forall>x \<in> set s. wfs x \<Longrightarrow> \<forall>x \<in> set r. wfs x"
proof (induction "nz - i" arbitrary: i previous s)
  case 0
  then show ?case by (simp add: decode_pairs.simps)
next
  case (Suc d)
  define k where "k = unat (read_u16 (drop (CODEC_HEADER_BYTES + i * 4) inp))"
  define y where "y = fmul binary32 (fof_int binary32 (sint (read_u16 (drop (CODEC_HEADER_BYTES + i * 4 + 2) inp)))) scale"
  have "decode_pairs inp (i + 1) nz count scale (Some k) (s[k := y]) = Inr r"
    using Suc.prems(1) Suc.hyps(2) by (auto simp: decode_pairs.simps [of inp i] Let_def k_def y_def split: if_splits)
  moreover have "wfs y"
    unfolding y_def by (rule wff_fmul [OF _ wff_fof_int assms]) simp_all
  then have "\<forall>x \<in> set (s[k := y]). wfs x"
    using Suc.prems(2) set_update_subset_insert [of s k y] by blast
  ultimately show ?case using Suc.hyps(1) [of "i + 1"] Suc.hyps(2) by (metis Suc_eq_plus1 Suc_inject diff_Suc_1 diff_diff_left)
qed

lemma float_of_bits_wfs: "wfs (float_of_bits w)"
proof -
  have b: "0 \<le> uint w mod 2 ^ 23" "uint w mod 2 ^ 23 < 2 ^ 23"
    "0 \<le> uint w div 2 ^ 23 mod 256" "uint w div 2 ^ 23 mod 256 < 256" by simp_all
  then show ?thesis by (auto simp: float_of_bits_def Let_def binary32_def)
qed

lemma inverse_level_wfs:
  assumes "\<forall>x \<in> set v. wfs x" shows "\<forall>x \<in> set (inverse_level machine_arith db4_low v n). wfs x"
proof -
  have step: "\<forall>x \<in> set (synthesise machine_arith db4_low v n i s k). wfs x" if "\<forall>x \<in> set s. wfs x" for i s k
  proof -
    have "wfs (fadd binary32 x y)" for x y by (rule wff_fadd) simp
    then show ?thesis
      using that set_update_subset_insert [of s]
      by (fastforce simp: synthesise_def machine_arith_simps Let_def simp del: wff.simps)
  qed
  have "\<forall>x \<in> set (foldl (\<lambda>s i. foldl (synthesise machine_arith db4_low v n i) s [0..<8])
      (replicate (n * 2) fzero) [0..<n]). wfs x"
    by (intro foldl_invariant [where P = "\<lambda>s. \<forall>x \<in> set s. wfs x"]) (use step wff_dzero in auto)
  then show ?thesis
    using assms by (auto simp: inverse_level_def machine_arith_simps Let_def dest!: in_set_dropD simp del: wff.simps)
qed

lemma inverse_levels_wfs:
  "\<forall>x \<in> set v. wfs x \<Longrightarrow> \<forall>x \<in> set (inverse_levels machine_arith db4_low l v n). wfs x"
  by (induction l arbitrary: v n) (simp, metis inverse_level_wfs inverse_levels.simps(2))

text \<open>
  C26: whatever bytes arrive, what the decoder accepts is a well-formed window: the length
  field agrees with the length of the input, the pairs have strictly increasing indices
  inside the window (so there are at most as many as samples and no sample is written
  twice), every field is in the range the encoder uses, the window fits the caller's buffer,
  and every restored sample is a value of single precision.
\<close>

theorem codec_decode_safe:
  assumes acc: "adaptive_codec_decode (Some inp) True capacity True = Inr (s, md)"
  shows "length s = md_sample_count md \<and> 8 \<le> md_sample_count md \<and> md_sample_count md \<le> 256 \<and>
    md_sample_count md \<le> capacity \<and> 2 ^ md_levels md dvd md_sample_count md \<and> 0 < md_levels md \<and>
    length inp = 28 + 4 * md_nonzero md \<and> md_nonzero md \<le> md_sample_count md \<and>
    (\<forall>i < md_nonzero md. pair_index inp i < md_sample_count md) \<and>
    (\<forall>i j. i < j \<and> j < md_nonzero md \<longrightarrow> pair_index inp i < pair_index inp j) \<and>
    md_state md < 5 \<and> 2 \<le> md_quant_bits md \<and> md_quant_bits md \<le> 15 \<and>
    fisfinite (md_scale md) \<and> 0 < fval (md_scale md) \<and> (\<forall>x \<in> set s. wfs x)"
proof -
  define scale where "scale = float_of_bits (read_u32 (drop 16 inp))"
  define n where "n = unat (read_u16 (drop 8 inp))"
  define nz where "nz = unat (read_u16 (drop 10 inp))"
  define l where "l = unat (inp ! 5)"
  have wf: "wfs scale" unfolding scale_def by (rule float_of_bits_wfs)
  obtain c where conds: "n \<le> 256" "n \<le> capacity" "8 \<le> drop_bit (l - 1) n" "0 < l" "unat (inp ! 7) < 5"
      "2 \<le> unat (inp ! 6)" "unat (inp ! 6) \<le> 15" "fisfinite scale" "\<not> fle scale fzero" "length inp = 28 + 4 * nz"
    and pairs: "decode_pairs inp 0 nz n scale None (replicate n fzero) = Inr c"
    and inv: "adaptive_db4_inverse (Some c) n l True ADAPTIVE_MAX_WINDOW = Inr s"
    and md: "md_sample_count md = n" "md_levels md = l" "md_nonzero md = nz" "md_state md = unat (inp ! 7)"
      "md_quant_bits md = unat (inp ! 6)" "md_scale md = to_double scale"
    using acc unfolding adaptive_codec_decode_def option.case Let_def CODEC_HEADER_BYTES_def
      n_def [symmetric] nz_def [symmetric] l_def [symmetric] scale_def [symmetric]
    by (simp add: adaptive_bounds outcome_bind_Inr not_le not_less mult.commute split: if_splits) auto
  have v: "validate_transform n l ADAPTIVE_MAX_WINDOW = Inr ()"
    and s: "s = inverse_levels machine_arith db4_low l c (drop_bit l n)"
    using inv by (auto simp: adaptive_db4_inverse_def db4_inverse_def outcome_bind_Inr)
  then have dv: "2 ^ l dvd n" by (simp add: validate_transform_cases)
  have "8 \<le> n div 2 ^ (l - 1)" using transform_accepts_levels [OF v] by (simp only: drop_bit_eq_div)
  then have n8: "8 \<le> n" by (rule order.trans [OF _ div_le_dividend])
  note p = decode_pairs_accepts [OF pairs]
  then have len: "length s = n" "nz \<le> n"
    using dv increasing_bounded [of nz "pair_index inp" n]
    by (simp_all add: s length_inverse_levels drop_bit_eq_div)
  have "\<forall>x \<in> set c. wfs x"
    by (rule decode_pairs_wfs [OF wf pairs]) (simp add: wff_dzero del: wff.simps)
  then have "\<forall>x \<in> set s. wfs x" unfolding s by (rule inverse_levels_wfs)
  moreover have "0 < fval (to_double scale)" "fisfinite (to_double scale)"
    using to_double_facts [OF wf] conds(8,9) by (auto simp: fle_fval)
  ultimately show ?thesis using conds dv n8 len p unfolding md by auto
qed

section \<open>A representation with one pair\<close>

definition one_pair :: bytes where
  "one_pair = codec_header 1 8 1 8 1 77 (float_bits (Fin False 8388608 (-23))) (float_bits fzero)
     (crc32_update 0 (pair_bytes (3, 5)))"

lemma one_pair_accepted: "\<exists>s md. adaptive_codec_decode (Some (one_pair @ pair_bytes (3, 5) @ [])) True 8 True = Inr (s, md)"
proof -
  have one: "float_of_bits (float_bits (Fin False 8388608 (-23))) = Fin False 8388608 (-23)"
    by (rule float_of_bits_bits) (simp add: binary32_def)
  have pos: "\<not> fle (Fin False 8388608 (-23)) fzero" by (simp add: fcmp_def smant_def)
  have pairs: "decode_pairs (one_pair @ pair_bytes (3, 5)) 0 1 8 (Fin False 8388608 (-23)) None (replicate 8 fzero) =
      Inr ((replicate 8 fzero)[3 := dequantize (Fin False 8388608 (-23)) 5])"
    using decode_pairs_stream [of one_pair "[(3, 5)]" 8 None "[]" "Fin False 8388608 (-23)" "replicate 8 fzero"]
    by (simp add: one_pair_def codec_header_fields)
  obtain s where inv: "adaptive_db4_inverse (Some ((replicate 8 fzero)[3 := dequantize (Fin False 8388608 (-23)) 5]))
      8 1 True 256 = Inr s"
    by (simp add: adaptive_db4_inverse_def db4_inverse_def validate_transform_def adaptive_bounds)
  show ?thesis
    using decode_fields [OF one_pair_def [THEN arg_cong [where f = "\<lambda>h. h @ pair_bytes (3, 5)"]], of 8] pairs inv
    by (simp add: one pos adaptive_bounds Let_def del: fle.simps One_nat_def fcvt.simps)
qed

lemma codec_detects_burst_witness:
  "adaptive_codec_decode (Some (one_pair @ pair_bytes (3, 6) @ [])) True 8 True = Inl ADAPTIVE_ERR_INTEGRITY"
proof -
  obtain r where "adaptive_codec_decode (Some (one_pair @ pair_bytes (3, 5) @ [])) True 8 True = Inr r"
    using one_pair_accepted by auto
  moreover have "28 \<le> length one_pair" "length (pair_bytes (3, 5)) = 4" "length (pair_bytes (3, 6)) = 4" by (simp_all add: one_pair_def codec_header_fields)
  moreover have "pair_bytes (3, 6) \<noteq> pair_bytes (3, 5)" by code_simp
  ultimately show ?thesis by (rule codec_detects_burst)
qed

lemma codec_decode_safe_witness:
  "\<exists>s md. adaptive_codec_decode (Some (one_pair @ pair_bytes (3, 5) @ [])) True 8 True = Inr (s, md) \<and>
    length s = md_sample_count md \<and> 0 < fval (md_scale md)"
  using one_pair_accepted codec_decode_safe by blast

end
