(* ===== verification/Codec_Accuracy.thy ===== *)
theory Codec_Accuracy
  imports Codec_Integrity Codec_Silence Config_Defaults Float_Bounds
begin

text \<open>
  How good the codec is: the encoder never fails on a validated configuration, and every
  coefficient is restored to a little more than half a quantiser step.
\<close>

declare One_nat_def [simp del]

section \<open>The encoder is total\<close>

lemma outcome_bind_simp: "outcome_bind (Inr x) f = f x"
  by (simp add: outcome_bind.simps)

lemma encode_returns:
  assumes ok: "validate_transform (window_size c) (wavelet_levels c) ADAPTIVE_MAX_WINDOW = Inr ()"
    and st: "state < 5" and room: "28 + 4 * window_size c \<le> capacity"
  shows "\<exists>out md. adaptive_codec_encode m (Some xs) (window_size c) wid state (Some c) True capacity True = Inr (out, md) \<and>
    length out = 28 + 4 * md_nonzero md \<and> md_nonzero md \<le> window_size c"
proof -
  have n: "window_size c \<le> 256" using ok by (simp add: validate_transform_cases ADAPTIVE_MAX_WINDOW_def)
  have "\<exists>p. codec_coefficients m xs (window_size c) state c = Inr p"
    using ok by (simp add: codec_coefficients_def adaptive_db4_forward_def db4_forward_def Let_def outcome_bind_simp
        split: option.split)
  then obtain f t where ct: "codec_coefficients m xs (window_size c) state c = Inr (f, t)" by auto
  define mi where "mi = maximum_integer (quant_bits c ! state)"
  define scale where "scale = coefficient_scale (coefficient_maximum (take (window_size c) f)) mi"
  define qs where "qs = map (quantize m scale mi) (take (window_size c) f)"
  define nonzero where "nonzero = length (filter (\<lambda>q. q \<noteq> 0) qs)"
  have le: "nonzero \<le> window_size c"
    using length_filter_le [of "\<lambda>q. q \<noteq> 0" qs] by (simp add: nonzero_def qs_def)
  have body: "length (codec_body qs) = 4 * nonzero"
    by (simp add: codec_body_pairs length_nonzero_pairs nonzero_def)
  have nz: "length (filter ((\<lambda>q. q \<noteq> 0) \<circ> quantize m scale mi) (take (window_size c) f)) = nonzero"
    by (simp add: nonzero_def qs_def filter_map)
  show ?thesis
    using ct st n room le body nz
    by (simp add: adaptive_codec_encode_def adaptive_bounds Let_def outcome_bind_simp mi_def [symmetric]
        scale_def [symmetric] qs_def [symmetric] nonzero_def [symmetric] CODEC_HEADER_BYTES_def codec_magic_def)
qed

section \<open>Rounding to the nearest integer\<close>

lemma round_half_away_error:
  assumes "0 \<le> m" shows "\<bar>real_of_int (round_half_away m e) - of_int m * p2 e\<bar> \<le> 1 / 2"
proof (cases "0 \<le> e")
  case True
  then show ?thesis by (simp add: round_half_away_def p2_nat)
next
  case False
  define k where "k = nat (- e)"
  have k: "0 < k" "e = - int k" using False by (simp_all add: k_def)
  define h where "h = (2 :: int) ^ (k - 1)"
  have d: "(2 :: int) ^ k = 2 * h" using k(1) by (simp add: h_def power_eq_if)
  define q where "q = (m + h) div (2 * h)"
  have h: "0 < h" by (simp add: h_def)
  have "2 * h * q \<le> m + h" "m + h < 2 * h * q + 2 * h"
    using h mult_div_mod_eq [of "2 * h" "m + h"] pos_mod_bound [of "2 * h" "m + h"] pos_mod_sign [of "2 * h" "m + h"]
    unfolding q_def by linarith+
  then have "real_of_int (2 * h * q) \<le> of_int (m + h)" "real_of_int (m + h) \<le> of_int (2 * h * q + 2 * h)"
    unfolding of_int_le_iff by linarith+
  then have "\<bar>2 * of_int h * of_int q - real_of_int m\<bar> \<le> of_int h" by (simp add: abs_le_iff)
  then have "\<bar>of_int q - real_of_int m / (2 * of_int h)\<bar> \<le> 1 / 2"
    using h by (simp add: abs_le_iff field_simps)
  moreover have "p2 e = 1 / (2 * of_int h)"
  proof -
    have "p2 e = inverse (p2 (int k))" unfolding k(2) by (rule power_int_minus)
    also have "p2 (int k) = of_int (2 ^ k)" by simp
    also have "\<dots> = 2 * real_of_int h" unfolding d by simp
    finally show ?thesis by (simp only: inverse_eq_divide)
  qed
  moreover have "round_half_away m e = q" using False d by (simp add: round_half_away_def q_def h_def k_def)
  ultimately show ?thesis by simp
qed

lemma flround_nearest:
  assumes "wfd x" "fisfinite x" "\<bar>fval x\<bar> \<le> 2 ^ 60"
  obtains k where "flround x = Some k" "\<bar>real_of_int k - fval x\<bar> \<le> 1 / 2"
proof -
  obtain s m e where x: "x = Fin s m e" using assms(2) by (cases x) auto
  have m: "0 \<le> m" using assms(1) by (simp add: x)
  define k where "k = smant s (round_half_away m e)"
  have err: "\<bar>real_of_int k - fval x\<bar> \<le> 1 / 2"
    using round_half_away_error [OF m, of e] by (auto simp: x k_def smant_def abs_minus_commute)
  have "\<bar>real_of_int k\<bar> \<le> 2 ^ 60 + 1" using err assms(3) by linarith
  then have "real_of_int \<bar>k\<bar> \<le> of_int (2 ^ 60 + 1)" by simp
  then have "\<bar>k\<bar> \<le> 2 ^ 60 + 1" unfolding of_int_le_iff .
  then have "flround x = Some k" by (simp add: x k_def [symmetric] Let_def abs_le_iff)
  then show thesis using err that by blast
qed

section \<open>The quantiser\<close>

lemma coefficient_maximum_spec:
  assumes "\<forall>x \<in> set c. wfs x \<and> fisfinite x"
  shows "wfd (coefficient_maximum c)" "fisfinite (coefficient_maximum c)" "0 \<le> fval (coefficient_maximum c)"
    "\<forall>x \<in> set c. \<bar>fval x\<bar> \<le> fval (coefficient_maximum c)"
    "fval (coefficient_maximum c) = 0 \<or> (\<exists>x \<in> set c. fval (coefficient_maximum c) = \<bar>fval x\<bar>)"
proof -
  define step where "step = (\<lambda>mx c. let magnitude = fabs (to_double c) in if flt mx magnitude then magnitude else mx)"
  have gen: "wfd (foldl step mx c) \<and> fisfinite (foldl step mx c) \<and> fval mx \<le> fval (foldl step mx c) \<and>
      (\<forall>x \<in> set c. \<bar>fval x\<bar> \<le> fval (foldl step mx c)) \<and>
      (fval (foldl step mx c) = fval mx \<or> (\<exists>x \<in> set c. fval (foldl step mx c) = \<bar>fval x\<bar>))"
    if "wfd mx" "fisfinite mx" for mx
    using assms that
  proof (induction c arbitrary: mx)
    case (Cons x c)
    have x: "wfs x" "fisfinite x" using Cons.prems by simp_all
    have mag: "wfd (fabs (to_double x))" "fisfinite (fabs (to_double x))" "fval (fabs (to_double x)) = \<bar>fval x\<bar>"
      using to_double_facts [OF x(1)] x(2) fabs_fval [of binary64 "to_double x"] by simp_all
    have st: "wfd (step mx x)" "fisfinite (step mx x)" "fval (step mx x) = max (fval mx) \<bar>fval x\<bar>"
      using mag Cons.prems(2,3) by (simp_all add: step_def Let_def flt_fval del: wff.simps)
    show ?case
      using Cons.IH [of "step mx x"] st Cons.prems(1) by (auto simp del: wff.simps)
  qed (simp del: wff.simps)
  have d: "wfd dzero" "fisfinite dzero" "fval dzero = 0" by (simp_all add: wff_dzero smant_def del: wff.simps)
  have "coefficient_maximum c = foldl step dzero c" by (simp add: coefficient_maximum_def step_def)
  with gen [OF d(1,2)] d(3) show "wfd (coefficient_maximum c)" "fisfinite (coefficient_maximum c)"
    "0 \<le> fval (coefficient_maximum c)" "\<forall>x \<in> set c. \<bar>fval x\<bar> \<le> fval (coefficient_maximum c)"
    "fval (coefficient_maximum c) = 0 \<or> (\<exists>x \<in> set c. fval (coefficient_maximum c) = \<bar>fval x\<bar>)" by auto
qed

text \<open>A quotient of a magnitude up to \<open>2^14\<close> is off by less than \<open>2^-38\<close>.\<close>

lemma rnd_small: "\<bar>x\<bar> \<le> p2 14 \<Longrightarrow> \<bar>rnd binary64 x - x\<bar> \<le> p2 (- 38)"
proof (cases "x = 0")
  case False
  assume "\<bar>x\<bar> \<le> p2 14"
  then have "flog \<bar>x\<bar> \<le> flog (p2 14)" using False by (intro flog_mono) auto
  also have "flog (p2 14) = 14" by (rule flog_unique) simp_all
  finally have "quant binary64 \<bar>x\<bar> - 1 \<le> - 38" by (simp add: quant_def binary64_def)
  then have "p2 (quant binary64 \<bar>x\<bar> - 1) \<le> p2 (- 38)" by (simp only: p2_le)
  then show ?thesis using rnd_error [OF False, of binary64] by linarith
qed simp

lemma dint_value: "\<bar>k\<bar> \<le> 65536 \<Longrightarrow> wfd (dint k) \<and> fisfinite (dint k) \<and> fval (dint k) = of_int k"
proof -
  assume k: "\<bar>k\<bar> \<le> 65536"
  have "rnd binary64 (of_int \<bar>k\<bar>) = of_int \<bar>k\<bar>"
    using rnd_representable_pos [OF valid_format_binary(1), of "\<bar>k\<bar>" 0] k
    by (simp add: rnd_eq_pos binary64_def)
  then have r: "rnd binary64 (of_int k) = of_int k"
    using rnd_minus [of binary64 "of_int k"] by (cases "0 \<le> k") auto
  have "real_of_int \<bar>k\<bar> \<le> of_int 65536" using k by (simp only: of_int_le_iff)
  then have "\<bar>real_of_int k\<bar> \<le> p2 17" by simp
  then have "in_range binary64 (of_int k)" by (rule in_range_p2 [OF valid_format_binary(1)]) (simp_all add: binary64_def)
  then show ?thesis using fof_int_facts [OF valid_format_binary(1), of k] r by simp
qed

text \<open>Finite coefficients, all zero or with a maximum away from the ends of the float range.\<close>

definition quantisable :: "float32 list \<Rightarrow> bool" where
  "quantisable c \<longleftrightarrow> (\<forall>x \<in> set c. wfs x \<and> fisfinite x \<and> \<bar>fval x\<bar> \<le> p2 126) \<and>
     ((\<forall>x \<in> set c. fval x = 0) \<or> (\<exists>x \<in> set c. p2 (- 110) \<le> \<bar>fval x\<bar>))"

lemma p2_numerals: "p2 14 = 16384" "p2 (- 38) \<le> 1 / 1000000" "p2 (- 53) \<le> 1 / 1000000" "p2 (- 24) \<le> 1 / 10000000"
  by (simp_all add: power_int_minus)

lemma scale_facts:
  assumes mx: "wfd mx" "fisfinite mx" "p2 (- 110) \<le> fval mx" "fval mx \<le> p2 126" and mi: "1 \<le> mi" "mi \<le> 16383"
  defines "s \<equiv> coefficient_scale mx mi"
  shows "wfd s" "fisfinite s" "p2 (- 124) \<le> fval s" "fval s \<le> p2 126"
    "\<bar>fval s - fval mx / of_int mi\<bar> \<le> fval mx / of_int mi * p2 (- 53)"
proof -
  have pos: "0 < fval mx" using mx(3) p2_pos [of "- 110"] by linarith
  have d: "wfd (dint mi)" "fisfinite (dint mi)" "fval (dint mi) = of_int mi" using dint_value [of mi] mi by simp_all
  have s: "s = ddiv mx (dint mi)"
    using pos mx(2) by (simp add: s_def coefficient_scale_def flt_fval smant_def)
  have lo: "p2 (- 124) \<le> fval mx / of_int mi"
  proof -
    have "p2 (- 124) * of_int mi \<le> p2 (- 124) * p2 14" using mi by (intro mult_left_mono) (simp_all add: p2_numerals(1))
    also have "\<dots> = p2 (- 110)" by (simp flip: p2_add)
    finally show ?thesis using mx(3) mi by (simp add: pos_le_divide_eq)
  qed
  have hi: "fval mx / of_int mi \<le> p2 126"
  proof -
    have "fval mx / of_int mi \<le> fval mx / 1" using pos mi by (intro divide_left_mono) simp_all
    then show ?thesis using mx(4) by simp
  qed
  have g: "grid (p2 (- 124))" "grid (p2 126)" by (rule grid_p2; simp)+
  have nz: "fval (dint mi) \<noteq> 0" using d mi by simp
  note q = ddiv_in [OF mx(1,2) d(1,2) nz g, unfolded d(3), OF lo hi, folded s]
  show "wfd s" "fisfinite s" "p2 (- 124) \<le> fval s" "fval s \<le> p2 126" using q(1) by (simp_all add: dbl_in_def)
  have "p2 (emin binary64 + int (prec binary64) - 1) \<le> p2 (- 124)" unfolding p2_le by (simp add: binary64_def)
  then have "p2 (emin binary64 + int (prec binary64) - 1) \<le> \<bar>fval mx / of_int mi\<bar>" using lo by linarith
  from rnd_relative [OF this] show "\<bar>fval s - fval mx / of_int mi\<bar> \<le> fval mx / of_int mi * p2 (- 53)"
    using pos mi by (simp add: q(2) binary64_def abs_mult)
qed

lemma ratio_bound:
  fixes x s mx e n :: real
  assumes x: "\<bar>x\<bar> \<le> mx" and s: "\<bar>s - mx / n\<bar> \<le> mx / n * e" and mx: "0 < mx" and n: "1 \<le> n" "n \<le> 16383"
    and e: "0 \<le> e" "e \<le> 1 / 1000000"
  shows "0 < s" "\<bar>x / s\<bar> \<le> n + 1 / 8"
proof -
  define a where "a = mx / n"
  have a: "0 < a" "mx = a * n" using mx n by (simp_all add: a_def)
  have sa: "a * (1 - e) \<le> s" using s unfolding a_def [symmetric] by (simp add: algebra_simps abs_le_iff)
  have "0 < a * (1 - e)" using a(1) e by (intro mult_pos_pos) simp_all
  then show s0: "0 < s" using sa by linarith
  have "(n + 1 / 8) * e \<le> 16384 * (1 / 1000000)" using n e by (intro mult_mono) simp_all
  then have "n \<le> (n + 1 / 8) * (1 - e)" by (simp add: algebra_simps)
  then have "a * n \<le> a * ((n + 1 / 8) * (1 - e))" using a(1) by (intro mult_left_mono) simp_all
  also have "\<dots> = (n + 1 / 8) * (a * (1 - e))" by simp
  also have "\<dots> \<le> (n + 1 / 8) * s" using sa n by (intro mult_left_mono) simp_all
  finally have "\<bar>x\<bar> \<le> (n + 1 / 8) * s" using x a(2) by linarith
  then show "\<bar>x / s\<bar> \<le> n + 1 / 8" using s0 by (simp add: abs_divide pos_divide_le_eq)
qed

lemma quantize_near:
  assumes x: "wfs x" "fisfinite x" "\<bar>fval x\<bar> \<le> fval mx"
    and mx: "wfd mx" "fisfinite mx" "p2 (- 110) \<le> fval mx" "fval mx \<le> p2 126" and mi: "1 \<le> mi" "mi \<le> 16383"
  defines "s \<equiv> coefficient_scale mx mi"
  shows "\<bar>of_int (quantize m s mi x) - fval x / fval s\<bar> \<le> 1 / 2 + p2 (- 38)" "\<bar>quantize m s mi x\<bar> \<le> mi"
proof -
  note sf = scale_facts [OF mx mi, folded s_def]
  have pos: "0 < fval mx" using mx(3) p2_pos [of "- 110"] by linarith
  have n: "(1 :: real) \<le> of_int mi" "of_int mi \<le> (16383 :: real)" using mi by simp_all
  note r = ratio_bound [OF x(3) sf(5) pos n less_imp_le [OF p2_pos] p2_numerals(3)]
  have big: "\<bar>fval x / fval s\<bar> \<le> p2 14" using r(2) n(2) p2_numerals(1) by linarith
  have td: "wfd (to_double x)" "fisfinite (to_double x)" "fval (to_double x) = fval x"
    using to_double_facts [OF x(1)] x(2) by simp_all
  have g: "grid (- p2 14)" "grid (p2 14)" unfolding grid_minus by (rule grid_p2; simp)+
  have ab: "- p2 14 \<le> fval x / fval s" "fval x / fval s \<le> p2 14" using big by linarith+
  note y = ddiv_in [OF td(1,2) sf(1,2) less_imp_neq [OF r(1), symmetric] g, unfolded td(3), OF ab]
  define y where "y = ddiv (to_double x) s"
  have yf: "wfd y" "fisfinite y" "\<bar>fval y\<bar> \<le> p2 14" using y(1) by (auto simp: y_def dbl_in_def)
  have ye: "\<bar>fval y - fval x / fval s\<bar> \<le> p2 (- 38)" using rnd_small [OF big] by (simp add: y_def y(2))
  have "(16384 :: real) \<le> 2 ^ 60" by simp
  then have "\<bar>fval y\<bar> \<le> 2 ^ 60" using yf(3) unfolding p2_numerals(1) by linarith
  from flround_nearest [OF yf(1,2) this] obtain k where k: "flround y = Some k" "\<bar>real_of_int k - fval y\<bar> \<le> 1 / 2" .
  have "\<bar>real_of_int k\<bar> < of_int mi + 1" using k(2) ye r(2) p2_numerals(2) by linarith
  then have "real_of_int \<bar>k\<bar> < of_int (mi + 1)" by simp
  then have "\<bar>k\<bar> \<le> mi" unfolding of_int_less_iff by linarith
  then have qk: "quantize m s mi x = k"
    by (auto simp: quantize_def lround_def y_def [symmetric] k(1) Let_def)
  show "\<bar>of_int (quantize m s mi x) - fval x / fval s\<bar> \<le> 1 / 2 + p2 (- 38)"
    unfolding qk using k(2) ye by linarith
  show "\<bar>quantize m s mi x\<bar> \<le> mi" unfolding qk by fact
qed

section \<open>The dequantiser\<close>

lemma float_int_value:
  assumes "\<bar>q\<bar> \<le> 16383"
  shows "wfs (fof_int binary32 q)" "fisfinite (fof_int binary32 q)" "fval (fof_int binary32 q) = of_int q"
proof -
  have "rnd binary32 (of_int \<bar>q\<bar>) = of_int \<bar>q\<bar>"
    using rnd_representable_pos [OF valid_format_binary(2), of "\<bar>q\<bar>" 0] assms
    by (simp add: rnd_eq_pos binary32_def)
  then have r: "rnd binary32 (of_int q) = of_int q"
    using rnd_minus [of binary32 "of_int q"] by (cases "0 \<le> q") auto
  have "real_of_int \<bar>q\<bar> \<le> of_int 16383" using assms by (simp only: of_int_le_iff)
  then have "\<bar>real_of_int q\<bar> \<le> p2 14" by simp
  then have "in_range binary32 (of_int q)" by (rule in_range_p2 [OF valid_format_binary(2)]) (simp_all add: binary32_def)
  then show "wfs (fof_int binary32 q)" "fisfinite (fof_int binary32 q)" "fval (fof_int binary32 q) = of_int q"
    using fof_int_facts [OF valid_format_binary(2), of q] r by simp_all
qed

lemma float_relative: "p2 (- 126) \<le> \<bar>x\<bar> \<Longrightarrow> \<bar>rnd binary32 x - x\<bar> \<le> \<bar>x\<bar> * p2 (- 24)"
  using rnd_relative [of binary32 x] by (simp add: binary32_def)

lemma float_range: "\<bar>x\<bar> \<le> p2 127 \<Longrightarrow> in_range binary32 x"
  using in_range_p2 [OF valid_format_binary(2), of x 127] by (simp add: binary32_def)

lemma stored_scale:
  assumes "wfd s" "fisfinite s" "p2 (- 124) \<le> fval s" "fval s \<le> p2 126"
  shows "wfs (to_float s)" "fisfinite (to_float s)" "\<bar>fval (to_float s) - fval s\<bar> \<le> fval s * p2 (- 24)"
    "p2 (- 124) \<le> fval (to_float s)" "\<not> fle (to_float s) fzero"
proof -
  have pos: "0 < fval s" using assms(3) p2_pos [of "- 124"] by linarith
  have "p2 126 \<le> p2 127" "p2 (- 126) \<le> p2 (- 124)" unfolding p2_le by simp_all
  then have "in_range binary32 (fval s)" "p2 (- 126) \<le> \<bar>fval s\<bar>" using float_range [of "fval s"] assms(3,4) pos by linarith+
  then show w: "wfs (to_float s)" "fisfinite (to_float s)" "\<bar>fval (to_float s) - fval s\<bar> \<le> fval s * p2 (- 24)"
    using fcvt_facts [OF valid_format_binary(2) assms(2,1)] float_relative [of "fval s"] pos by simp_all
  have "rnd binary32 (p2 (- 124)) = p2 (- 124)" by (rule rnd_p2 [OF valid_format_binary(2)]) (simp add: binary32_def)
  moreover have "fval (to_float s) = rnd binary32 (fval s)"
    using fcvt_facts [OF valid_format_binary(2) assms(2,1)] \<open>in_range binary32 (fval s)\<close> by simp
  ultimately show lo: "p2 (- 124) \<le> fval (to_float s)"
    using rnd_mono [OF valid_format_binary(2) assms(3)] by simp
  then show "\<not> fle (to_float s) fzero"
    using w(2) p2_pos [of "- 124"] by (simp add: fle_fval smant_def not_le)
qed

lemma dequantize_near:
  assumes s: "wfd s" "fisfinite s" "p2 (- 124) \<le> fval s" "fval s \<le> p2 126"
    and q: "\<bar>q\<bar> \<le> 16383" "\<bar>of_int q\<bar> * fval s \<le> p2 126 * (1 + 1 / 1000)"
  shows "fisfinite (dequantize (to_float s) q)"
    "\<bar>fval (dequantize (to_float s) q) - of_int q * fval s\<bar> \<le> \<bar>of_int q\<bar> * fval s * (3 / 10000000)"
proof -
  note f = stored_scale [OF s] and i = float_int_value [OF q(1)]
  define e where "e = p2 (- 24)"
  have e: "0 \<le> e" "e \<le> 1 / 10000000" by (simp_all add: e_def p2_numerals(4))
  define v where "v = of_int q * fval (to_float s)"
  define n where "n = \<bar>real_of_int q\<bar>"
  have n: "0 \<le> n" by (simp add: n_def)
  have pos: "0 < fval s" using s(3) p2_pos [of "- 124"] by linarith
  have fe: "\<bar>fval (to_float s) - fval s\<bar> \<le> fval s * e" using f(3) by (simp add: e_def)
  have ve: "\<bar>v - of_int q * fval s\<bar> \<le> n * fval s * e"
    using mult_left_mono [OF fe n] by (simp add: v_def n_def abs_mult [symmetric] right_diff_distrib mult.assoc)
  have absqs: "\<bar>of_int q * fval s\<bar> = n * fval s" using pos by (simp add: n_def abs_mult)
  have vn: "\<bar>v\<bar> \<le> n * fval s + n * fval s * e"
    using ve absqs by linarith
  have nse: "n * fval s * e \<le> n * fval s * (1 / 10000000)" using n pos e by (intro mult_left_mono) simp_all
  have "\<bar>v\<bar> \<le> p2 126 * (1 + 1 / 1000) + p2 126 * (1 + 1 / 1000) * (1 / 10000000)"
    using vn nse q(2) by (simp add: n_def)
  also have "\<dots> \<le> p2 126 * 2" by simp
  also have "\<dots> = p2 127" using p2_add [of 126 1] by simp
  finally have range: "in_range binary32 v" by (rule float_range)
  have m: "fisfinite (dequantize (to_float s) q)" "fval (dequantize (to_float s) q) = rnd binary32 v"
    using fmul_facts [OF valid_format_binary(2) i(2,1) f(2,1)] range by (simp_all add: dequantize_def i(3) v_def)
  have re: "\<bar>rnd binary32 v - v\<bar> \<le> \<bar>v\<bar> * e"
  proof (cases "q = 0")
    case False
    then have "1 \<le> \<bar>real_of_int q\<bar>" by (simp flip: of_int_abs)
    then have "1 * p2 (- 124) \<le> \<bar>real_of_int q\<bar> * fval (to_float s)" using f(4) by (intro mult_mono) simp_all
    moreover have "p2 (- 126) \<le> p2 (- 124)" unfolding p2_le by simp
    ultimately have "p2 (- 126) \<le> \<bar>v\<bar>" using f(4) p2_pos [of "- 124"] by (simp add: v_def abs_mult)
    then show ?thesis using float_relative by (simp add: e_def)
  qed (simp add: v_def)
  have "\<bar>v\<bar> * e \<le> (n * fval s + n * fval s * (1 / 10000000)) * (1 / 10000000)"
    using vn nse e by (intro mult_mono) (simp_all add: n pos less_imp_le)
  then have "\<bar>rnd binary32 v - v\<bar> + \<bar>v - of_int q * fval s\<bar> \<le> n * fval s * (3 / 10000000)"
    using re ve nse mult_nonneg_nonneg [OF n less_imp_le [OF pos]] by (simp add: algebra_simps)
  then show "\<bar>fval (dequantize (to_float s) q) - of_int q * fval s\<bar> \<le> \<bar>of_int q\<bar> * fval s * (3 / 10000000)"
    unfolding m(2) n_def by linarith
  show "fisfinite (dequantize (to_float s) q)" by (rule m)
qed

section \<open>Accuracy\<close>

text \<open>The scale of a quantisable list can be stored, and every coefficient is restored.\<close>

definition restored_within :: "real \<Rightarrow> float32 \<Rightarrow> float32 \<Rightarrow> bool" where
  "restored_within b x y \<longleftrightarrow> fisfinite y \<and> \<bar>fval y - fval x\<bar> \<le> b"

lemma one_scale: "coefficient_scale mx mi = ddec 10 1" "wfd (ddec 10 1)" "fisfinite (ddec 10 1)" "fval (ddec 10 1) = 1"
  if "fisfinite mx" "fval mx = 0"
  using that one_decimal wff_ddec by (simp_all add: coefficient_scale_def flt_fval smant_def del: wff.simps)

lemma zero_restored:
  assumes "wfs x" "fisfinite x" "fval x = 0" "0 \<le> mi"
  shows "quantize m (ddec 10 1) mi x = 0"
proof -
  have td: "wfd (to_double x)" "fisfinite (to_double x)" "fval (to_double x) = 0"
    using to_double_facts [OF assms(1)] assms(2,3) by simp_all
  have o: "wfd (ddec 10 1)" "fisfinite (ddec 10 1)" "fval (ddec 10 1) = 1"
    using one_decimal wff_ddec by (simp_all del: wff.simps)
  define y where "y = ddiv (to_double x) (ddec 10 1)"
  have y: "wfd y" "fisfinite y" "fval y = 0"
    using ddiv_in [OF td(1,2) o(1,2), of 0 0] o(3) td(3) by (simp_all add: y_def dbl_in_def del: wff.simps)
  obtain k where k: "flround y = Some k" "\<bar>real_of_int k - fval y\<bar> \<le> 1 / 2"
    by (rule flround_nearest [OF y(1,2)]) (simp_all add: y(3))
  then have "k = 0" using y(3) by linarith
  then show ?thesis using k(1) assms(4) by (simp add: quantize_def lround_def y_def [symmetric])
qed

lemma restore_step:
  fixes q s x n :: real
  assumes q: "\<bar>q - x / s\<bar> \<le> 1 / 2 + h" and s: "0 < s" and n: "\<bar>q\<bar> \<le> 16383" and h: "h \<le> 1 / 1000000"
    and r: "\<bar>r - q * s\<bar> \<le> \<bar>q\<bar> * s * (3 / 10000000)"
  shows "\<bar>r - x\<bar> \<le> 51 / 100 * s"
proof -
  have "\<bar>q * s - x\<bar> = \<bar>q - x / s\<bar> * s" using s by (simp add: abs_mult_pos field_simps)
  also have "\<dots> \<le> (1 / 2 + h) * s" using q s by (intro mult_right_mono) simp_all
  also have "\<dots> \<le> (1 / 2 + 1 / 1000000) * s" using h s by (intro mult_right_mono) simp_all
  finally have a: "\<bar>q * s - x\<bar> \<le> (1 / 2 + 1 / 1000000) * s" .
  have "\<bar>q\<bar> * s * (3 / 10000000) \<le> 16383 * s * (3 / 10000000)" using n s by (intro mult_right_mono) simp_all
  then have "\<bar>r - q * s\<bar> \<le> 16383 * s * (3 / 10000000)" using r by linarith
  moreover have "\<bar>r - x\<bar> \<le> \<bar>r - q * s\<bar> + \<bar>q * s - x\<bar>" by linarith
  moreover have "16383 * s * (3 / 10000000) + (1 / 2 + 1 / 1000000) * s \<le> 51 / 100 * s"
    using s by (simp add: field_simps)
  ultimately show ?thesis using a by linarith
qed

lemma coefficients_restored:
  assumes c: "quantisable c" and bits: "2 \<le> bits" "bits \<le> 15"
  defines "s \<equiv> coefficient_scale (coefficient_maximum c) (maximum_integer bits)"
  shows "fisfinite (to_float s)" "\<not> fle (to_float s) fzero"
    "\<forall>x \<in> set c. restored_within (51 / 100 * fval s) x (dequantize (to_float s) (quantize m s (maximum_integer bits) x))"
    "fval s * of_int (maximum_integer bits) \<le> fval (coefficient_maximum c) * (1 + 1 / 1000) \<or> fval (coefficient_maximum c) = 0 \<and> fval s = 1"
proof -
  let ?mx = "coefficient_maximum c" and ?mi = "maximum_integer bits"
  have fin: "\<forall>x \<in> set c. wfs x \<and> fisfinite x" using c by (simp add: quantisable_def)
  note mx = coefficient_maximum_spec [OF fin]
  have mi: "1 \<le> ?mi" "?mi \<le> 16383" using maximum_integer_bounds [OF bits] by auto
  consider (zero) "fval ?mx = 0" | (pos) "p2 (- 110) \<le> fval ?mx" "fval ?mx \<le> p2 126"
  proof (cases "\<forall>x \<in> set c. fval x = 0")
    case True
    then show thesis using mx(5) zero by auto
  next
    case False
    then obtain x where "x \<in> set c" "p2 (- 110) \<le> \<bar>fval x\<bar>" using c by (auto simp: quantisable_def)
    then have "p2 (- 110) \<le> fval ?mx" using mx(4) by fastforce
    moreover have "fval ?mx \<le> p2 126" using mx(5) c p2_pos [of 126] by (auto simp: quantisable_def)
    ultimately show thesis by (rule pos)
  qed
  then have "(fisfinite (to_float s) \<and> \<not> fle (to_float s) fzero) \<and>
    (\<forall>x \<in> set c. restored_within (51 / 100 * fval s) x (dequantize (to_float s) (quantize m s ?mi x))) \<and>
    (fval s * of_int ?mi \<le> fval ?mx * (1 + 1 / 1000) \<or> fval ?mx = 0 \<and> fval s = 1)"
  proof cases
    case zero
    note o = one_scale [OF mx(2) zero]
    have s: "s = ddec 10 1" by (simp add: s_def o)
    have lo: "p2 (- 124) \<le> fval s" "fval s \<le> p2 126"
      using p2_le [of "- 124" 0] p2_le [of 0 126] by (simp_all add: s o(4) del: p2_le)
    note st = stored_scale [OF o(2,3) lo [unfolded s], folded s]
    have sign: "\<not> fsignbit (to_float s)" by (rule positive_float_sign [OF st(2,1,5)])
    have "fval x = 0" if "x \<in> set c" for x using mx(4) zero that by fastforce
    then have "\<forall>x \<in> set c. restored_within (51 / 100 * fval s) x (dequantize (to_float s) (quantize m s ?mi x))"
      using zero_restored [of _ ?mi m] fin mi dequantize_zero [OF st(2) sign]
      by (simp add: restored_within_def s o smant_def)
    then show ?thesis using zero st(2,5) by (simp add: s o)
  next
    case pos
    note sf = scale_facts [OF mx(1,2) pos mi, folded s_def]
    note st = stored_scale [OF sf(1,2,3,4)]
    have s0: "0 < fval s" using sf(3) p2_pos [of "- 124"] by linarith
    have mx0: "0 < fval ?mx" using pos(1) p2_pos [of "- 110"] by linarith
    have "fval s \<le> fval ?mx / of_int ?mi * (1 + p2 (- 53))" using sf(5) by (simp add: algebra_simps abs_le_iff)
    also have "\<dots> \<le> fval ?mx / of_int ?mi * (1 + 1 / 1000)"
      using mx0 mi p2_numerals(3) by (intro mult_left_mono) simp_all
    finally have prod: "fval s * of_int ?mi \<le> fval ?mx * (1 + 1 / 1000)"
      using mi by (simp add: field_simps)
    have "\<forall>x \<in> set c. restored_within (51 / 100 * fval s) x (dequantize (to_float s) (quantize m s ?mi x))"
    proof
      fix x assume x: "x \<in> set c"
      define q where "q = quantize m s ?mi x"
      have near: "\<bar>of_int q - fval x / fval s\<bar> \<le> 1 / 2 + p2 (- 38)" "\<bar>q\<bar> \<le> ?mi"
        using quantize_near [of x ?mx ?mi m, OF _ _ _ mx(1,2) pos mi] fin mx(4) x by (auto simp: q_def s_def)
      have q: "\<bar>q\<bar> \<le> 16383" using near(2) mi by simp
      have "real_of_int \<bar>q\<bar> \<le> of_int ?mi" unfolding of_int_le_iff by (rule near(2))
      then have "\<bar>real_of_int q\<bar> * fval s \<le> of_int ?mi * fval s" using s0 by (intro mult_right_mono) simp_all
      also have "\<dots> \<le> p2 126 * (1 + 1 / 1000)" using prod pos(2) by (simp add: mult.commute)
      finally have le: "\<bar>of_int q\<bar> * fval s \<le> p2 126 * (1 + 1 / 1000)" .
      note d = dequantize_near [OF sf(1,2,3,4) q le]
      have "real_of_int \<bar>q\<bar> \<le> of_int 16383" unfolding of_int_le_iff by (rule q)
      then have "\<bar>real_of_int q\<bar> \<le> 16383" by simp
      from restore_step [OF near(1) s0 this p2_numerals(2) d(2)]
      show "restored_within (51 / 100 * fval s) x (dequantize (to_float s) (quantize m s ?mi x))"
        using d(1) by (simp add: restored_within_def q_def)
    qed
    then show ?thesis using prod st(2,5) by blast
  qed
  then show "fisfinite (to_float s)" "\<not> fle (to_float s) fzero"
    "\<forall>x \<in> set c. restored_within (51 / 100 * fval s) x (dequantize (to_float s) (quantize m s ?mi x))"
    "fval s * of_int ?mi \<le> fval ?mx * (1 + 1 / 1000) \<or> fval ?mx = 0 \<and> fval s = 1" by blast+
qed

text \<open>
  C23: accuracy. Whenever the thresholded coefficients are finite and either all zero or with a
  largest magnitude between \<open>2^-110\<close> and \<open>2^126\<close>, the encoder's output is decoded, and the
  coefficients the decoder gives to the inverse transform differ from the encoder's by at most
  51/100 of the quantiser step, which is the largest magnitude divided by
  \<open>2^(bits-1) - 1\<close> up to a thousandth.
\<close>

theorem codec_accuracy:
  assumes enc: "adaptive_codec_encode m (Some xs) n wid state (Some cfg) True cap True = Inr (out, md)"
    and coeffs: "codec_coefficients m xs n state cfg = Inr (c, t)" "quantisable c"
    and xs: "\<forall>x \<in> set xs. wfs x" "n \<le> length xs"
    and bits: "2 \<le> quant_bits cfg ! state" "quant_bits cfg ! state \<le> 15"
    and room: "n \<le> capacity"
  shows "\<exists>restored md' d. adaptive_codec_decode (Some out) True capacity True = Inr (restored, md') \<and>
    adaptive_db4_inverse (Some d) n (wavelet_levels cfg) True ADAPTIVE_MAX_WINDOW = Inr restored \<and>
    length c = n \<and> list_all2 (restored_within (51 / 100 * fval (md_scale md))) c d \<and>
    (fval (md_scale md) * of_int (maximum_integer (quant_bits cfg ! state)) \<le> fval (coefficient_maximum c) * (1 + 1 / 1000) \<or>
     fval (coefficient_maximum c) = 0 \<and> fval (md_scale md) = 1)"
proof -
  note r = encode_result [OF enc xs]
  have sc: "md_scale md = coefficient_scale (coefficient_maximum c) (maximum_integer (quant_bits cfg ! state))"
    and qs: "quantized_window m xs n state cfg (md_scale md) =
      map (quantize m (md_scale md) (maximum_integer (quant_bits cfg ! state))) c"
    using r(10) coeffs(1) by auto
  note f = coefficients_restored [OF coeffs(2) bits, folded sc]
  have len: "length c = n" using r(2) qs by simp
  have "list_all2 (restored_within (51 / 100 * fval (md_scale md))) c
      (map (dequantize (to_float (md_scale md))) (quantized_window m xs n state cfg (md_scale md)))"
    using f(3) by (simp add: qs list_all2_conv_all_nth)
  then show ?thesis using decode_encoded [OF enc xs bits f(1,2) room] f(4) len by blast
qed

lemma codec_accuracy_witness:
  "\<exists>out md restored md' d.
    adaptive_codec_encode zero_libm (Some (replicate 8 fzero)) 8 77 1 (Some small_config) True 1088 True = Inr (out, md) \<and>
    adaptive_codec_decode (Some out) True 8 True = Inr (restored, md') \<and>
    list_all2 (restored_within (51 / 100 * fval (md_scale md))) (replicate 8 fzero) d"
proof -
  have "quantisable (replicate 8 fzero)" by (simp add: quantisable_def wff_dzero smant_def del: wff.simps)
  moreover have "2 \<le> quant_bits small_config ! 1" "quant_bits small_config ! 1 \<le> 15" by (simp_all add: small_config_def)
  moreover have "\<forall>x \<in> set (replicate 8 fzero). wfs x" by (simp add: wff_dzero del: wff.simps)
  ultimately show ?thesis
    using codec_accuracy [OF zero_encodes zero_coefficients, of 8] zero_encodes by (auto simp del: wff.simps One_nat_def)
qed

text \<open>
  C24: the encoder is total. With a validated configuration, any state of the five, and the
  buffer the pipeline gives it, it succeeds on every window of samples, NaN and infinities
  included, whatever the mathematics library returns; the output has the header and four
  bytes per nonzero coefficient and fits in 1052 bytes.
\<close>

theorem encode_total:
  assumes shape: "config_shape c" and ok: "adaptive_config_validate (Some c) err = (ADAPTIVE_OK, msg)"
    and state: "state < 5"
  shows "\<exists>out md. adaptive_codec_encode m (Some xs) (window_size c) wid state (Some c) True
      ADAPTIVE_MAX_REPRESENTATION True = Inr (out, md) \<and>
    length out = 28 + 4 * md_nonzero md \<and> length out \<le> 1052"
proof -
  have v: "validate_transform (window_size c) (wavelet_levels c) ADAPTIVE_MAX_WINDOW = Inr ()"
    using validated_facts [OF shape ok] by blast
  then have "window_size c \<le> 256" by (simp add: validate_transform_cases ADAPTIVE_MAX_WINDOW_def)
  then show ?thesis
    using encode_returns [OF v state, of ADAPTIVE_MAX_REPRESENTATION m xs wid]
    by (auto simp: ADAPTIVE_MAX_REPRESENTATION_def ADAPTIVE_MAX_WINDOW_def) 
qed

lemma encode_total_witness:
  "\<exists>out md. adaptive_codec_encode zero_libm (Some [FNaN]) 128 5 2 (Some default_config) True
      ADAPTIVE_MAX_REPRESENTATION True = Inr (out, md) \<and> length out \<le> 1052"
  using encode_total [OF default_shape default_valid, of 2 zero_libm "[FNaN]" 5] by (auto simp: default_fields)

end
