(* ===== verification/Demo_Metrics.thy ===== *)
theory Demo_Metrics
  imports Demo Float_Ranges Hmm_Start Codec_Accuracy
begin

text \<open>
  The metrics that the demonstration program generates: bounds of every one of them at every
  step, and that the baseline accepts them.
\<close>

declare One_nat_def [simp del]

text \<open>The dyadic bounds the computations below stay within.\<close>

lemma grid_bounds [simp]:
  "grid (13 / 8)" "grid (19 / 16)" "grid (21 / 256)" "grid (105 / 256)" "grid (3 / 8)" "grid (3 / 4)" "grid (13 / 16)"
  "grid (1 / 2)" "grid (1 / 4)" "grid (1 / 8)" "grid (13 / 64)" "grid (13 / 32)" "grid (1 / 32)" "grid (1 / 64)"
  "grid (5 / 2)" "grid (91 / 64)" "grid (7 / 8)" "grid (5 / 8)"
  "grid 45" "grid 95" "grid 156" "grid 256" "grid 7200" "grid 18000"
  using grid_dyadic [of 13 3] grid_dyadic [of 19 4] grid_dyadic [of 21 8] grid_dyadic [of 105 8] grid_dyadic [of 3 3]
    grid_dyadic [of 3 2] grid_dyadic [of 13 4] grid_dyadic [of 1 1] grid_dyadic [of 1 2] grid_dyadic [of 1 3]
    grid_dyadic [of 13 6] grid_dyadic [of 13 5] grid_dyadic [of 1 5] grid_dyadic [of 1 6] grid_dyadic [of 5 1]
    grid_dyadic [of 91 6] grid_dyadic [of 7 3] grid_dyadic [of 5 3] grid_dyadic [of 45 0] grid_dyadic [of 95 0]
    grid_dyadic [of 156 0] grid_dyadic [of 256 0] grid_dyadic [of 7200 0] grid_dyadic [of 18000 0]
  by simp_all

lemma dint_range: "n \<le> k \<Longrightarrow> k \<le> 65536 \<Longrightarrow> dbl_in 0 (real k) (dint (int n))"
  using dint_value [of "int n"] by (simp add: dbl_in_def)

text \<open>The pressure is between 0 and 13/8.\<close>

lemma network_pressure_in: "dbl_in 0 (13 / 8) (network_pressure step)"
proof -
  define phase where "phase = step mod 24"
  have scaled: "n \<le> k \<Longrightarrow> k \<le> 65536 \<Longrightarrow> dbl_in 0 a x \<Longrightarrow> grid (a * real k) \<Longrightarrow> dbl_in 0 (a * real k) (dmul x (dint (int n)))" for n k a x
    by (rule dmul_nonneg_in) (simp_all add: dint_range)
  have c: "dbl_in 0 (1 / 4) (ddec 15 2)" "dbl_in 0 (1 / 32) (ddec 2 2)" "dbl_in 0 (1 / 2) (ddec 35 2)" "dbl_in 0 (1 / 8) (ddec 10 2)"
    "dbl_in 0 (19 / 16) (ddec 115 2)" "dbl_in 0 (21 / 256) (ddec 8 2)" "dbl_in (3 / 4) (3 / 4) (ddec 75 2)" "dbl_in 0 (1 / 8) (ddec 12 2)"
    "dbl_in 0 (1 / 4) (ddec 20 2)"
    by (rule ddec_in; simp)+
  have 1: "phase < 5 \<Longrightarrow> dbl_in 0 (13 / 8) (dadd (ddec 15 2) (dmul (ddec 2 2) (dint (int phase))))"
    by (rule dadd_range [OF c(1) scaled [of phase 4, OF _ _ c(2)]]) simp_all
  have 2: "phase < 10 \<Longrightarrow> dbl_in 0 (13 / 8) (dadd (ddec 35 2) (dmul (ddec 10 2) (dint (int (phase - 5)))))"
    by (rule dadd_range [OF c(3) scaled [of "phase - 5" 4, OF _ _ c(4)]]) simp_all
  have 3: "phase < 16 \<Longrightarrow> dbl_in 0 (13 / 8) (dadd (ddec 115 2) (dmul (ddec 8 2) (dint (int (phase - 10)))))"
    by (rule dadd_range [OF c(5) scaled [of "phase - 10" 5, OF _ _ c(6)]]) simp_all
  have 4: "dbl_in 0 (13 / 8) (dsub (ddec 75 2) (dmul (ddec 12 2) (dint (int (phase - 16)))))" if "phase < 20"
  proof -
    have "dbl_in 0 (1 / 8 * real 3) (dmul (ddec 12 2) (dint (int (phase - 16))))"
      by (rule scaled [OF _ _ c(8)]) (use that in simp_all)
    note y = dbl_in_facts [OF this] and x = dbl_in_facts [OF c(7)]
    show ?thesis by (rule dsub_in(1)) (use x y in simp_all)
  qed
  have 5: "dbl_in 0 (13 / 8) (ddec 20 2)" by (rule dbl_in_weaken [OF c(9)]) simp_all
  show ?thesis
    unfolding network_pressure_def phase_def [symmetric] Let_def by (auto intro: 1 2 3 4 5 simp del: of_nat_diff int_ops(6))
qed

lemma generated_bounds:
  "dbl_in 0 1 (generate_network_parameters step ! metric_num QUEUE)"
  "dbl_in 0 (1 / 4) (generate_network_parameters step ! metric_num LOSS)"
  "dbl_in 45 256 (generate_network_parameters step ! metric_num RTT)"
  "dbl_in 0 (1 / 2) (generate_network_parameters step ! metric_num RETRY)"
  "dbl_in 7200 18000 (generate_network_parameters step ! metric_num GOODPUT)"
proof -
  define p where "p = network_pressure step"
  have p: "dbl_in 0 (13 / 8) p" by (simp add: p_def network_pressure_in)
  have g: "grid (13 / 16)" "grid (13 / 64)" "grid (1235 / 8)" "grid (13 / 32)" "grid (91 / 64)"
    using grid_dyadic [of 1235 3] by simp_all
  have c: "dbl_in 0 (1 / 2) (ddec 42 2)" "dbl_in 0 (1 / 8) (ddec 8 2)" "dbl_in 0 (1 / 8) (ddec 10 2)" "dbl_in 0 (1 / 64) (ddec 1 2)"
    "dbl_in 0 95 (ddec 950 1)" "dbl_in 45 45 (ddec 450 1)" "dbl_in 0 (1 / 4) (ddec 18 2)" "dbl_in 0 (1 / 32) (ddec 2 2)"
    "dbl_in 0 (7 / 8) (ddec 85 2)" "dbl_in 1 1 (ddec 10 1)" "dbl_in 18000 18000 (ddec 180000 1)"
    by (rule ddec_in; simp)+
  note m = dmul_nonneg_in [OF c(1) p] dmul_nonneg_in [OF c(3) p] dmul_nonneg_in [OF c(5) p] dmul_nonneg_in [OF c(7) p]
    dmul_nonneg_in [OF c(9) p]
  show "dbl_in 0 1 (generate_network_parameters step ! metric_num QUEUE)"
    using dadd_range [OF c(2) m(1), of 0 1] g by (simp add: generate_network_parameters_def p_def Let_def)
  show "dbl_in 0 (1 / 4) (generate_network_parameters step ! metric_num LOSS)"
    using dadd_range [OF c(4) m(2), of 0 "1 / 4"] g by (simp add: generate_network_parameters_def p_def Let_def)
  show "dbl_in 45 256 (generate_network_parameters step ! metric_num RTT)"
    using dadd_range [OF c(6) m(3), of 45 256] g by (simp add: generate_network_parameters_def p_def Let_def)
  show "dbl_in 0 (1 / 2) (generate_network_parameters step ! metric_num RETRY)"
    using dadd_range [OF c(8) m(4), of 0 "1 / 2"] g by (simp add: generate_network_parameters_def p_def Let_def)
  have "dbl_in 1 (5 / 2) (dadd (ddec 10 1) (dmul (ddec 85 2) p))"
    using dadd_range [OF c(10) m(5), of 1 "5 / 2"] g by simp
  note d = dbl_in_facts [OF this] and n = dbl_in_facts [OF c(11)]
  have eq: "fval (ddec 180000 1) = 18000" using n by simp
  have "dbl_in 7200 18000 (ddiv (ddec 180000 1) (dadd (ddec 10 1) (dmul (ddec 85 2) p)))"
    by (rule ddiv_in(1) [OF n(1,2) d(1,2)]) (use d eq in \<open>simp_all add: field_simps\<close>)
  then show "dbl_in 7200 18000 (generate_network_parameters step ! metric_num GOODPUT)"
    by (simp add: generate_network_parameters_def p_def Let_def)
qed

lemma less_five: "(i :: nat) < 5 \<Longrightarrow> i \<in> {0, 1, 2, 3, 4}"
  by auto

lemma generated_sane: "sane_metrics (generate_network_parameters step)"
proof -
  have "p2 20 \<le> metric_bound" unfolding metric_bound_def p2_le by simp
  then have b: "18000 \<le> metric_bound" by simp
  have "sane_metric (generate_network_parameters step ! i)" if "i < 5" for i
  proof -
    consider "i = metric_num QUEUE" | "i = metric_num LOSS" | "i = metric_num RTT" | "i = metric_num RETRY" | "i = metric_num GOODPUT"
      using less_five [OF \<open>i < 5\<close>] by fastforce
    then show ?thesis
      by cases (use generated_bounds [of step] b in \<open>auto elim!: dbl_in_weaken\<close>)
  qed
  then show ?thesis by (simp add: sane_metrics_def generate_network_parameters_def Let_def)
qed

text \<open>
  C39: The demonstration program only generates plausible metrics: at every step the queue ratio is
  between 0 and 1, the loss at most 1/4, the round trip between 45 and 256 ms, the retry
  ratio at most 1/2 and the goodput between 7200 and 18000 bit/s, all computed in double
  precision; and they are within what the baseline takes (\<open>sane_metrics\<close>).
\<close>

theorem generated_metrics_bounds:
  "dbl_in 0 1 (generate_network_parameters step ! metric_num QUEUE) \<and>
   dbl_in 0 (1 / 4) (generate_network_parameters step ! metric_num LOSS) \<and>
   dbl_in 45 256 (generate_network_parameters step ! metric_num RTT) \<and>
   dbl_in 0 (1 / 2) (generate_network_parameters step ! metric_num RETRY) \<and>
   dbl_in 7200 18000 (generate_network_parameters step ! metric_num GOODPUT) \<and>
   sane_metrics (generate_network_parameters step)"
  using generated_bounds [of step] generated_sane [of step] by blast

end
