(* ===== verification/Delivery.thy ===== *)
theory Delivery
  imports Loopback Coap_Roundtrip Security_Test
begin

text \<open>
  What the sender segments, seals and frames, the receiver parses, opens and reassembles:
  over any record layer that keeps its contract, the blocks of a window arrive as the
  representation that was sent.
\<close>

section \<open>A packet fits its buffer\<close>

lemma split_slash_length: "sum_list (map (\<lambda>x. length x + 1) (split_slash s)) = length s + 1"
proof (induction s)
  case (Cons c s)
  have "split_slash s \<noteq> []" by (simp add: split_slash_segment [of s])
  then show ?case using Cons by (cases "split_slash s") auto
qed simp

lemma path_segments_length: "2 * sum_list (map (\<lambda>x. length x + 2) (path_segments s)) \<le> 3 * (length s + 1)"
proof -
  have "2 * sum_list (map (\<lambda>x. length x + 2) (filter (\<lambda>x. x \<noteq> []) xs)) \<le> 3 * sum_list (map (\<lambda>x. length x + 1) xs)"
    for xs :: "string list"
  proof (induction xs)
    case (Cons x xs)
    then show ?case by (cases x) simp_all
  qed simp
  from this [of "split_slash s"] show ?thesis unfolding split_slash_length path_segments_def .
qed

lemma option_bytes_length:
  "d < 13 \<Longrightarrow> length v < 269 \<Longrightarrow> length (option_bytes d v) \<le> length v + 2"
  "13 \<le> d \<Longrightarrow> d < 269 \<Longrightarrow> length v < 13 \<Longrightarrow> length (option_bytes d v) \<le> length v + 2"
  by (simp_all add: option_bytes_def encode_extended_def)

lemma uint_option_length: "1 \<le> d \<Longrightarrow> d < 269 \<Longrightarrow> length (option_bytes d (encode_uint v)) \<le> 6"
proof -
  assume d: "1 \<le> d" "d < 269"
  have l: "length (encode_uint v) \<le> 4" by (rule length_encode_uint)
  have "length (option_bytes d (encode_uint v)) \<le> length (encode_uint v) + 2"
    using option_bytes_length [of d "encode_uint v"] d l by (cases "d < 13") simp_all
  then show ?thesis using l by linarith
qed

lemma segment_bytes_length:
  "d < 13 \<Longrightarrow> \<forall>x \<in> set xs. length x < 269 \<Longrightarrow>
   length (segment_bytes d xs) \<le> sum_list (map (\<lambda>x. length x + 2) xs)"
proof (induction d xs rule: segment_bytes.induct)
  case (2 d x xs)
  then show ?case using option_bytes_length(1) [of d "c_bytes x"] by fastforce
qed simp

lemma path_segment_short: "x \<in> set (path_segments s) \<Longrightarrow> length x \<le> length s"
proof -
  have "x \<in> set xs \<Longrightarrow> length x + 1 \<le> sum_list (map (\<lambda>x. length x + 1) xs)" for xs :: "string list"
    using member_le_sum_list [of "length x + 1" "map (\<lambda>x. length x + 1) xs"] by auto
  then show "x \<in> set (path_segments s) \<Longrightarrow> length x \<le> length s"
    using split_slash_length [of s] by (fastforce simp: path_segments_def)
qed

lemma packet_bytes_length:
  assumes wf: "block_wf b" and args: "build_args_ok b capacity" and path: "length path \<le> 63"
    and tl: "token_length b = 4"
  shows "length (packet_bytes b (path_segments path)) \<le> 123 + payload_length b"
proof -
  have "length (segment_bytes 11 (path_segments path)) \<le> 96"
    using segment_bytes_length [of 11 "path_segments path"] path_segments_length [of path]
      path_segment_short [of _ path] path by fastforce
  moreover have "length (option_bytes 1 (encode_uint (content_format b))) \<le> 6"
    "length (option_bytes 15 (encode_uint (block1_value b))) \<le> 6"
    "length (option_bytes 33 (encode_uint (size1 b))) \<le> 6"
    by (rule uint_option_length; simp)+
  moreover have "length (take (token_length b) (token b)) = 4" using wf tl by (simp add: block_wf_def)
  moreover have "0 < payload_length b \<longrightarrow> length (sent_payload b) = payload_length b"
    using length_sent_payload [OF wf] args by (auto simp: build_args_ok_def)
  ultimately show ?thesis by (auto simp: packet_bytes_def)
qed

section \<open>One block\<close>

text \<open>What the size checks of the pipeline establish.\<close>

definition transfer_ok :: "adaptive_config \<Rightarrow> nat \<Rightarrow> transfer \<Rightarrow> bool" where
  "transfer_ok c overhead t \<longleftrightarrow>
     block_szx c ! tr_state t \<le> 6 \<and> overhead < tr_block_size t \<and> tr_block_size t \<le> 1024 \<and>
     tr_capacity t = tr_block_size t - overhead \<and>
     tr_count t = (length (tr_bytes t) + tr_capacity t - 1) div tr_capacity t \<and>
     0 < length (tr_bytes t) \<and> length (tr_bytes t) \<le> 1088 \<and>
     length (uri_path c) \<le> 63 \<and> path_segments (uri_path c) \<noteq> []"

definition block_chunk :: "transfer \<Rightarrow> nat \<Rightarrow> bytes" where
  "block_chunk t n = take (tr_capacity t) (drop (n * tr_capacity t) (tr_bytes t))"

definition more_blocks :: "transfer \<Rightarrow> nat \<Rightarrow> u8" where
  "more_blocks t n = (if n + 1 < tr_count t then 1 else 0)"

lemma ceiling_bounds:
  fixes c l n count :: nat
  assumes "0 < c" "count = (l + c - 1) div c" "n < count"
  shows "n * c < l" "n + 1 < count \<Longrightarrow> (n + 1) * c < l" "\<not> n + 1 < count \<Longrightarrow> l \<le> (n + 1) * c" "count \<le> l"
proof -
  have low: "k < count \<Longrightarrow> k * c < l" for k
  proof -
    assume "k < count"
    then have "(k + 1) * c \<le> count * c" by (intro mult_right_mono) simp_all
    also have "\<dots> \<le> l + c - 1" using assms(2) div_times_less_eq_dividend by simp
    finally show "k * c < l" using assms(1) by (simp add: algebra_simps)
  qed
  show "n * c < l" "n + 1 < count \<Longrightarrow> (n + 1) * c < l" using low [of n] low [of "n + 1"] assms(3) by simp_all
  have "l + c - 1 < (count + 1) * c"
    using assms(1,2) by (metis Suc_eq_plus1 dividend_less_div_times mult_Suc add.commute)
  then show "\<not> n + 1 < count \<Longrightarrow> l \<le> (n + 1) * c" using assms(1,3) by (simp add: not_less le_Suc_eq)
  have "(count - 1) * 1 \<le> (count - 1) * c" using assms(1) by (intro mult_left_mono) simp_all
  moreover have "(count - 1) * c < l" using low [of "count - 1"] assms(3) by simp
  ultimately show "count \<le> l" by linarith
qed

lemma block_chunk_length:
  assumes "transfer_ok c overhead t" "n < tr_count t"
  shows "length (block_chunk t n) \<le> tr_capacity t"
    "more_blocks t n \<noteq> 0 \<Longrightarrow> length (block_chunk t n) = tr_capacity t"
    "0 < length (block_chunk t n)" "take (n * tr_capacity t) (tr_bytes t) @ block_chunk t n = take ((n + 1) * tr_capacity t) (tr_bytes t)"
    "more_blocks t n = 0 \<Longrightarrow> take ((n + 1) * tr_capacity t) (tr_bytes t) = tr_bytes t"
    "n < 2 ^ 20" "0 < tr_capacity t"
proof -
  have cap: "0 < tr_capacity t" using assms(1) by (auto simp: transfer_ok_def)
  note b = ceiling_bounds [OF cap _ assms(2), of "length (tr_bytes t)"]
  have cnt: "tr_count t = (length (tr_bytes t) + tr_capacity t - 1) div tr_capacity t" using assms(1) by (simp add: transfer_ok_def)
  show "length (block_chunk t n) \<le> tr_capacity t" by (simp add: block_chunk_def)
  show "more_blocks t n \<noteq> 0 \<Longrightarrow> length (block_chunk t n) = tr_capacity t"
    using b(2) [OF cnt] by (auto simp: block_chunk_def more_blocks_def split: if_splits)
  show "0 < length (block_chunk t n)" using b(1) [OF cnt] cap by (simp add: block_chunk_def)
  show "take (n * tr_capacity t) (tr_bytes t) @ block_chunk t n = take ((n + 1) * tr_capacity t) (tr_bytes t)"
    using take_add [of "n * tr_capacity t" "tr_capacity t" "tr_bytes t"] by (simp add: block_chunk_def add.commute)
  show "more_blocks t n = 0 \<Longrightarrow> take ((n + 1) * tr_capacity t) (tr_bytes t) = tr_bytes t"
    using b(3) [OF cnt] by (simp add: more_blocks_def split: if_splits)
  show "n < 2 ^ 20" using b(4) [OF cnt] assms by (simp add: transfer_ok_def)
  show "0 < tr_capacity t" by (rule cap)
qed

text \<open>The block of a record, and what the receiver sees of it.\<close>

definition record_block :: "adaptive_config \<Rightarrow> transfer \<Rightarrow> u16 \<Rightarrow> nat \<Rightarrow> bytes \<Rightarrow> coap_block" where
  "record_block c t mid n rec =
     (pipeline_block c t mid n (more_blocks t n))\<lparr>payload := Some rec, payload_length := length rec\<rparr>"

definition block_aad :: "adaptive_config \<Rightarrow> transfer \<Rightarrow> u16 \<Rightarrow> nat \<Rightarrow> bytes" where
  "block_aad c t mid n = adaptive_pipeline_build_aad (Some (pipeline_block c t mid n (more_blocks t n))) True"

lemma record_block_fields:
  "block_wf (record_block c t mid n rec)" "token_length (record_block c t mid n rec) = 4"
  "payload_length (record_block c t mid n rec) = length rec" "szx (record_block c t mid n rec) = block_szx c ! tr_state t"
  "block_number (record_block c t mid n rec) = word_of_nat n" "payload (record_block c t mid n rec) = Some rec"
  "token (record_block c t mid n rec) = write_u32_be (tr_window_id t) @ replicate 4 0"
  "more_flag (record_block c t mid n rec) = more_blocks t n"
  "cb_type (record_block c t mid n rec) = 0"
  by (simp_all add: record_block_def pipeline_block_def block_wf_def zero_block_def ADAPTIVE_COAP_TYPE_CON_def)

lemma unat_block_number: "n < 2 ^ 20 \<Longrightarrow> unat (word_of_nat n :: u32) = n"
  by (simp add: unat_of_nat take_bit_nat_eq_self)

lemma record_block_built:
  assumes ok: "transfer_ok c overhead t" "n < tr_count t" and rec: "length rec \<le> 1024" "0 < length rec"
  shows "adaptive_coap_build_block1 (Some (record_block c t mid n rec)) (Some (uri_path c)) True ADAPTIVE_MAX_COAP_PACKET True =
      Inr (packet_bytes (record_block c t mid n rec) (path_segments (uri_path c)))"
    and "adaptive_coap_parse_block1 (Some (packet_bytes (record_block c t mid n rec) (path_segments (uri_path c)))) True =
      Inr (received_block (record_block c t mid n rec))"
proof -
  have n: "unat (word_of_nat n :: u32) = n" "n < 2 ^ 20"
    using block_chunk_length(6) [OF ok] unat_block_number by simp_all
  then have args: "build_args_ok (record_block c t mid n rec) ADAPTIVE_MAX_COAP_PACKET"
    using ok(1) by (simp add: build_args_ok_def record_block_fields transfer_ok_def adaptive_bounds word_le_nat_alt)
  have segs: "path_segments (uri_path c) \<noteq> []" "\<forall>x \<in> set (path_segments (uri_path c)). length x \<le> 65804"
    using ok(1) path_segment_short [of _ "uri_path c"] by (fastforce simp: transfer_ok_def)+
  have "length (packet_bytes (record_block c t mid n rec) (path_segments (uri_path c))) \<le> 1152"
    using packet_bytes_length [OF record_block_fields(1) args _ record_block_fields(2), of "uri_path c"] ok(1) rec
    by (simp add: transfer_ok_def record_block_fields)
  then show "adaptive_coap_build_block1 (Some (record_block c t mid n rec)) (Some (uri_path c)) True ADAPTIVE_MAX_COAP_PACKET True =
      Inr (packet_bytes (record_block c t mid n rec) (path_segments (uri_path c)))"
    using args segs by (simp add: build_Inr [OF record_block_fields(1)] ADAPTIVE_MAX_COAP_PACKET_def)
  show "adaptive_coap_parse_block1 (Some (packet_bytes (record_block c t mid n rec) (path_segments (uri_path c)))) True =
      Inr (received_block (record_block c t mid n rec))"
    by (rule parse_packet_bytes [OF record_block_fields(1) args segs])
qed

lemma received_record_block:
  assumes "0 < length rec"
  shows "received_block (record_block c t mid n rec) = record_block c t mid n rec"
proof -
  have t4: "take 4 (write_u32_be w @ replicate 4 0) @ replicate 4 0 = write_u32_be w @ replicate 4 0" for w
    by simp
  show ?thesis
    using assms t4 [of "tr_window_id t"]
    by (simp add: received_block_def sent_payload_def record_block_def pipeline_block_def zero_block_def
        ADAPTIVE_COAP_TYPE_CON_def more_blocks_def)
qed

section \<open>The receiver takes the block\<close>

definition receiver_ready :: "transfer \<Rightarrow> nat \<Rightarrow> 'c adaptive_receiver \<Rightarrow> bool" where
  "receiver_ready t n r \<longleftrightarrow>
     4 \<le> length (rv_token r) \<and>
     (n = 0 \<or> rv_active r \<and> next_block r = word_of_nat n \<and> rv_token_length r = 4 \<and>
        take 4 (rv_token r) = write_u32_be (tr_window_id t) \<and>
        representation r = take (n * tr_capacity t) (tr_bytes t))"

text \<open>The receiver after a block it took.\<close>

definition took_block ::
    "transfer \<Rightarrow> nat \<Rightarrow> coap_block \<Rightarrow> 'c security_session \<Rightarrow> 'c adaptive_receiver \<Rightarrow> 'c adaptive_receiver" where
  "took_block t n b s r =
     (start_transfer r b)\<lparr>rv_security := Some s, representation := take ((n + 1) * tr_capacity t) (tr_bytes t),
       next_block := word_of_nat (n + 1)\<rparr>"

lemma start_transfer_ready:
  assumes "receiver_ready t n r" "n < 2 ^ 20" "b = record_block c t mid n rec"
  shows "expected_block (start_transfer r b) b"
    "representation (start_transfer r b) = take (n * tr_capacity t) (tr_bytes t)"
    "next_block (start_transfer r b) = word_of_nat n" "rv_security (start_transfer r b) = rv_security r"
    "rv_active (start_transfer r b)" "rv_token_length (start_transfer r b) = 4"
    "take 4 (rv_token (start_transfer r b)) = write_u32_be (tr_window_id t)"
    "4 \<le> length (rv_token (start_transfer r b))"
proof -
  have "unat (word_of_nat n :: u32) = n" using assms(2) by (rule unat_block_number)
  then have z: "(word_of_nat n :: u32) = 0 \<longleftrightarrow> n = 0" by (metis unat_0 unat_eq_zero)
  have tk: "take 4 (token b) = write_u32_be (tr_window_id t)" by (simp add: assms(3) record_block_fields)
  show "expected_block (start_transfer r b) b"
    "representation (start_transfer r b) = take (n * tr_capacity t) (tr_bytes t)"
    "next_block (start_transfer r b) = word_of_nat n" "rv_security (start_transfer r b) = rv_security r"
    "rv_active (start_transfer r b)" "rv_token_length (start_transfer r b) = 4"
    "take 4 (rv_token (start_transfer r b)) = write_u32_be (tr_window_id t)"
    "4 \<le> length (rv_token (start_transfer r b))"
    using assms(1) z tk by (auto simp: assms(3) start_transfer_def expected_block_def record_block_fields receiver_ready_def)
qed

lemma took_block_ready:
  assumes "receiver_ready t n r" "n < 2 ^ 20"
  shows "receiver_ready t (n + 1) (took_block t n (record_block c t mid n rec) s r)"
  using start_transfer_ready [OF assms refl, of c mid rec] by (simp add: receiver_ready_def took_block_def)

lemma accept_block_chunk:
  assumes ok: "transfer_ok c overhead t" "n < tr_count t" and ready: "receiver_ready t n r"
    and sec: "rv_security r = Some rs" "sess_open rs = Some opn"
    and rec: "length rec \<le> 1024" "0 < length rec"
    and opened: "opn (sess_context rs) rec (block_aad c t mid n) 1024 = (Inr (block_chunk t n), s')"
  defines "b \<equiv> record_block c t mid n rec"
  defines "r' \<equiv> took_block t n b (rs\<lparr>sess_context := s'\<rparr>) r"
  shows "accept_block r b capacity =
    (if n + 1 < tr_count t then (Inr None, r')
     else case adaptive_codec_decode (Some (tr_bytes t)) True capacity True of
       Inl e \<Rightarrow> (Inl e, r')
     | Inr w \<Rightarrow> (Inr (Some w), r'\<lparr>rv_active := False\<rparr>))"
proof -
  note ch = block_chunk_length [OF ok]
  have aad: "adaptive_pipeline_build_aad (Some b) True = block_aad c t mid n"
    by (simp add: b_def record_block_def block_aad_def)
  note st = start_transfer_ready [OF ready ch(6) b_def [THEN meta_eq_to_obj_eq]]
  have open': "adaptive_security_open (Some rs) (Some rec) (length rec) (Some (block_aad c t mid n))
      (length (block_aad c t mid n)) True 1024 True = (Inr (block_chunk t n), Some (rs\<lparr>sess_context := s'\<rparr>))"
    using security_open_ready [OF sec(2), of rec "block_aad c t mid n" 1024] opened by simp
  have len: "length (take (n * tr_capacity t) (tr_bytes t)) + length (block_chunk t n) \<le> 1088"
  proof -
    have "length (take ((n + 1) * tr_capacity t) (tr_bytes t)) \<le> length (tr_bytes t)" by simp
    moreover have "length (tr_bytes t) \<le> 1088" using ok(1) by (simp add: transfer_ok_def)
    ultimately show ?thesis using arg_cong [OF ch(4), of length] unfolding length_append by linarith
  qed
  then have room: "\<not> 1088 - min (length (tr_bytes t)) (n * tr_capacity t) < length (block_chunk t n)" by simp
  have rep: "take (n * tr_capacity t) (tr_bytes t) @ block_chunk t n = take ((n + 1) * tr_capacity t) (tr_bytes t)"
    by (rule ch(4))
  have w: "(word_of_nat n :: u32) + 1 = word_of_nat (n + 1)" by simp
  have fields: "payload b = Some rec" "payload_length b = length rec" "more_flag b = more_blocks t n"
    by (simp_all add: b_def record_block_fields)
  have tk: "r' = (start_transfer r b)\<lparr>rv_security := Some (rs\<lparr>sess_context := s'\<rparr>),
      representation := take ((n + 1) * tr_capacity t) (tr_bytes t), next_block := word_of_nat (n + 1)\<rparr>"
    by (simp add: r'_def took_block_def)
  show ?thesis
    unfolding accept_block_def
    using st room ch(5)
    by (simp add: sec aad fields ADAPTIVE_MAX_BLOCK_SIZE_def open' rep w tk ADAPTIVE_MAX_REPRESENTATION_def
        ADAPTIVE_MAX_WINDOW_def Let_def more_blocks_def split: if_splits sum.splits)
qed

text \<open>Message id and Size1 make no difference to the receiver.\<close>

lemma accept_block_cong:
  fixes r :: "'c adaptive_receiver"
  assumes "\<And>r :: 'c adaptive_receiver. start_transfer r b' = start_transfer r b"
    "\<And>r :: 'c adaptive_receiver. expected_block r b' = expected_block r b"
    "adaptive_pipeline_build_aad (Some b') True = adaptive_pipeline_build_aad (Some b) True"
    "payload b' = payload b" "payload_length b' = payload_length b" "more_flag b' = more_flag b"
  shows "accept_block r b' capacity = accept_block r b capacity"
  unfolding accept_block_def assms by (rule refl)

lemma accept_block_ignores [simp]:
  "accept_block r (b\<lparr>message_id := mid\<rparr>) capacity = accept_block r b capacity"
  "accept_block r (b\<lparr>size1 := s\<rparr>) capacity = accept_block r b capacity"
  by (rule accept_block_cong; simp add: start_transfer_def expected_block_def)+

lemma accept_chunk:
  assumes ok: "transfer_ok c overhead t" "n < tr_count t" and ready: "receiver_ready t n r"
    and sec: "rv_security r = Some rs" "sess_open rs = Some opn"
    and rec: "length rec \<le> 1024" "0 < length rec"
    and opened: "opn (sess_context rs) rec (block_aad c t mid n) 1024 = (Inr (block_chunk t n), s')"
  defines "b \<equiv> record_block c t mid n rec"
  defines "r' \<equiv> took_block t n b (rs\<lparr>sess_context := s'\<rparr>) r"
  shows "adaptive_receiver_accept (Some r) (Some (packet_bytes b (path_segments (uri_path c)))) True capacity True =
    (if n + 1 < tr_count t then (Inr None, Some r')
     else case adaptive_codec_decode (Some (tr_bytes t)) True capacity True of
       Inl e \<Rightarrow> (Inl e, Some r')
     | Inr w \<Rightarrow> (Inr (Some w), Some (r'\<lparr>rv_active := False\<rparr>)))"
proof -
  have parse: "adaptive_coap_parse_block1 (Some (packet_bytes b (path_segments (uri_path c)))) True = Inr b"
    unfolding b_def using record_block_built(2) [OF ok rec] received_record_block [OF rec(2)] by simp
  show ?thesis
    using accept_block_chunk [OF ok ready sec rec opened, folded b_def, folded r'_def] parse
    by (simp add: adaptive_receiver_accept_def sec split: sum.splits)
qed

section \<open>The blocks of a window over a record layer\<close>

text \<open>
  The pipeline seals with the layer, the loopback receiver opens with it, and their contexts
  are in step for at least \<open>k\<close> more records.
\<close>

definition linked ::
    "'c seal_fn \<Rightarrow> 'c open_fn \<Rightarrow> nat \<Rightarrow> (nat \<Rightarrow> 'c option \<Rightarrow> 'c option \<Rightarrow> bool) \<Rightarrow> nat \<Rightarrow>
     'c adaptive_pipeline \<Rightarrow> 'c loopback \<Rightarrow> bool" where
  "linked sealf openf overhead synced k p l \<longleftrightarrow>
     (\<exists>ss rs. pl_security p = Some ss \<and> sess_seal ss = Some sealf \<and> sess_overhead ss = overhead \<and>
        rv_security (lb_receiver l) = Some rs \<and> sess_open rs = Some openf \<and>
        synced k (sess_context ss) (sess_context rs))"

text \<open>What sending the blocks leaves alone in the pipeline.\<close>

definition same_estimates :: "'c adaptive_pipeline \<Rightarrow> 'c adaptive_pipeline \<Rightarrow> bool" where
  "same_estimates p p' \<longleftrightarrow>
     pl_config p' = pl_config p \<and> pl_hmm p' = pl_hmm p \<and> pl_normalizer p' = pl_normalizer p \<and>
     next_window_id p' = next_window_id p"

text \<open>What the loopback holds once a window with these samples is complete.\<close>

definition window_taken ::
    "float32 list \<Rightarrow> codec_metadata \<Rightarrow> 'c loopback \<Rightarrow> 'c loopback \<Rightarrow> bool" where
  "window_taken xs md l l' \<longleftrightarrow>
     complete_windows l' = complete_windows l + 1 \<and> lb_metadata l' = Some md \<and>
     lb_sample_count l' = length xs \<and> take (length xs) (lb_samples l') = xs \<and>
     \<not> rv_active (lb_receiver l') \<and> 4 \<le> length (rv_token (lb_receiver l'))"

lemma loopback_took:
  assumes "adaptive_receiver_accept (Some (lb_receiver l)) (Some packet) True 256 True = (Inr None, Some r)"
  shows "loopback_send packet l = (ADAPTIVE_OK, l\<lparr>lb_receiver := r\<rparr>)"
  using assms by (simp add: loopback_send_def ADAPTIVE_MAX_WINDOW_def)

lemma loopback_finished:
  assumes "adaptive_receiver_accept (Some (lb_receiver l)) (Some packet) True 256 True = (Inr (Some (xs, md)), Some r)"
  shows "loopback_send packet l =
    (ADAPTIVE_OK, l\<lparr>lb_receiver := r, lb_samples := xs @ drop (length xs) (lb_samples l),
       lb_sample_count := length xs, lb_metadata := Some md, complete_windows := complete_windows l + 1\<rparr>)"
  using assms by (simp add: loopback_send_def ADAPTIVE_MAX_WINDOW_def Let_def)

context record_layer
begin

abbreviation in_step :: "nat \<Rightarrow> 'c adaptive_pipeline \<Rightarrow> 'c loopback \<Rightarrow> bool" where
  "in_step \<equiv> linked seal opn overhead synced"

lemma send_block_delivers:
  assumes ok: "transfer_ok (pl_config p) overhead t" "n < tr_count t"
    and link: "in_step (Suc k) p l" and ready: "receiver_ready t n (lb_receiver l)"
    and dec: "\<not> n + 1 < tr_count t \<Longrightarrow> adaptive_codec_decode (Some (tr_bytes t)) True 256 True = Inr (xs, md)"
  obtains p' l' where
    "send_block loopback_send t n (n * tr_capacity t) p l = (Inr (length (block_chunk t n)), p', l')"
    "in_step k p' l'" "same_estimates p p'"
    "n + 1 < tr_count t \<Longrightarrow> receiver_ready t (n + 1) (lb_receiver l') \<and> complete_windows l' = complete_windows l"
    "\<not> n + 1 < tr_count t \<Longrightarrow> window_taken xs md l l'"
proof -
  note ch = block_chunk_length [OF ok]
  obtain ss rs where sec: "pl_security p = Some ss" "sess_seal ss = Some seal" "sess_overhead ss = overhead"
      "rv_security (lb_receiver l) = Some rs" "sess_open rs = Some opn"
      "synced (Suc k) (sess_context ss) (sess_context rs)"
    using link by (auto simp: linked_def)
  define mid where "mid = next_message_id p"
  define aad where "aad = block_aad (pl_config p) t mid n"
  have fits: "length (block_chunk t n) + overhead \<le> 1024" "length (block_chunk t n) \<le> 1024"
    using ch(1) ok(1) by (auto simp: transfer_ok_def)
  have small: "fits (length (block_chunk t n)) (length aad)"
    using fits(2) build_aad_length [of "pipeline_block (pl_config p) t mid n (more_blocks t n)"]
    by (intro block_fits) (simp_all add: ADAPTIVE_MAX_BLOCK_SIZE_def aad_def block_aad_def pipeline_block_def zero_block_def)
  obtain rec c' s' where rec: "seal (sess_context ss) (block_chunk t n) aad 1024 = (Inr rec, c')"
      "length rec = length (block_chunk t n) + overhead"
      "opn (sess_context rs) rec aad 1024 = (Inr (block_chunk t n), s')" "synced k c' s'"
    by (rule seal_open_step [OF sec(6) fits(1) small fits(2)])
  define b where "b = record_block (pl_config p) t mid n rec"
  have reclen: "length rec \<le> 1024" "0 < length rec" using rec(2) fits ch(3) by simp_all
  define r' where "r' = took_block t n b (rs\<lparr>sess_context := s'\<rparr>) (lb_receiver l)"
  note built = record_block_built(1) [OF ok reclen, of mid, folded b_def]
  have acc: "adaptive_receiver_accept (Some (lb_receiver l)) (Some (packet_bytes b (path_segments (uri_path (pl_config p))))) True 256 True =
    (if n + 1 < tr_count t then (Inr None, Some r') else (Inr (Some (xs, md)), Some (r'\<lparr>rv_active := False\<rparr>)))"
    using accept_chunk [OF ok ready sec(4,5) reclen rec(3) [unfolded aad_def], of 256] dec
    by (simp add: b_def r'_def)
  define p' where "p' = p\<lparr>next_message_id := mid + 1, pl_security := Some (ss\<lparr>sess_context := c'\<rparr>)\<rparr>"
  define l' where "l' = snd (loopback_send (packet_bytes b (path_segments (uri_path (pl_config p)))) l)"
  have sent: "loopback_send (packet_bytes b (path_segments (uri_path (pl_config p)))) l = (ADAPTIVE_OK, l')"
    using loopback_took [of l] loopback_finished [of l] acc by (cases "n + 1 < tr_count t") (simp_all add: l'_def)
  have l': "lb_receiver l' = (if n + 1 < tr_count t then r' else r'\<lparr>rv_active := False\<rparr>)"
    "n + 1 < tr_count t \<Longrightarrow> complete_windows l' = complete_windows l"
    "\<not> n + 1 < tr_count t \<Longrightarrow> complete_windows l' = complete_windows l + 1 \<and> lb_metadata l' = Some md \<and>
       lb_sample_count l' = length xs \<and> lb_samples l' = xs @ drop (length xs) (lb_samples l)"
    using loopback_took [of l] loopback_finished [of l] acc by (cases "n + 1 < tr_count t"; simp add: l'_def)+
  show thesis
  proof (rule that)
    define size where "size = length (block_chunk t n)"
    have size: "(if length (tr_bytes t) - n * tr_capacity t < tr_capacity t then length (tr_bytes t) - n * tr_capacity t
        else tr_capacity t) = size"
      by (simp add: size_def block_chunk_def)
    have pt: "pointed_bytes (Some (drop (n * tr_capacity t) (tr_bytes t))) size = block_chunk t n"
      by (simp add: pointed_bytes_def size_def block_chunk_def min_def)
    have mf: "(if n + 1 < tr_count t then 1 else 0) = more_blocks t n" by (simp add: more_blocks_def)
    have blk: "(pipeline_block (pl_config p) t mid n (more_blocks t n))\<lparr>payload := Some rec, payload_length := length rec\<rparr> = b"
      by (simp add: b_def record_block_def)
    have aad': "adaptive_pipeline_build_aad (Some (pipeline_block (pl_config p) t mid n (more_blocks t n))) True = aad"
      by (simp add: aad_def block_aad_def)
    have fit: "\<not> (tr_block_size t < length rec \<or> more_blocks t n \<noteq> 0 \<and> length rec \<noteq> tr_block_size t)"
      using rec(2) ch(1,2) ok(1) by (cases "more_blocks t n = 0") (auto simp: transfer_ok_def)
    have sealed: "adaptive_security_seal (Some ss) (Some (drop (n * tr_capacity t) (tr_bytes t))) size (Some aad) (length aad) True
        1024 True = (Inr rec, Some (ss\<lparr>sess_context := c'\<rparr>))"
      by (simp add: adaptive_security_seal_def sec(2) pt rec(1))
    show "send_block loopback_send t n (n * tr_capacity t) p l = (Inr (length (block_chunk t n)), p', l')"
      unfolding send_block_def Let_def mf size mid_def [symmetric] aad' ADAPTIVE_MAX_BLOCK_SIZE_def
        size_def [symmetric]
      using fit by (simp add: sec(1) sealed blk built sent p'_def del: One_nat_def)
    show "in_step k p' l'"
      using sec rec(4) by (simp add: linked_def p'_def l' r'_def took_block_def)
    show "same_estimates p p'" by (simp add: same_estimates_def p'_def)
    show "receiver_ready t (n + 1) (lb_receiver l') \<and> complete_windows l' = complete_windows l" if "n + 1 < tr_count t"
      using that l' took_block_ready [OF ready ch(6)] by (simp add: r'_def b_def)
    show "window_taken xs md l l'" if "\<not> n + 1 < tr_count t"
      using that l' start_transfer_ready(8) [OF ready ch(6) b_def]
      by (simp add: window_taken_def r'_def took_block_def)
  qed
qed

lemma same_estimates_trans: "same_estimates p q \<Longrightarrow> same_estimates q r \<Longrightarrow> same_estimates p r"
  by (simp add: same_estimates_def)

lemma send_blocks_delivers:
  assumes dec: "adaptive_codec_decode (Some (tr_bytes t)) True 256 True = Inr (xs, md)"
  shows "transfer_ok (pl_config p) overhead t \<Longrightarrow> n < tr_count t \<Longrightarrow> in_step (tr_count t - n + k) p l \<Longrightarrow>
    receiver_ready t n (lb_receiver l) \<Longrightarrow>
    \<exists>p' l'. send_blocks loopback_send t n (n * tr_capacity t) p l = (Inr (), p', l') \<and>
      in_step k p' l' \<and> same_estimates p p' \<and> window_taken xs md l l'"
proof (induction "tr_count t - n" arbitrary: n p l)
  case (Suc d)
  have in': "in_step (Suc (tr_count t - (n + 1) + k)) p l" using Suc.prems(2,3) by (simp add: Suc_diff_Suc)
  obtain p1 l1 where one: "send_block loopback_send t n (n * tr_capacity t) p l = (Inr (length (block_chunk t n)), p1, l1)"
    "in_step (tr_count t - (n + 1) + k) p1 l1" "same_estimates p p1"
    "n + 1 < tr_count t \<Longrightarrow> receiver_ready t (n + 1) (lb_receiver l1) \<and> complete_windows l1 = complete_windows l"
    "\<not> n + 1 < tr_count t \<Longrightarrow> window_taken xs md l l1"
    using send_block_delivers [OF Suc.prems(1,2) in' Suc.prems(4) dec] by metis
  note step = send_blocks.simps [of loopback_send t n "n * tr_capacity t" p l]
  show ?case
  proof (cases "n + 1 < tr_count t")
    case True
    have len: "n * tr_capacity t + length (block_chunk t n) = (n + 1) * tr_capacity t"
      using block_chunk_length(2) [OF Suc.prems(1,2)] True by (simp add: more_blocks_def)
    have ok: "transfer_ok (pl_config p1) overhead t" using Suc.prems(1) one(3) by (simp add: same_estimates_def)
    have d: "d = tr_count t - (n + 1)" using Suc.hyps(2) by simp
    obtain p' l' where "send_blocks loopback_send t (n + 1) ((n + 1) * tr_capacity t) p1 l1 = (Inr (), p', l')"
        "in_step k p' l'" "same_estimates p1 p'" "window_taken xs md l1 l'"
      using Suc.hyps(1) [OF d ok True one(2)] one(4) [OF True] by blast
    then show ?thesis
      using step one(1,4) True Suc.prems(2) len same_estimates_trans [OF one(3)]
      by (simp add: window_taken_def del: mult_Suc add_mult_distrib)
  next
    case False
    then show ?thesis
      using step one(1,2,3,5) Suc.prems(2) send_blocks.simps [of loopback_send t "n + 1" _ p1 l1] by simp
  qed
qed simp

end

end
