(* ===== verification/Window_Delivery.thy ===== *)
theory Window_Delivery
  imports Delivery Hmm_Start Metrics_Properties Codec_Accuracy
begin

text \<open>
  The pipeline and the receiver together: whatever sane metrics and samples come in, a
  validated configuration sends every window through the loopback transport and the
  receiver holds it, window after window.
\<close>

declare One_nat_def [simp del]

section \<open>The plan of a window\<close>

text \<open>What a configuration needs beside its validation for its blocks to be sent.\<close>

definition sendable :: "nat \<Rightarrow> adaptive_config \<Rightarrow> bool" where
  "sendable overhead c \<longleftrightarrow>
     validate_transform (window_size c) (wavelet_levels c) ADAPTIVE_MAX_WINDOW = Inr () \<and>
     (\<forall>s < 5. 2 \<le> quant_bits c ! s \<and> quant_bits c ! s \<le> 15 \<and> block_szx c ! s \<le> 6 \<and>
        overhead < adaptive_coap_block_size (block_szx c ! s)) \<and>
     length (uri_path c) \<le> 63 \<and> path_segments (uri_path c) \<noteq> []"

lemma validated_sendable:
  assumes "config_shape c" "adaptive_config_validate (Some c) err = (ADAPTIVE_OK, msg)"
    "\<forall>s < 5. overhead < adaptive_coap_block_size (block_szx c ! s)" "path_segments (uri_path c) \<noteq> []"
  shows "sendable overhead c"
  using validated_facts [OF assms(1,2)] assms by (simp add: sendable_def config_shape_def)

lemma plan_transfer_ok:
  assumes c: "sendable overhead c" and s: "state < 5" and rep: "0 < length rep" "length rep \<le> 1088"
  obtains t where "plan_transfer c overhead wid state rep = Inr t" "transfer_ok c overhead t"
    "tr_bytes t = rep" "tr_window_id t = wid" "tr_state t = state" "0 < tr_count t" "tr_count t \<le> 1088"
proof -
  define size where "size = adaptive_coap_block_size (block_szx c ! state)"
  have z: "block_szx c ! state \<le> 6" "overhead < size" using c s by (simp_all add: sendable_def size_def)
  have size: "size \<le> 1024" using coap_block_size_cases [OF z(1)] by (auto simp: size_def)
  define capacity where "capacity = size - overhead"
  have cap: "0 < capacity" using z by (simp add: capacity_def)
  define blocks where "blocks = (length rep + capacity - 1) div capacity"
  have "capacity \<le> length rep + capacity - 1" using rep(1) cap by linarith
  then have b0: "0 < blocks" using cap by (simp add: blocks_def div_greater_zero_iff)
  have b: "blocks \<le> length rep" using ceiling_bounds(4) [OF cap blocks_def b0] .
  have "blocks * overhead \<le> 1088 * 1024" using b rep(2) z(2) size by (intro mult_mono) simp_all
  then have total: "\<not> 4294967295 < length rep + blocks * overhead" using rep(2) by simp
  define t where "t = \<lparr>tr_window_id = wid, tr_state = state, tr_bytes = rep, tr_block_size = size,
    tr_capacity = capacity, tr_count = blocks, tr_total = length rep + blocks * overhead\<rparr>"
  show thesis
  proof (rule that [of t])
    show "plan_transfer c overhead wid state rep = Inr t"
      using z size total
      by (simp add: plan_transfer_def size_def [symmetric] capacity_def [symmetric] blocks_def [symmetric]
          ADAPTIVE_MAX_BLOCK_SIZE_def Let_def t_def)
    show "transfer_ok c overhead t"
      using z size rep c by (simp add: transfer_ok_def t_def capacity_def blocks_def sendable_def)
  qed (use b b0 rep(2) in \<open>simp_all add: t_def\<close>)
qed

section \<open>Ready to process\<close>

text \<open>Samples whose coefficients the quantiser can represent, whatever the state.\<close>

definition window_ok :: "libm \<Rightarrow> adaptive_config \<Rightarrow> float32 list \<Rightarrow> bool" where
  "window_ok m c xs \<longleftrightarrow>
     length xs = window_size c \<and> (\<forall>x \<in> set xs. wfs x) \<and>
     (\<forall>s < 5. \<forall>f t. codec_coefficients m xs (window_size c) s c = Inr (f, t) \<longrightarrow> quantisable f)"

text \<open>
  The pipeline holds a sendable configuration, a sane normaliser and hidden Markov model, and
  is in step with the receiver for \<open>k\<close> more records.
\<close>

definition pipeline_ready ::
    "'c seal_fn \<Rightarrow> 'c open_fn \<Rightarrow> nat \<Rightarrow> (nat \<Rightarrow> 'c option \<Rightarrow> 'c option \<Rightarrow> bool) \<Rightarrow> nat \<Rightarrow>
     'c adaptive_pipeline \<Rightarrow> 'c loopback \<Rightarrow> bool" where
  "pipeline_ready sealf openf overhead synced k p l \<longleftrightarrow>
     sendable overhead (pl_config p) \<and> normalizer_inv (pl_normalizer p) \<and> hmm_inv (pl_hmm p) \<and>
     linked sealf openf overhead synced k p l \<and> 4 \<le> length (rv_token (lb_receiver l))"

text \<open>Such a window is encoded, and what is encoded is decoded to a window of the same shape.\<close>

lemma window_encodes:
  assumes c: "sendable overhead c" and st: "st < 5" and xs: "window_ok m c xs"
  obtains rep md0 ys md where
    "adaptive_codec_encode m (Some xs) (length xs) wid st (Some c) True ADAPTIVE_MAX_REPRESENTATION True = Inr (rep, md0)"
    "0 < length rep" "length rep \<le> 1052" "adaptive_codec_decode (Some rep) True 256 True = Inr (ys, md)"
    "length ys = length xs" "md_window_id md = wid" "md_state md = st" "md_sample_count md = length xs"
proof -
  have w: "window_size c = length xs" "\<forall>x \<in> set xs. wfs x"
      "\<And>s f t. s < 5 \<Longrightarrow> codec_coefficients m xs (length xs) s c = Inr (f, t) \<Longrightarrow> quantisable f"
    using xs by (auto simp: window_ok_def)
  have v: "validate_transform (window_size c) (wavelet_levels c) ADAPTIVE_MAX_WINDOW = Inr ()"
    and bits: "2 \<le> quant_bits c ! st" "quant_bits c ! st \<le> 15"
    using c st by (simp_all add: sendable_def)
  have n: "window_size c \<le> 256" using v by (simp add: validate_transform_cases ADAPTIVE_MAX_WINDOW_def)
  then have room: "28 + 4 * window_size c \<le> ADAPTIVE_MAX_REPRESENTATION"
    by (simp add: ADAPTIVE_MAX_REPRESENTATION_def ADAPTIVE_MAX_WINDOW_def)
  from encode_returns [OF v st room] obtain rep md0 where
    enc: "adaptive_codec_encode m (Some xs) (length xs) wid st (Some c) True ADAPTIVE_MAX_REPRESENTATION True = Inr (rep, md0)"
      "length rep = 28 + 4 * md_nonzero md0" "md_nonzero md0 \<le> length xs"
    unfolding w(1) by blast
  note r = encode_result [OF enc(1) w(2) order_refl]
  obtain f t where ft: "codec_coefficients m xs (length xs) st c = Inr (f, t)"
      "md_scale md0 = coefficient_scale (coefficient_maximum f) (maximum_integer (quant_bits c ! st))"
    using r(10) by blast
  note sc = coefficients_restored(1,2) [OF w(3) [OF st ft(1)] bits, folded ft(2)]
  obtain ys t' where dec: "adaptive_codec_decode (Some rep) True 256 True =
      Inr (ys, md0\<lparr>md_threshold := t', md_scale := to_double (to_float (md_scale md0))\<rparr>)" "length ys = length xs"
    using decode_encoded [OF enc(1) w(2) order_refl bits sc, of 256] n w(1) by auto
  have md0: "md_window_id md0 = wid" "md_state md0 = st" "md_sample_count md0 = length xs"
    by (subst r(8), simp)+
  show thesis
    by (rule that [OF enc(1) _ _ dec]) (use enc(2,3) n w(1) md0 in simp_all)
qed

text \<open>What one processed window did to the pipeline and the loopback.\<close>

definition window_done ::
    "float32 list \<Rightarrow> pipeline_stats \<Rightarrow> 'c adaptive_pipeline \<Rightarrow> 'c adaptive_pipeline \<Rightarrow> 'c loopback \<Rightarrow> 'c loopback \<Rightarrow> bool" where
  "window_done xs stats p p' l l' \<longleftrightarrow>
     pl_config p' = pl_config p \<and> next_window_id p' = next_window_id p + 1 \<and> st_window_id stats = next_window_id p \<and>
     st_state stats < 5 \<and> st_state stats = hmm_state (pl_hmm p') \<and> compressed_bytes stats \<le> 1052 \<and>
     complete_windows l' = complete_windows l + 1 \<and> lb_sample_count l' = length xs \<and>
     (\<exists>md. lb_metadata l' = Some md \<and> md_window_id md = next_window_id p \<and> md_state md = st_state stats \<and>
        md_sample_count md = length xs)"

section \<open>One window over a record layer\<close>

context record_layer
begin

lemma in_step_less: "k \<le> n \<Longrightarrow> in_step n p l \<Longrightarrow> in_step k p l"
  using synced_less by (auto simp: linked_def)

lemma send_window_delivers:
  assumes c: "sendable overhead (pl_config p)" and st: "st < 5"
    and enc: "adaptive_codec_encode m (Some xs) n wid st (Some (pl_config p)) True ADAPTIVE_MAX_REPRESENTATION True = Inr (rep, md0)"
    and len: "0 < length rep" "length rep \<le> 1088"
    and dec: "adaptive_codec_decode (Some rep) True 256 True = Inr (ys, md)"
    and link: "in_step (1088 + k) p l" and tok: "4 \<le> length (rv_token (lb_receiver l))"
  obtains stats p' l' where "send_window m loopback_send xs n wid st prob p l = (Inr stats, p', l')"
    "in_step k p' l'" "same_estimates p p'" "window_taken ys md l l'" "st_window_id stats = wid" "st_state stats = st"
    "compressed_bytes stats = length rep"
proof -
  obtain t where t: "plan_transfer (pl_config p) overhead wid st rep = Inr t" "transfer_ok (pl_config p) overhead t"
      "tr_bytes t = rep" "tr_window_id t = wid" "tr_state t = st" "0 < tr_count t" "tr_count t \<le> 1088"
    by (rule plan_transfer_ok [OF c st len])
  have ov: "sess_overhead (the (pl_security p)) = overhead" using link by (auto simp: linked_def)
  have link': "in_step (tr_count t - 0 + k) p l" by (rule in_step_less [OF _ link]) (use t(7) in simp)
  have ready: "receiver_ready t 0 (lb_receiver l)" using tok by (simp add: receiver_ready_def)
  have "\<exists>p' l'. send_blocks loopback_send t 0 (0 * tr_capacity t) p l = (Inr (), p', l') \<and>
      in_step k p' l' \<and> same_estimates p p' \<and> window_taken ys md l l'"
    by (rule send_blocks_delivers [OF dec [folded t(3)] t(2,6) link' ready])
  then obtain p' l' where r: "send_blocks loopback_send t 0 0 p l = (Inr (), p', l')"
      "in_step k p' l'" "same_estimates p p'" "window_taken ys md l l'" by auto
  show thesis
    by (rule that [of "window_stats (pl_config p') t prob n" p' l'])
      (use enc ov t r in \<open>simp_all add: send_window_def window_stats_def\<close>)
qed

lemma process_delivers:
  assumes m: "libm_ok m" and raw: "sane_metrics raw" and ready: "pipeline_ready seal opn overhead synced (1088 + k) p l"
    and xs: "window_ok m (pl_config p) xs"
  obtains stats p' l' where
    "adaptive_pipeline_process m (Some p) (Some xs) (length xs) (Some raw) (Some loopback_send) l = (Inr stats, Some p', l')"
    "window_done xs stats p p' l l'" "pipeline_ready seal opn overhead synced k p' l'"
proof -
  define c where "c = pl_config p"
  have rd: "sendable overhead c" "normalizer_inv (pl_normalizer p)" "hmm_inv (pl_hmm p)" "in_step (1088 + k) p l"
      "4 \<le> length (rv_token (lb_receiver l))"
    using ready by (simp_all add: pipeline_ready_def c_def)
  have w: "window_size c = length xs" using xs by (simp add: window_ok_def c_def)
  obtain z n' where nz: "adaptive_normalizer_update (Some (pl_normalizer p)) (Some raw) True = (Inr z, Some n')"
      "length z = 5" "\<forall>i < 5. dbl_in (-6) 6 (z ! i)" "normalizer_inv n'"
    using normalizer_update_keeps [OF rd(2) raw] by blast
  have "scores z" using nz by (simp add: scores_def)
  from hmm_step_keeps [OF m rd(3) this] obtain st prob h' where
    hm: "adaptive_hmm_step m (Some (pl_hmm p)) (Some z) True = (Inr (st, prob), Some h')" "st < 5" "hmm_state h' = st" "hmm_inv h'"
    by blast
  obtain rep md0 ys md where
    enc: "adaptive_codec_encode m (Some xs) (length xs) (next_window_id p) st (Some c) True ADAPTIVE_MAX_REPRESENTATION True = Inr (rep, md0)"
      "0 < length rep" "length rep \<le> 1052" "adaptive_codec_decode (Some rep) True 256 True = Inr (ys, md)"
      "length ys = length xs" "md_window_id md = next_window_id p" "md_state md = st" "md_sample_count md = length xs"
    by (rule window_encodes [OF rd(1) hm(2) xs [folded c_def]])
  define q where "q = p\<lparr>pl_normalizer := n', pl_hmm := h', next_window_id := next_window_id p + 1\<rparr>"
  have q: "pl_config q = c" "in_step (1088 + k) q l" "pl_normalizer q = n'" "pl_hmm q = h'" "next_window_id q = next_window_id p + 1"
    using rd(4) by (simp_all add: q_def c_def linked_def)
  have len: "length rep \<le> 1088" using enc(3) by simp
  obtain stats p' l' where
    sw: "send_window m loopback_send xs (length xs) (next_window_id p) st prob q l = (Inr stats, p', l')"
      "in_step k p' l'" "same_estimates q p'" "window_taken ys md l l'"
      "st_window_id stats = next_window_id p" "st_state stats = st" "compressed_bytes stats = length rep"
    by (rule send_window_delivers [OF rd(1) [folded q(1)] hm(2) enc(1) [folded q(1)] enc(2) len enc(4) q(2) rd(5)])
  show thesis
  proof (rule that)
    show "adaptive_pipeline_process m (Some p) (Some xs) (length xs) (Some raw) (Some loopback_send) l = (Inr stats, Some p', l')"
      using nz(1) hm(1) sw(1) w by (simp add: adaptive_pipeline_process_def c_def q_def)
    show "window_done xs stats p p' l l'"
      using sw q hm(2,3) enc(3,5-8) by (simp add: window_done_def window_taken_def same_estimates_def c_def)
    show "pipeline_ready seal opn overhead synced k p' l'"
      using sw(2-4) q(1,3,4) rd(1) nz(4) hm(4) by (simp add: pipeline_ready_def same_estimates_def window_taken_def)
  qed
qed

end

text \<open>
  C1: end to end. Once the loopback receiver is in step with the pipeline over the test
  provider, \<open>adaptive_pipeline_process\<close> returns \<open>ADAPTIVE_OK\<close> for every window of samples and
  every sane set of metrics, whatever state the model selects: the receiver has completed
  exactly one more window, with the window id, the state and the number of samples that were
  sent, and pipeline and receiver are ready for the next window.
\<close>

theorem window_delivered:
  assumes "libm_ok m" "sane_metrics raw"
    and "pipeline_ready test_seal test_open ADAPTIVE_SECURITY_OVERHEAD test_synced (1088 + k) p l"
    and "window_ok m (pl_config p) xs"
  shows "\<exists>stats p' l'.
    adaptive_pipeline_process m (Some p) (Some xs) (length xs) (Some raw) (Some loopback_send) l = (Inr stats, Some p', l') \<and>
    window_done xs stats p p' l l' \<and>
    pipeline_ready test_seal test_open ADAPTIVE_SECURITY_OVERHEAD test_synced k p' l'"
  using test_layer.process_delivers [OF assms] by metis

section \<open>A session that starts\<close>

lemma pipeline_init_ready:
  assumes ses: "sess_seal client = Some sealf" "sess_overhead client = overhead" "0 < overhead" "sess_open server = Some openf"
    and sync: "synced k (sess_context client) (sess_context server)"
    and c: "hmm_config_ok c" "sendable overhead c"
    and base: "dbl_in 0 1 (baseline_alpha c)" "dbl_in 0 1 (baseline_epsilon c)" "0 < fval (baseline_epsilon c)"
    and r: "adaptive_receiver_init (Some r0) (Some server) = Some r"
  shows "\<exists>p. adaptive_pipeline_init True (Some c) (Some client) = Inr p \<and> pl_config p = c \<and> next_window_id p = 1 \<and>
    pipeline_ready sealf openf overhead synced k p
      \<lparr>lb_receiver = r, lb_samples = ss, lb_sample_count = n, lb_metadata = md, complete_windows = w\<rparr>"
proof -
  obtain h where h: "adaptive_hmm_init True (Some c) = Inr h" "hmm_inv h" using hmm_init_establishes [OF c(1)] by blast
  have "linked sealf openf overhead synced k
      \<lparr>pl_config = c, pl_normalizer = nz, pl_hmm = h, pl_security = Some client, next_window_id = 1, next_message_id = 1\<rparr>
      \<lparr>lb_receiver = r, lb_samples = ss, lb_sample_count = n, lb_metadata = md, complete_windows = w\<rparr>" for nz
    using ses sync r by (auto simp: linked_def adaptive_receiver_init_def)
  then show ?thesis
    using ses h c(2) normalizer_init_inv [OF base] r
    by (auto simp: adaptive_pipeline_init_def pipeline_ready_def outcome_bind_simp adaptive_receiver_init_def)
qed

definition quiet_config :: adaptive_config where
  "quiet_config = default_config\<lparr>window_size := 8, wavelet_levels := 1, quant_bits := replicate 5 8,
     threshold_gain := replicate 5 dzero\<rparr>"

lemma quiet_config_ready:
  "hmm_config_ok quiet_config" "sendable ADAPTIVE_SECURITY_OVERHEAD quiet_config"
  "dbl_in 0 1 (baseline_alpha quiet_config)" "dbl_in 0 1 (baseline_epsilon quiet_config)"
  "0 < fval (baseline_epsilon quiet_config)" "window_ok zero_libm quiet_config (replicate 8 fzero)"
proof -
  have same: "hmm_config_ok (c\<lparr>window_size := n, wavelet_levels := l, quant_bits := q, threshold_gain := g\<rparr>) = hmm_config_ok c"
    for c n l q g by (simp add: hmm_config_ok_def)
  show "hmm_config_ok quiet_config" using default_hmm_config by (simp add: quiet_config_def same)
  have five: "s < 5 \<Longrightarrow> s \<in> {0, 1, 2, 3, 4}" for s :: nat by auto
  have blocks: "s < 5 \<Longrightarrow> block_szx default_config ! s \<le> 6 \<and> 25 < adaptive_coap_block_size (block_szx default_config ! s)" for s
    using five [of s] by (auto simp: default_fields adaptive_coap_block_size_def push_bit_eq_mult)
  have uri: "length (uri_path default_config) \<le> 63" "path_segments (uri_path default_config) \<noteq> []"
    by (simp_all add: default_fields path_segments_def)
  show "sendable ADAPTIVE_SECURITY_OVERHEAD quiet_config"
    using blocks uri by (simp add: sendable_def quiet_config_def security_constants validate_transform_def adaptive_bounds)
  show "dbl_in 0 1 (baseline_alpha quiet_config)" "dbl_in 0 1 (baseline_epsilon quiet_config)"
    "0 < fval (baseline_epsilon quiet_config)"
    by (simp_all add: quiet_config_def default_fields unit_ddec ddec_lower)
  show "window_ok zero_libm quiet_config (replicate 8 fzero)"
    by (simp add: window_ok_def quiet_config_def silent_coefficients quantisable_def wff_dzero smant_def del: wff.simps)
qed

definition first_loopback :: "'c security_session \<Rightarrow> 'c loopback" where
  "first_loopback server =
     \<lparr>lb_receiver = the (adaptive_receiver_init (Some
         \<lparr>rv_security = None, representation = [], next_block = 0, rv_token = [], rv_token_length = 0, rv_active = False\<rparr>)
         (Some server)),
      lb_samples = [], lb_sample_count = 0, lb_metadata = None, complete_windows = 0\<rparr>"

lemma quiet_start:
  assumes "k < 2 ^ 64"
  shows "\<exists>client server p. adaptive_security_test_pair True True 7 True True = Inr (client, server) \<and>
    adaptive_pipeline_init True (Some quiet_config) (Some client) = Inr p \<and> pl_config p = quiet_config \<and>
    next_window_id p = 1 \<and>
    pipeline_ready test_seal test_open ADAPTIVE_SECURITY_OVERHEAD test_synced k p (first_loopback server)"
proof -
  obtain client server where pair: "adaptive_security_test_pair True True 7 True True = Inr (client, server)"
    by (auto simp: adaptive_security_test_pair_def Let_def)
  have ses: "sess_seal client = Some test_seal" "sess_overhead client = ADAPTIVE_SECURITY_OVERHEAD"
      "0 < ADAPTIVE_SECURITY_OVERHEAD" "sess_open server = Some test_open"
    using pair by (auto simp: adaptive_security_test_pair_def security_constants Let_def)
  show ?thesis
    using pipeline_init_ready [where synced = test_synced, OF ses test_pair_synced(1) [OF pair assms] quiet_config_ready(1-5)] pair
    by (fastforce simp: first_loopback_def adaptive_receiver_init_def)
qed

lemma sane_ones: "sane_metrics (replicate 5 (ddec 10 1))"
  using sane_ddec [of 10 1] by (simp add: sane_metrics_def)

lemma window_delivered_witness:
  "\<exists>(server :: test_context security_session) (p :: test_context adaptive_pipeline) stats p' l'.
    adaptive_pipeline_process zero_libm (Some p) (Some (replicate 8 fzero)) (length (replicate 8 fzero))
      (Some (replicate 5 (ddec 10 1))) (Some loopback_send) (first_loopback server) = (Inr stats, Some p', l') \<and>
    st_window_id stats = 1 \<and> complete_windows l' = 1 \<and> lb_sample_count l' = 8"
proof -
  obtain server p where p: "pl_config p = quiet_config" "next_window_id p = 1"
      "pipeline_ready test_seal test_open ADAPTIVE_SECURITY_OVERHEAD test_synced (1088 + 0) p (first_loopback server)"
    using quiet_start [of "1088 + 0"] by auto
  obtain stats p' l' where r: "adaptive_pipeline_process zero_libm (Some p) (Some (replicate 8 fzero)) (length (replicate 8 fzero))
      (Some (replicate 5 (ddec 10 1))) (Some loopback_send) (first_loopback server) = (Inr stats, Some p', l')"
      "window_done (replicate 8 fzero) stats p p' (first_loopback server) l'"
    using window_delivered [OF zero_libm_ok sane_ones p(3) quiet_config_ready(6) [folded p(1)]] by blast
  have "st_window_id stats = 1" "complete_windows l' = 1" "lb_sample_count l' = 8"
    using r(2) p(2) by (auto simp: window_done_def first_loopback_def)
  with r(1) show ?thesis by blast
qed

end
