(* ===== verification/Silent_Window.thy ===== *)
theory Silent_Window
  imports Window_Delivery
begin

text \<open>
  A window of zeros through the encoder, for every configuration whose transform fits and
  whose gains are finite: the input on which a whole run can be followed by rewriting.
\<close>

declare One_nat_def [simp del]

lemma analyse_silence:
  assumes "0 < n" "n \<le> N" shows "analyse machine_arith db4_low (replicate N fzero) n i = (dzero, dzero)"
  unfolding analyse_def machine_arith_simps
proof (rule foldl_invariant)
  fix p and k :: nat
  assume p: "p = (dzero, dzero)" and k: "k \<in> set [0..<8]"
  then have "k < 8" by simp
  have "(2 * i + k) mod n < N" using assms by (meson mod_less_divisor less_le_trans)
  then have z: "to_double (replicate N fzero ! ((2 * i + k) mod n)) = dzero"
    by (simp add: zero_operations del: fcvt.simps)
  obtain s t where "dmul (db4_low ! k) dzero = Fin s 0 (-1074)"
      "dmul (db4_high machine_arith db4_low k) dzero = Fin t 0 (-1074)"
    using dmul_dzero db4_finite [OF \<open>k < 8\<close>] by metis
  then show "(case p of (l, h) \<Rightarrow> \<lambda>k.
      let x = to_double (replicate N fzero ! ((2 * i + k) mod n))
      in (dadd l (dmul (db4_low ! k) x), dadd h (dmul (db4_high machine_arith db4_low k) x))) k = (dzero, dzero)"
    by (simp add: p z zero_operations(5) Let_def del: fadd.simps fmul.simps fcvt.simps)
qed simp

lemma forward_level_silence:
  assumes "even n" "0 < n" "n \<le> N"
  shows "forward_level machine_arith db4_low (replicate N fzero) n = replicate N fzero"
proof (rule nth_equalityI)
  show "length (forward_level machine_arith db4_low (replicate N fzero) n) = length (replicate N fzero)"
    by (rule length_forward_level) (use assms in simp_all)
  fix i assume "i < length (forward_level machine_arith db4_low (replicate N fzero) n)"
  then show "forward_level machine_arith db4_low (replicate N fzero) n ! i = replicate N fzero ! i"
    using assms by (auto simp: forward_level_def machine_arith_simps analyse_silence zero_operations nth_append Let_def
      simp del: fcvt.simps elim!: evenE)
qed

lemma forward_levels_silence:
  "2 ^ levels dvd n \<Longrightarrow> 0 < n \<Longrightarrow> n \<le> N \<Longrightarrow>
   forward_levels machine_arith db4_low levels (replicate N fzero) n = replicate N fzero"
proof (induction levels arbitrary: n)
  case (Suc levels)
  then obtain q where q: "n = 2 * (2 ^ levels * q)" by (auto simp: dvd_def mult.assoc)
  then have "even n" "2 ^ levels dvd n div 2" "0 < n div 2" "n div 2 \<le> N" using Suc.prems by auto
  then show ?case using Suc.IH [of "n div 2"] Suc.prems by (simp add: forward_level_silence)
qed simp

lemma sigma_silence:
  assumes "2 \<le> n" "n \<le> 256" shows "adaptive_wavelet_noise_sigma (Some (replicate n fzero)) n True 256 = dzero"
proof -
  define k where "k = n div 2"
  have k: "0 < k" "k + k \<le> n" using assms by (auto simp: k_def)
  have ops: "dmul (Fin False 4503599627370496 (-53)) dzero = dzero" by (simp add: binary64_def roundf_def)
  have "map (\<lambda>i. fabs (replicate n fzero ! (k + i))) [0..<k] = replicate k fzero"
    using k by (intro nth_equalityI) (simp_all add: zero_operations)
  moreover have "qsort_float (replicate k fzero) = replicate k fzero"
    by (rule replicate_eqI) (use qsort_float_set [of "replicate k fzero"] in auto)
  moreover have "k div 2 < k" "k div 2 - 1 < k" using k(1) by auto
  ultimately show ?thesis
    using assms by (simp add: adaptive_wavelet_noise_sigma_def zero_operations sigma_constants ops Let_def k_def [symmetric]
        del: fcvt.simps fmul.simps fadd.simps fdiv.simps)
qed

lemma threshold_silence:
  assumes "fisfinite g"
  shows "\<exists>s. dmul (dmul g dzero) (dsqrt (dmul (ddec 20 1) dzero)) = Fin s 0 (-1074)"
proof -
  obtain s where "dmul g dzero = Fin s 0 (-1074)" using dmul_dzero [OF assms] by blast
  moreover have "dsqrt (dmul (ddec 20 1) dzero) = dzero"
    unfolding decimal_constants by (simp add: binary64_def roundf_def)
  ultimately show ?thesis by (simp add: zero_operations(4) del: fmul.simps fsqrt.simps)
qed

lemma soft_threshold_silence: "soft_threshold (Fin s 0 (-1074)) fzero = fzero"
  by (simp add: soft_threshold_def Let_def zero_operations(1) fcmp_def smant_def del: fcvt.simps)

lemma silent_window_coefficients:
  assumes v: "validate_transform n (wavelet_levels c) 256 = Inr ()" and g: "fisfinite (threshold_gain c ! s)"
  shows "\<exists>t. codec_coefficients zero_libm (replicate n fzero) n s c = Inr (replicate n fzero, t)"
proof -
  have n: "8 \<le> n" "n \<le> 256" "2 ^ wavelet_levels c dvd n" using v by (auto simp: validate_transform_cases)
  have f: "adaptive_db4_forward (Some (replicate n fzero)) n (wavelet_levels c) True 256 = Inr (replicate n fzero)"
    using n by (simp add: adaptive_db4_forward_def db4_forward_def v forward_levels_silence)
  obtain z where t: "dmul (dmul (threshold_gain c ! s) dzero) (dsqrt (dmul (ddec 20 1) dzero)) = Fin z 0 (-1074)"
    using threshold_silence [OF g] by blast
  have l: "foldl (\<lambda>c i. c[i := soft_threshold (Fin z 0 (-1074)) (c ! i)]) (replicate n fzero) is = replicate n fzero"
    if "\<forall>i \<in> set is. i < n" for "is"
    using that by (induction "is") (simp_all add: soft_threshold_silence replicate_update_same)
  have sg: "adaptive_wavelet_noise_sigma (Some (replicate n fzero)) n True 256 = dzero"
    by (rule sigma_silence) (use n in simp_all)
  show ?thesis
    using l [of "[drop_bit (wavelet_levels c) n..<n]"]
    by (simp add: codec_coefficients_def zero_libm_def adaptive_bounds f sg t
        adaptive_wavelet_soft_threshold_def Let_def split: option.splits
        del: fcvt.simps fmul.simps fsqrt.simps flt.simps)
qed

lemma silent_window_ok:
  assumes "validate_transform (window_size c) (wavelet_levels c) 256 = Inr ()" "\<forall>s < 5. fisfinite (threshold_gain c ! s)"
  shows "window_ok zero_libm c (replicate (window_size c) fzero)"
proof -
  have "quantisable f" if "s < 5"
    "codec_coefficients zero_libm (replicate (window_size c) fzero) (window_size c) s c = Inr (f, t)" for s f t
  proof -
    have "f = replicate (window_size c) fzero"
      using silent_window_coefficients [OF assms(1)] assms(2) that by fastforce
    then show ?thesis by (simp add: quantisable_def wff_dzero smant_def del: wff.simps)
  qed
  then show ?thesis by (simp add: window_ok_def wff_dzero del: wff.simps)
qed

text \<open>The default configuration is one of them.\<close>

lemma default_window_parameters:
  "validate_transform (window_size default_config) (wavelet_levels default_config) 256 = Inr ()"
  "\<forall>s < 5. fisfinite (threshold_gain default_config ! s)"
proof -
  show "validate_transform (window_size default_config) (wavelet_levels default_config) 256 = Inr ()"
    by (simp add: default_fields validate_transform_def adaptive_bounds drop_bit_eq_div push_bit_eq_mult Let_def)
  have "numbers (threshold_gain default_config)" using default_shape by (simp add: config_shape_def)
  then show "\<forall>s < 5. fisfinite (threshold_gain default_config ! s)" using number_nth by blast
qed

end
