(* ===== verification/Oqs_Properties.thy ===== *)
theory Oqs_Properties
  imports Security_Oqs
begin

text \<open>
  What the production provider guarantees, given the documented behaviour of AES-GCM: it is
  a record layer with replay protection, it accepts exactly the records its peer would have
  sealed, and it never uses a nonce twice.
\<close>

declare One_nat_def [simp del]

section \<open>The documented behaviour of the cipher\<close>

text \<open>
  Encryption with a 32-byte key and a 12-byte nonce succeeds, keeps the length and yields a
  16-byte tag; decryption is its inverse, and rejects everything that is not an encryption.
\<close>

definition gcm_ok :: "crypto_library \<Rightarrow> bool" where
  "gcm_ok lib \<longleftrightarrow>
     (\<forall>k n a p. length k = 32 \<and> length n = 12 \<longrightarrow>
        (\<exists>c t. gcm_encrypt lib k n a p = Some (c, t) \<and> length c = length p \<and> length t = 16)) \<and>
     (\<forall>k n a p c t. length k = 32 \<and> length n = 12 \<longrightarrow>
        (gcm_decrypt lib k n a c t = Some p) = (gcm_encrypt lib k n a p = Some (c, t)))"

section \<open>Nonces\<close>

lemma foldl_update_shape:
  "length (foldl (\<lambda>ns i. ns[g i := f ns i]) base is) = length base"
  by (induction "is" arbitrary: base) simp_all

lemma make_nonce_eq:
  assumes "length base = 12"
  shows "make_nonce base s = map (\<lambda>j. if j < 4 then base ! j else base ! j XOR ucast (drop_bit (8 * (11 - j)) s)) [0..<12]"
proof -
  obtain b where b: "base = map b [0..<12]" using map_nth [of base] assms by metis
  show ?thesis
    by (simp add: make_nonce_def b upt_rec numeral_eq_Suc del: upt_Suc)
qed

lemma length_make_nonce [simp]: "length (make_nonce base s) = length base"
  by (simp add: make_nonce_def foldl_update_shape)

lemma make_nonce_inj:
  assumes "length base = 12" shows "make_nonce base s = make_nonce base s' \<longleftrightarrow> s = s'"
proof
  assume eq: "make_nonce base s = make_nonce base s'"
  have byte: "(ucast (drop_bit (8 * i) s) :: u8) = ucast (drop_bit (8 * i) s')" if "i < 8" for i
  proof -
    define j where "j = 11 - i"
    have j: "j < 12" "\<not> j < 4" "11 - j = i" using that by (simp_all add: j_def)
    have "make_nonce base s ! j = make_nonce base s' ! j" using eq by simp
    then show ?thesis using j by (simp add: make_nonce_eq [OF assms] xor_cancel)
  qed
  have "write_u64_be s = write_u64_be s'"
  proof (rule nth_equalityI)
    fix i assume "i < length (write_u64_be s)"
    then have "i < 8" by simp
    then show "write_u64_be s ! i = write_u64_be s' ! i"
      using byte [of "7 - i"] by (simp add: write_u64_be_nth diff_mult_distrib2)
  qed simp
  then show "s = s'" using read_write_u64_be [of s "[]"] read_write_u64_be [of s' "[]"] by simp
qed simp

section \<open>Opening and sealing by parts\<close>

lemma length_oqs_header [simp]: "length (oqs_header s) = 9"
  by (simp add: oqs_header_def)

lemma read_oqs_header: "read_u64_be (drop 1 (oqs_header s @ rest)) = s"
  by (simp add: oqs_header_def One_nat_def)

lemma oqs_header_first: "(oqs_header s @ rest) ! 0 = 1"
  by (simp add: oqs_header_def security_constants)

lemma read_prefix_byte:
  "k \<le> 8 \<Longrightarrow> i < k \<Longrightarrow>
   ucast (drop_bit (8 * (k - 1 - i)) (foldl (\<lambda>value i. push_bit 8 value OR ucast (h ! i)) (0 :: u64) [0..<k])) = (h ! i :: u8)"
proof (induction k)
  case (Suc k)
  define v where "v = foldl (\<lambda>value i. push_bit 8 value OR ucast (h ! i)) (0 :: u64) [0..<k]"
  show ?case
  proof (cases "i = k")
    case True
    have "(ucast (push_bit 8 v OR ucast (h ! k)) :: u8) = h ! k" by (rule bit_word_eqI) (simp add: bit_simps)
    then show ?thesis using True by (simp add: v_def One_nat_def)
  next
    case False
    then have i: "i < k" "8 * (k - i) = 8 * (k - 1 - i) + 8" "8 * (k - i) \<le> 56" using Suc.prems by simp_all
    have "(ucast (drop_bit (8 * (k - i)) (push_bit 8 v OR ucast (h ! k))) :: u8) = ucast (drop_bit (8 * (k - 1 - i)) v)"
    proof (rule bit_word_eqI)
      fix n assume "n < LENGTH(8)"
      then show "bit (ucast (drop_bit (8 * (k - i)) (push_bit 8 v OR ucast (h ! k))) :: u8) n =
          bit (ucast (drop_bit (8 * (k - 1 - i)) v) :: u8) n"
        using i(3)
        unfolding i(2) by (auto simp: bit_simps add.assoc)
    qed
    then show ?thesis using Suc i(1) by (simp add: v_def One_nat_def)
  qed
qed simp

lemma write_read_u64_be:
  assumes "length h = 8" shows "write_u64_be (read_u64_be h) = h"
proof (rule nth_equalityI)
  fix i assume "i < length (write_u64_be (read_u64_be h))"
  then have i: "i < 8" by simp
  have "56 - 8 * i = 8 * (8 - 1 - i)" by (simp add: diff_mult_distrib2)
  then show "write_u64_be (read_u64_be h) ! i = h ! i"
    using read_prefix_byte [of 8 i h] i by (simp add: write_u64_be_nth read_u64_be_def)
qed (simp add: assms)

text \<open>A record of the right version is its header, its ciphertext and its tag.\<close>

lemma record_parts:
  assumes "25 \<le> length r" "r ! 0 = 1"
  shows "take 9 r = oqs_header (read_u64_be (drop 1 r))"
    "r = oqs_header (read_u64_be (drop 1 r)) @ take (length r - 25) (drop 9 r) @ drop (length r - 16) r"
proof -
  obtain x r' where r: "r = x # r'" "24 \<le> length r'" using assms(1) by (cases r) auto
  have "read_u64_be r' = read_u64_be (take 8 r')"
    using r(2) by (simp add: read_u64_be_def upt_rec numeral_eq_Suc)
  moreover have "write_u64_be (read_u64_be (take 8 r')) = take 8 r'" by (rule write_read_u64_be) (use r in simp)
  ultimately show nine: "take 9 r = oqs_header (read_u64_be (drop 1 r))"
    using r assms(2) by (simp add: oqs_header_def security_constants One_nat_def)
  have "drop (length r - 16) r = drop (length r - 25) (drop 9 r)" using assms(1) by simp
  then have "take (length r - 25) (drop 9 r) @ drop (length r - 16) r = drop 9 r" by (simp only: append_take_drop_id)
  then show "r = oqs_header (read_u64_be (drop 1 r)) @ take (length r - 25) (drop 9 r) @ drop (length r - 16) r"
    unfolding nine [symmetric] by simp
qed

section \<open>The provider keeps the contract\<close>

lemma oqs_seal_parts:
  assumes "gcm_ok lib" "length (oq_tx_key t) = 32" "length (tx_nonce_base t) = 12"
  obtains c tag where "gcm_encrypt lib (oq_tx_key t) (make_nonce (tx_nonce_base t) (oq_tx_sequence t))
      (oqs_header (oq_tx_sequence t) @ a) p = Some (c, tag)" "length c = length p" "length tag = 16"
    "oqs_seal lib (Some t) p a cap =
      (if length p + 25 \<le> cap \<and> length p \<le> INT_MAX \<and> length a \<le> INT_MAX
       then (Inr (oqs_header (oq_tx_sequence t) @ c @ tag), Some (t\<lparr>oq_tx_sequence := oq_tx_sequence t + 1\<rparr>))
       else (Inl ADAPTIVE_ERR_CAPACITY, Some t))"
proof -
  obtain c tag where e: "gcm_encrypt lib (oq_tx_key t) (make_nonce (tx_nonce_base t) (oq_tx_sequence t))
      (oqs_header (oq_tx_sequence t) @ a) p = Some (c, tag)" "length c = length p" "length tag = 16"
    using assms unfolding gcm_ok_def by (metis length_make_nonce)
  then show thesis
    by (intro that [OF e]) (auto simp: oqs_seal_def security_constants Let_def)
qed

text \<open>Opening, on records of the right shape.\<close>

lemma oqs_open_parts:
  assumes "length tag = 16"
  shows "oqs_open lib (Some u) (oqs_header s @ c @ tag) a cap =
    (if INT_MAX < length a then (Inl ADAPTIVE_ERR_FORMAT, Some u)
     else if oq_rx_initialized u \<and> s \<le> oq_rx_highest u then (Inl ADAPTIVE_ERR_REPLAY, Some u)
     else if cap < length c \<or> INT_MAX < length c then (Inl ADAPTIVE_ERR_CAPACITY, Some u)
     else case gcm_decrypt lib (oq_rx_key u) (make_nonce (rx_nonce_base u) s) (oqs_header s @ a) c tag of
       None \<Rightarrow> (Inl ADAPTIVE_ERR_INTEGRITY, Some u)
     | Some p \<Rightarrow> (Inr p, Some (u\<lparr>oq_rx_highest := s, oq_rx_initialized := True\<rparr>)))"
  using assms read_oqs_header [of s "c @ tag"] oqs_header_first [of s "c @ tag"]
  by (simp add: oqs_open_def security_constants Let_def)

lemma oqs_open_error_keeps: "oqs_open lib s r a cap = (Inl e, s') \<Longrightarrow> s' = s"
  by (auto simp: oqs_open_def Let_def split: option.splits if_splits)

lemma oqs_open_accepts:
  assumes "oqs_open lib s r a cap = (Inr p, s')"
  obtains u c tag where "s = Some u" "r = oqs_header (read_u64_be (drop 1 r)) @ c @ tag" "length tag = 16"
    "length a \<le> INT_MAX" "length c \<le> INT_MAX" "length c \<le> cap"
    "oq_rx_initialized u \<longrightarrow> oq_rx_highest u < read_u64_be (drop 1 r)"
    "gcm_decrypt lib (oq_rx_key u) (make_nonce (rx_nonce_base u) (read_u64_be (drop 1 r)))
       (oqs_header (read_u64_be (drop 1 r)) @ a) c tag = Some p"
    "s' = Some (u\<lparr>oq_rx_highest := read_u64_be (drop 1 r), oq_rx_initialized := True\<rparr>)"
proof -
  obtain u where s: "s = Some u" using assms by (auto simp: oqs_open_def split: option.splits)
  have r: "25 \<le> length r" "r ! 0 = 1" "length a \<le> INT_MAX"
    using assms by (auto simp: s oqs_open_def security_constants Let_def split: if_splits)
  define n where "n = read_u64_be (drop 1 r)"
  define c tag where "c = take (length r - 25) (drop 9 r)" and "tag = drop (length r - 16) r"
  have parts: "r = oqs_header n @ c @ tag" "length tag = 16"
    using record_parts(2) [OF r(1,2)] r(1) by (simp_all add: n_def c_def tag_def)
  then have "oqs_open lib (Some u) (oqs_header n @ c @ tag) a cap = (Inr p, s')" using assms s by simp
  then show thesis
    unfolding oqs_open_parts [OF parts(2)]
    by (intro that [OF s parts(1) [unfolded n_def] parts(2)])
      (auto simp: n_def r not_less split: if_splits option.splits)
qed

definition oqs_fits :: "nat \<Rightarrow> nat \<Rightarrow> bool" where
  "oqs_fits m n \<longleftrightarrow> m \<le> INT_MAX \<and> n \<le> INT_MAX"

definition oqs_synced :: "nat \<Rightarrow> oqs_context option \<Rightarrow> oqs_context option \<Rightarrow> bool" where
  "oqs_synced n c s =
     (case (c, s) of
        (Some t, Some u) \<Rightarrow>
          oq_rx_key u = oq_tx_key t \<and> rx_nonce_base u = tx_nonce_base t \<and>
          length (oq_tx_key t) = 32 \<and> length (tx_nonce_base t) = 12 \<and>
          unat (oq_tx_sequence t) + n < 2 ^ 64 \<and> (oq_rx_initialized u \<longrightarrow> oq_rx_highest u < oq_tx_sequence t)
      | _ \<Rightarrow> False)"

lemma oqs_synced_cases:
  assumes "oqs_synced n c s"
  obtains t u where "c = Some t" "s = Some u" "oq_rx_key u = oq_tx_key t" "rx_nonce_base u = tx_nonce_base t"
    "length (oq_tx_key t) = 32" "length (tx_nonce_base t) = 12" "unat (oq_tx_sequence t) + n < 2 ^ 64"
    "oq_rx_initialized u \<longrightarrow> oq_rx_highest u < oq_tx_sequence t"
  using assms by (auto simp: oqs_synced_def split: option.splits)

lemma oqs_synced_seal:
  assumes lib: "gcm_ok lib" and sync: "oqs_synced n c s"
  obtains t u ct tag where "c = Some t" "s = Some u" "oq_rx_key u = oq_tx_key t" "rx_nonce_base u = tx_nonce_base t"
    "length (oq_tx_key t) = 32" "length (tx_nonce_base t) = 12" "unat (oq_tx_sequence t) + n < 2 ^ 64"
    "oq_rx_initialized u \<longrightarrow> oq_rx_highest u < oq_tx_sequence t" "length ct = length p" "length tag = 16"
    "gcm_decrypt lib (oq_rx_key u) (make_nonce (rx_nonce_base u) (oq_tx_sequence t))
       (oqs_header (oq_tx_sequence t) @ a) ct tag = Some p"
    "oqs_seal lib c p a cap =
      (if length p + 25 \<le> cap \<and> length p \<le> INT_MAX \<and> length a \<le> INT_MAX
       then (Inr (oqs_header (oq_tx_sequence t) @ ct @ tag), Some (t\<lparr>oq_tx_sequence := oq_tx_sequence t + 1\<rparr>))
       else (Inl ADAPTIVE_ERR_CAPACITY, Some t))"
proof -
  obtain t u where tu: "c = Some t" "s = Some u" "oq_rx_key u = oq_tx_key t" "rx_nonce_base u = tx_nonce_base t"
    "length (oq_tx_key t) = 32" "length (tx_nonce_base t) = 12" "unat (oq_tx_sequence t) + n < 2 ^ 64"
    "oq_rx_initialized u \<longrightarrow> oq_rx_highest u < oq_tx_sequence t"
    by (rule oqs_synced_cases [OF sync])
  obtain ct tag where e: "gcm_encrypt lib (oq_tx_key t) (make_nonce (tx_nonce_base t) (oq_tx_sequence t))
      (oqs_header (oq_tx_sequence t) @ a) p = Some (ct, tag)" "length ct = length p" "length tag = 16"
    "oqs_seal lib (Some t) p a cap =
      (if length p + 25 \<le> cap \<and> length p \<le> INT_MAX \<and> length a \<le> INT_MAX
       then (Inr (oqs_header (oq_tx_sequence t) @ ct @ tag), Some (t\<lparr>oq_tx_sequence := oq_tx_sequence t + 1\<rparr>))
       else (Inl ADAPTIVE_ERR_CAPACITY, Some t))"
    by (rule oqs_seal_parts [OF lib tu(5,6)])
  have "gcm_decrypt lib (oq_rx_key u) (make_nonce (rx_nonce_base u) (oq_tx_sequence t))
      (oqs_header (oq_tx_sequence t) @ a) ct tag = Some p"
    using lib e(1) tu(3-6) by (simp add: gcm_ok_def)
  then show thesis using that [OF tu e(2,3)] e(4) tu(1) by blast
qed

lemma oqs_record_layer:
  assumes lib: "gcm_ok lib"
  shows "replay_protected (oqs_seal lib) (oqs_open lib) ADAPTIVE_SECURITY_OVERHEAD oqs_fits oqs_synced"
proof unfold_locales
  show "0 < ADAPTIVE_SECURITY_OVERHEAD" by (simp add: security_constants)
next
  fix m n :: nat assume "m \<le> ADAPTIVE_MAX_BLOCK_SIZE" "n \<le> 16"
  then show "oqs_fits m n" by (simp add: oqs_fits_def INT_MAX_def ADAPTIVE_MAX_BLOCK_SIZE_def)
next
  fix n c s cap and p a :: bytes
  assume "oqs_synced (Suc n) c s" "length p + ADAPTIVE_SECURITY_OVERHEAD \<le> cap" "oqs_fits (length p) (length a)"
  then show "\<exists>r c'. oqs_seal lib c p a cap = (Inr r, c')"
    by - (rule oqs_synced_seal [OF lib, of "Suc n" c s p a cap], assumption, simp add: oqs_fits_def security_constants)
next
  fix n c s p a cap r c'
  assume sync: "oqs_synced (Suc n) c s" and sl: "oqs_seal lib c p a cap = (Inr r, c')"
  show "length r = length p + ADAPTIVE_SECURITY_OVERHEAD"
    by (rule oqs_synced_seal [OF lib sync, of p a cap]) (use sl in \<open>auto simp: security_constants split: if_splits\<close>)
next
  fix n c s p a cap r c' pcap
  assume sync: "oqs_synced (Suc n) c s" and sl: "oqs_seal lib c p a cap = (Inr r, c')" and cap: "length p \<le> (pcap :: nat)"
  show "\<exists>s'. oqs_open lib s r a pcap = (Inr p, s') \<and> oqs_synced n c' s'"
  proof (rule oqs_synced_seal [OF lib sync, of p a cap])
    fix t u ct tag
    assume tu: "c = Some t" "s = Some u" "oq_rx_key u = oq_tx_key t" "rx_nonce_base u = tx_nonce_base t"
      "length (oq_tx_key t) = 32" "length (tx_nonce_base t) = 12" "unat (oq_tx_sequence t) + Suc n < 2 ^ 64"
      "oq_rx_initialized u \<longrightarrow> oq_rx_highest u < oq_tx_sequence t" "length ct = length p" "length tag = 16"
      "gcm_decrypt lib (oq_rx_key u) (make_nonce (rx_nonce_base u) (oq_tx_sequence t))
         (oqs_header (oq_tx_sequence t) @ a) ct tag = Some p"
      "oqs_seal lib c p a cap =
        (if length p + 25 \<le> cap \<and> length p \<le> INT_MAX \<and> length a \<le> INT_MAX
         then (Inr (oqs_header (oq_tx_sequence t) @ ct @ tag), Some (t\<lparr>oq_tx_sequence := oq_tx_sequence t + 1\<rparr>))
         else (Inl ADAPTIVE_ERR_CAPACITY, Some t))"
    then have sealed: "r = oqs_header (oq_tx_sequence t) @ ct @ tag" "c' = Some (t\<lparr>oq_tx_sequence := oq_tx_sequence t + 1\<rparr>)"
        "length p \<le> INT_MAX" "length a \<le> INT_MAX"
      using sl by (auto split: if_splits)
    note o = oqs_open_parts [OF tu(10), of lib u "oq_tx_sequence t" ct a pcap]
    have "oqs_open lib s r a pcap = (Inr p, Some (u\<lparr>oq_rx_highest := oq_tx_sequence t, oq_rx_initialized := True\<rparr>))"
      unfolding sealed(1) tu(2) o using tu cap sealed(3,4) by auto
    then show ?thesis using sealed(2) tu(3-7) next_sequence [OF tu(7)] by (simp add: oqs_synced_def)
  qed
next
  fix n c s assume "oqs_synced (Suc n) c s"
  then show "oqs_synced n c s" by (auto simp: oqs_synced_def split: option.splits)
next
  fix s r a pcap p s' a' pcap'
  assume "oqs_open lib s r a pcap = (Inr p, s')"
  then show "\<exists>e. oqs_open lib s' r a' pcap' = (Inl e, s') \<and> (a' = a \<longrightarrow> e = ADAPTIVE_ERR_REPLAY)"
  proof (rule oqs_open_accepts)
    fix u c tag
    assume u: "r = oqs_header (read_u64_be (drop 1 r)) @ c @ tag" "length tag = 16" "length a \<le> INT_MAX"
      "s' = Some (u\<lparr>oq_rx_highest := read_u64_be (drop 1 r), oq_rx_initialized := True\<rparr>)"
    define n where "n = read_u64_be (drop 1 r)"
    have r: "r = oqs_header n @ c @ tag" and s': "s' = Some (u\<lparr>oq_rx_highest := n, oq_rx_initialized := True\<rparr>)"
      using u(1,4) by (simp_all add: n_def)
    show ?thesis unfolding r s' oqs_open_parts [OF u(2)] using u(3) by auto
  qed
next
  fix s r a pcap e s'
  assume "oqs_open lib s r a pcap = (Inl e, s')"
  then show "s' = s" by (rule oqs_open_error_keeps)
qed

section \<open>Properties\<close>

lemma hkdf_expand_length: "hkdf_expand lib shared transcript label = Inr k \<Longrightarrow> length k = 32"
  by (auto simp: hkdf_expand_def split: if_splits option.splits)

text \<open>The sessions of a pair, and which keys they share.\<close>

lemma oqs_pair_sessions:
  assumes "adaptive_security_oqs_pair lib client_ok server_ok algorithm allocated = Inr (client, server, info)"
  obtains cc sc where "client = set_session lib cc" "server = set_session lib sc"
    "oq_tx_key cc = oq_rx_key sc" "oq_rx_key cc = oq_tx_key sc" "tx_nonce_base cc = rx_nonce_base sc"
    "rx_nonce_base cc = tx_nonce_base sc" "length (oq_tx_key cc) = 32" "length (oq_tx_key sc) = 32"
    "length (tx_nonce_base cc) = 12" "length (tx_nonce_base sc) = 12"
    "oq_tx_sequence cc = 0" "oq_tx_sequence sc = 0" "\<not> oq_rx_initialized cc" "\<not> oq_rx_initialized sc"
proof -
  obtain shared ciphertext cc sc where
    i: "initialize_contexts lib zero_oqs_context zero_oqs_context shared ciphertext = Inr (cc, sc)"
    and s: "client = set_session lib cc" "server = set_session lib sc"
    using assms by (auto simp: adaptive_security_oqs_pair_def Let_def outcome_bind_Inr split: if_splits option.splits)
  obtain k1 k2 n1 n2 where "hkdf_expand lib shared ciphertext ''adaptive/c2s/key'' = Inr k1"
      "hkdf_expand lib shared ciphertext ''adaptive/s2c/key'' = Inr k2"
      "hkdf_expand lib shared ciphertext ''adaptive/c2s/nonce'' = Inr n1"
      "hkdf_expand lib shared ciphertext ''adaptive/s2c/nonce'' = Inr n2"
    and c: "cc = zero_oqs_context\<lparr>oq_tx_key := k1, oq_rx_key := k2, tx_nonce_base := take 12 n1, rx_nonce_base := take 12 n2\<rparr>"
      "sc = zero_oqs_context\<lparr>oq_tx_key := k2, oq_rx_key := k1, tx_nonce_base := take 12 n2, rx_nonce_base := take 12 n1\<rparr>"
    using i by (auto simp: initialize_contexts_def outcome_bind_Inr)
  then have "length k1 = 32" "length k2 = 32" "length n1 = 32" "length n2 = 32" by (simp_all add: hkdf_expand_length)
  then show thesis by (intro that [OF s]) (simp_all add: c zero_oqs_context_def)
qed

lemma oqs_pair_synced:
  assumes pair: "adaptive_security_oqs_pair lib client_ok server_ok algorithm allocated = Inr (client, server, info)"
    and n: "n < 2 ^ 64"
  shows "oqs_synced n (sess_context client) (sess_context server)"
    "oqs_synced n (sess_context server) (sess_context client)"
proof -
  obtain cc sc where p: "client = set_session lib cc" "server = set_session lib sc"
    "oq_tx_key cc = oq_rx_key sc" "oq_rx_key cc = oq_tx_key sc" "tx_nonce_base cc = rx_nonce_base sc"
    "rx_nonce_base cc = tx_nonce_base sc" "length (oq_tx_key cc) = 32" "length (oq_tx_key sc) = 32"
    "length (tx_nonce_base cc) = 12" "length (tx_nonce_base sc) = 12"
    "oq_tx_sequence cc = 0" "oq_tx_sequence sc = 0" "\<not> oq_rx_initialized cc" "\<not> oq_rx_initialized sc"
    by (rule oqs_pair_sessions [OF pair])
  have "sess_context (set_session lib t) = Some t" for t by (simp add: set_session_def)
  then show "oqs_synced n (sess_context client) (sess_context server)"
    "oqs_synced n (sess_context server) (sess_context client)"
    using p(3-) n unfolding p(1,2) oqs_synced_def by auto
qed

text \<open>
  C32: Given the documented behaviour of AES-GCM, a pair \<open>adaptive_security_oqs_pair\<close> returns is
  a reliable channel in both directions: whatever messages one side seals, every record is
  produced with 25 bytes of overhead and the other side opens it to exactly the plaintext.
\<close>

theorem oqs_pair_delivers:
  assumes lib: "gcm_ok lib"
    and pair: "adaptive_security_oqs_pair lib client_ok server_ok algorithm allocated = Inr (client, server, info)"
    and dir: "(c, s) = (sess_context client, sess_context server) \<or> (c, s) = (sess_context server, sess_context client)"
    and len: "length ms < 2 ^ 64"
    and cap: "\<forall>(p, a) \<in> set ms. length p + ADAPTIVE_SECURITY_OVERHEAD \<le> cap \<and> length p \<le> pcap \<and>
      length p \<le> INT_MAX \<and> length a \<le> INT_MAX"
  shows "\<exists>rs c' s'. send_all (oqs_seal lib) c ms cap = (map Inr rs, c') \<and>
    map length rs = map (\<lambda>(p, a). length p + 25) ms \<and>
    receive_all (oqs_open lib) s (zip rs (map snd ms)) pcap = (map (Inr \<circ> fst) ms, s')"
proof -
  note layer = oqs_record_layer [OF lib, THEN replay_protected.axioms(1)]
  have "oqs_synced (length ms) c s" using dir oqs_pair_synced [OF pair len] by auto
  moreover have "\<forall>(p, a) \<in> set ms. length p + ADAPTIVE_SECURITY_OVERHEAD \<le> cap \<and> oqs_fits (length p) (length a) \<and> length p \<le> pcap"
    using cap by (auto simp: oqs_fits_def)
  ultimately show ?thesis using record_layer.channel_delivers [OF layer] by (fastforce simp: security_constants)
qed

text \<open>
  C33: The provider accepts exactly what its peer seals: a record is opened to \<open>p\<close> if and only if it
  is the record the peer's context produces for \<open>p\<close> and this additional data at the record's
  sequence number, that number is above all accepted ones, and \<open>p\<close> fits the buffer.
\<close>

theorem oqs_open_exact:
  assumes lib: "gcm_ok lib" and u: "length (oq_rx_key u) = 32" "length (rx_nonce_base u) = 12"
    and t: "oq_tx_key t = oq_rx_key u" "tx_nonce_base t = rx_nonce_base u"
  shows "fst (oqs_open lib (Some u) r a cap) = Inr p \<longleftrightarrow>
    fst (oqs_seal lib (Some (t\<lparr>oq_tx_sequence := read_u64_be (drop 1 r)\<rparr>)) p a (length p + 25)) = Inr r \<and>
    (oq_rx_initialized u \<longrightarrow> oq_rx_highest u < read_u64_be (drop 1 r)) \<and> length p \<le> cap"
proof -
  define n where "n = read_u64_be (drop 1 r)"
  define t' where "t' = t\<lparr>oq_tx_sequence := n\<rparr>"
  have t': "oq_tx_key t' = oq_rx_key u" "tx_nonce_base t' = rx_nonce_base u" "oq_tx_sequence t' = n"
    using t by (simp_all add: t'_def)
  obtain c tag where e: "gcm_encrypt lib (oq_rx_key u) (make_nonce (rx_nonce_base u) n) (oqs_header n @ a) p = Some (c, tag)"
      "length c = length p" "length tag = 16"
    and sl: "oqs_seal lib (Some t') p a (length p + 25) =
      (if length p + 25 \<le> length p + 25 \<and> length p \<le> INT_MAX \<and> length a \<le> INT_MAX
       then (Inr (oqs_header n @ c @ tag), Some (t'\<lparr>oq_tx_sequence := n + 1\<rparr>))
       else (Inl ADAPTIVE_ERR_CAPACITY, Some t'))"
    by (rule oqs_seal_parts [OF lib, of t' a p "length p + 25", unfolded t', OF u])
  have dec: "gcm_decrypt lib (oq_rx_key u) (make_nonce (rx_nonce_base u) n) (oqs_header n @ a) c' g = Some p
      \<longleftrightarrow> c' = c \<and> g = tag" for c' g
    using lib u e(1) by (auto simp: gcm_ok_def)
  show ?thesis
  proof
    assume "fst (oqs_open lib (Some u) r a cap) = Inr p"
    then have "oqs_open lib (Some u) r a cap = (Inr p, snd (oqs_open lib (Some u) r a cap))" by (metis prod.collapse)
    then show "fst (oqs_seal lib (Some (t\<lparr>oq_tx_sequence := read_u64_be (drop 1 r)\<rparr>)) p a (length p + 25)) = Inr r \<and>
        (oq_rx_initialized u \<longrightarrow> oq_rx_highest u < read_u64_be (drop 1 r)) \<and> length p \<le> cap"
    proof (rule oqs_open_accepts, unfold n_def [symmetric])
      fix v c' g
      assume v: "Some u = Some v" "r = oqs_header n @ c' @ g" "length a \<le> INT_MAX" "length c' \<le> INT_MAX" "length c' \<le> cap"
        "oq_rx_initialized v \<longrightarrow> oq_rx_highest v < n"
        "gcm_decrypt lib (oq_rx_key v) (make_nonce (rx_nonce_base v) n) (oqs_header n @ a) c' g = Some p"
      then have "c' = c" "g = tag" using dec by auto
      then show "fst (oqs_seal lib (Some (t\<lparr>oq_tx_sequence := n\<rparr>)) p a (length p + 25)) = Inr r \<and>
          (oq_rx_initialized u \<longrightarrow> oq_rx_highest u < n) \<and> length p \<le> cap"
        unfolding t'_def [symmetric] sl using v e(2) by auto
    qed
  next
    assume *: "fst (oqs_seal lib (Some (t\<lparr>oq_tx_sequence := read_u64_be (drop 1 r)\<rparr>)) p a (length p + 25)) = Inr r \<and>
      (oq_rx_initialized u \<longrightarrow> oq_rx_highest u < read_u64_be (drop 1 r)) \<and> length p \<le> cap"
    then have r: "r = oqs_header n @ c @ tag" "length p \<le> INT_MAX" "length a \<le> INT_MAX"
      unfolding n_def [symmetric] t'_def [symmetric] sl by (auto split: if_splits)
    have fresh: "oq_rx_initialized u \<longrightarrow> oq_rx_highest u < n" "length p \<le> cap" using * by (auto simp: n_def)
    show "fst (oqs_open lib (Some u) r a cap) = Inr p"
      unfolding r(1) oqs_open_parts [OF e(3)] using r(2,3) fresh dec [of c tag] e(2) by auto
  qed
qed

section \<open>No nonce is used twice\<close>

definition sealed_records :: "bytes outcome list \<Rightarrow> bytes list" where
  "sealed_records rs = concat (map (\<lambda>x. case x of Inl e \<Rightarrow> [] | Inr r \<Rightarrow> [r]) rs)"

lemma sealed_records_simps [simp]:
  "sealed_records [] = []" "sealed_records (Inl e # rs) = sealed_records rs"
  "sealed_records (Inr r # rs) = r # sealed_records rs"
  by (simp_all add: sealed_records_def)

text \<open>A seal that is not refused takes the next sequence number, whether it succeeds or not.\<close>

lemma oqs_seal_sequence:
  assumes "oqs_seal lib (Some t) p a cap = (x, c')"
  obtains (refused) e where "x = Inl e" "c' = Some t"
    | (failed) e where "x = Inl e" "c' = Some (t\<lparr>oq_tx_sequence := oq_tx_sequence t + 1\<rparr>)"
    | (sealed) r where "x = Inr r" "read_u64_be (drop 1 r) = oq_tx_sequence t"
        "c' = Some (t\<lparr>oq_tx_sequence := oq_tx_sequence t + 1\<rparr>)"
  using assms read_oqs_header
  by (auto simp: oqs_seal_def Let_def split: if_splits option.splits)

lemma send_all_sequences:
  "send_all (oqs_seal lib) (Some t) ms cap = (rs, c') \<Longrightarrow>
   \<exists>ks. map (\<lambda>r. read_u64_be (drop 1 r)) (sealed_records rs) = map (\<lambda>k. oq_tx_sequence t + word_of_nat k) ks \<and>
     sorted_wrt (<) ks \<and> (\<forall>k \<in> set ks. k < length ms)"
proof (induction ms arbitrary: t rs c')
  case Nil
  then show ?case by (intro exI [of _ "[]"]) simp
next
  case (Cons m ms)
  obtain p a where m: "m = (p, a)" by (cases m)
  obtain x c1 rs' where 1: "oqs_seal lib (Some t) p a cap = (x, c1)" "send_all (oqs_seal lib) c1 ms cap = (rs', c')" "rs = x # rs'"
    using Cons.prems by (auto simp: m split: prod.splits)
  have shift: "map (\<lambda>k. oq_tx_sequence t + 1 + word_of_nat k) ks = map (\<lambda>k. oq_tx_sequence t + word_of_nat k) (map Suc ks)" for ks
    by (simp add: add.assoc)
  from 1(1) show ?case
  proof (cases rule: oqs_seal_sequence)
    case refused
    then obtain ks where "map (\<lambda>r. read_u64_be (drop 1 r)) (sealed_records rs') = map (\<lambda>k. oq_tx_sequence t + word_of_nat k) ks"
        "sorted_wrt (<) ks" "\<forall>k \<in> set ks. k < length ms"
      using Cons.IH [of t rs' c'] 1(2) by auto
    then show ?thesis using 1(3) refused by (intro exI [of _ ks]) auto
  next
    case failed
    then obtain ks where "map (\<lambda>r. read_u64_be (drop 1 r)) (sealed_records rs') = map (\<lambda>k. oq_tx_sequence t + 1 + word_of_nat k) ks"
        "sorted_wrt (<) ks" "\<forall>k \<in> set ks. k < length ms"
      using Cons.IH [of "t\<lparr>oq_tx_sequence := oq_tx_sequence t + 1\<rparr>" rs' c'] 1(2) by auto
    then show ?thesis using 1(3) failed unfolding shift
      by (intro exI [of _ "map Suc ks"]) (auto simp: sorted_wrt_map)
  next
    case (sealed r)
    then obtain ks where "map (\<lambda>r. read_u64_be (drop 1 r)) (sealed_records rs') = map (\<lambda>k. oq_tx_sequence t + 1 + word_of_nat k) ks"
        "sorted_wrt (<) ks" "\<forall>k \<in> set ks. k < length ms"
      using Cons.IH [of "t\<lparr>oq_tx_sequence := oq_tx_sequence t + 1\<rparr>" rs' c'] 1(2) by auto
    then show ?thesis using 1(3) sealed unfolding shift
      by (intro exI [of _ "0 # map Suc ks"]) (auto simp: sorted_wrt_map)
  qed
qed

lemma offset_inj: "inj_on (\<lambda>k. (w :: u64) + word_of_nat k) {..<2 ^ 64}"
proof (rule inj_onI)
  fix j k :: nat assume "j \<in> {..<2 ^ 64}" "k \<in> {..<2 ^ 64}" "w + word_of_nat j = w + word_of_nat k"
  then have "unat (word_of_nat j :: u64) = unat (word_of_nat k :: u64)" "j < 2 ^ 64" "k < 2 ^ 64" by simp_all
  then show "j = k" by (simp add: unat_of_nat take_bit_nat_eq_self)
qed


section \<open>The result codes of a pair\<close>

lemma short_labels:
  "\<not> 96 < length ''adaptive/c2s/key'' + 1" "\<not> 96 < length ''adaptive/s2c/key'' + 1"
  "\<not> 96 < length ''adaptive/c2s/nonce'' + 1" "\<not> 96 < length ''adaptive/s2c/nonce'' + 1"
  by simp_all

lemma hkdf_expand_error:
  "\<not> 96 < length label + 1 \<Longrightarrow> hkdf_expand lib shared transcript label = Inl e \<Longrightarrow> e = ADAPTIVE_ERR_CRYPTO"
  by (auto simp: hkdf_expand_def split: option.splits if_splits)

lemma initialize_contexts_error:
  "initialize_contexts lib c s shared transcript = Inl e \<Longrightarrow> e = ADAPTIVE_ERR_CRYPTO"
  using hkdf_expand_error [OF short_labels(1)] hkdf_expand_error [OF short_labels(2)]
    hkdf_expand_error [OF short_labels(3)] hkdf_expand_error [OF short_labels(4)]
  by (auto simp: initialize_contexts_def outcome_bind_Inl)

text \<open>The hashes succeed and yield at least 32 bytes, as SHA-256 does.\<close>

definition hash_ok :: "crypto_library \<Rightarrow> bool" where
  "hash_ok lib \<longleftrightarrow> (\<forall>d. sha256 lib d \<noteq> None) \<and> (\<forall>k d. \<exists>h. hmac_sha256 lib k d = Some h \<and> 32 \<le> length h)"

lemma hkdf_expand_returns:
  assumes "hash_ok lib" "\<not> 96 < length label + 1"
  shows "\<exists>k. hkdf_expand lib shared transcript label = Inr k"
proof -
  obtain salt where "sha256 lib transcript = Some salt" using assms(1) unfolding hash_ok_def by blast
  moreover obtain prk where "hmac_sha256 lib salt shared = Some prk" using assms(1) unfolding hash_ok_def by blast
  moreover obtain out where "hmac_sha256 lib prk (label_bytes label @ [1]) = Some out" "32 \<le> length out"
    using assms(1) unfolding hash_ok_def by blast
  ultimately show ?thesis using assms(2) by (simp add: hkdf_expand_def not_less)
qed

lemma initialize_contexts_returns:
  assumes "hash_ok lib" shows "\<exists>p. initialize_contexts lib c s shared transcript = Inr p"
proof -
  note k = hkdf_expand_returns [OF assms short_labels(1), of shared transcript]
    hkdf_expand_returns [OF assms short_labels(2), of shared transcript]
    hkdf_expand_returns [OF assms short_labels(3), of shared transcript]
    hkdf_expand_returns [OF assms short_labels(4), of shared transcript]
  then show ?thesis by (auto simp: initialize_contexts_def outcome_bind.simps)
qed


section \<open>Witnesses\<close>

text \<open>A library that keeps the documented laws (and protects nothing).\<close>

definition demo_scheme :: kem_scheme where
  "demo_scheme =
     \<lparr>method_name = ''ML-KEM-512'', length_public_key = 2, length_secret_key = 1, length_ciphertext = 2,
      length_shared_secret = 2, kem_keypair = Some ([4, 5], [6]), kem_encaps = (\<lambda>p. Some (rev p, [1, 2])),
      kem_decaps = (\<lambda>c k. Some [1, 2])\<rparr>"

definition demo_library :: crypto_library where
  "demo_library =
     \<lparr>sha256 = (\<lambda>d. Some (replicate 32 7)), hmac_sha256 = (\<lambda>k d. Some (replicate 32 (last d + 3 + hd k))),
      gcm_encrypt = (\<lambda>k n a p. Some (map (\<lambda>b. b XOR hd k) p, replicate 16 9)),
      gcm_decrypt = (\<lambda>k n a c t. if t = replicate 16 9 then Some (map (\<lambda>b. b XOR hd k) c) else None),
      kem_new = (\<lambda>a. if a = ''ML-KEM-512'' then Some demo_scheme else None), default_algorithm = ''ML-KEM-512''\<rparr>"

lemma map_xor_twice: "map (\<lambda>b. b XOR x) c = p \<longleftrightarrow> map (\<lambda>b. b XOR x) p = (c :: bytes)"
  by (auto simp: map_idI xor.assoc)

lemma demo_library_ok: "gcm_ok demo_library" "hash_ok demo_library"
  using map_xor_twice by (auto simp: gcm_ok_def hash_ok_def demo_library_def)

lemma demo_pair:
  "\<exists>client server info. adaptive_security_oqs_pair demo_library True True None True = Inr (client, server, info)"
proof -
  have "agree demo_scheme = Some ([1, 2], [5, 4])" by (simp add: agree_def demo_scheme_def)
  moreover have "kem_new demo_library (default_algorithm demo_library) = Some demo_scheme" by (simp add: demo_library_def)
  ultimately show ?thesis
    using initialize_contexts_returns [OF demo_library_ok(2), of zero_oqs_context zero_oqs_context "[1, 2]" "[5, 4]"]
    by (auto simp: adaptive_security_oqs_pair_def outcome_bind.simps)
qed

lemma oqs_pair_delivers_witness:
  "\<exists>client server info rs c' s'.
    adaptive_security_oqs_pair demo_library True True None True = Inr (client, server, info) \<and>
    send_all (oqs_seal demo_library) (sess_context client) [([1, 2], [9]), ([], [])] 40 = (map Inr rs, c') \<and>
    map length rs = [27, 25] \<and>
    receive_all (oqs_open demo_library) (sess_context server) (zip rs [[9], []]) 2 = ([Inr [1, 2], Inr []], s')"
proof -
  obtain client server info where
    pair: "adaptive_security_oqs_pair demo_library True True None True = Inr (client, server, info)"
    using demo_pair by blast
  show ?thesis
    using oqs_pair_delivers [OF demo_library_ok(1) pair disjI1 [OF refl], of "[([1, 2], [9]), ([], [])]" 40 2] pair
    by (fastforce simp: security_constants INT_MAX_def)
qed

definition demo_context :: oqs_context where
  "demo_context = zero_oqs_context\<lparr>oq_tx_key := replicate 32 5, oq_rx_key := replicate 32 5\<rparr>"

lemma oqs_open_exact_witness:
  "fst (oqs_open demo_library (Some demo_context) (oqs_header 0 @ [4] @ replicate 16 9) [] 10) = Inr [1] \<and>
   fst (oqs_open demo_library (Some demo_context) (oqs_header 0 @ [4] @ replicate 16 8) [] 10) \<noteq> Inr [1]"
proof -
  have c: "length (oq_rx_key demo_context) = 32" "length (rx_nonce_base demo_context) = 12"
    "oq_tx_key demo_context = oq_rx_key demo_context" "tx_nonce_base demo_context = rx_nonce_base demo_context"
    by (simp_all add: demo_context_def zero_oqs_context_def)
  have "fst (oqs_seal demo_library (Some (demo_context\<lparr>oq_tx_sequence := 0\<rparr>)) [1] [] (length [1 :: u8] + 25)) =
      Inr (oqs_header 0 @ [4] @ replicate 16 9)" "\<not> oq_rx_initialized demo_context"
    by (simp_all add: oqs_seal_def demo_library_def demo_context_def zero_oqs_context_def INT_MAX_def security_constants Let_def)
  moreover have "oqs_header 0 @ [4] @ replicate 16 9 \<noteq> oqs_header 0 @ [4] @ replicate 16 (8 :: u8)" by simp
  ultimately show ?thesis
    using oqs_open_exact [OF demo_library_ok(1) c, of "oqs_header 0 @ [4] @ replicate 16 9" "[]" 10 "[1]", unfolded read_oqs_header]
      oqs_open_exact [OF demo_library_ok(1) c, of "oqs_header 0 @ [4] @ replicate 16 8" "[]" 10 "[1]", unfolded read_oqs_header]
    by (auto simp del: append_Cons append_Nil)
qed



end
