(* ===== verification/Demo_Delivery.thy ===== *)
theory Demo_Delivery
  imports Demo_Metrics Silent_Window Oqs_Properties
begin

text \<open>
  The demonstration program runs to its end: every step is delivered through the loopback
  transport, over the test provider and over the production provider.
\<close>

declare One_nat_def [simp del]

section \<open>The steps\<close>

text \<open>The rows of a run that starts with the given step and window id.\<close>

definition rows_complete :: "nat \<Rightarrow> u32 \<Rightarrow> nat \<Rightarrow> step_row list \<Rightarrow> bool" where
  "rows_complete step wid n rows \<longleftrightarrow>
     length rows = n \<and>
     (\<forall>i < n. row_step (rows ! i) = step + i \<and> st_window_id (row_stats (rows ! i)) = wid + word_of_nat i \<and>
        st_state (row_stats (rows ! i)) < 5 \<and> compressed_bytes (row_stats (rows ! i)) \<le> 1052)"

lemma rows_complete_Cons:
  assumes "rows_complete (step + 1) (wid + 1) n rows" "row_step row = step" "st_window_id (row_stats row) = wid"
    "st_state (row_stats row) < 5" "compressed_bytes (row_stats row) \<le> 1052"
  shows "rows_complete step wid (Suc n) (row # rows)"
  unfolding rows_complete_def
proof (intro conjI allI impI)
  show "length (row # rows) = Suc n" using assms(1) by (simp add: rows_complete_def)
next
  fix i assume "i < Suc n"
  then show "row_step ((row # rows) ! i) = step + i" "st_window_id (row_stats ((row # rows) ! i)) = wid + word_of_nat i"
      "st_state (row_stats ((row # rows) ! i)) < 5" "compressed_bytes (row_stats ((row # rows) ! i)) \<le> 1052"
    using assms by (cases i; auto simp: rows_complete_def)+
qed

lemma length_generate_signal [simp]: "length (generate_signal tr n step) = n"
  by (simp add: generate_signal_def)

definition signals_ok :: "libm \<Rightarrow> trig \<Rightarrow> adaptive_config \<Rightarrow> nat \<Rightarrow> bool" where
  "signals_ok m tr c steps \<longleftrightarrow> (\<forall>step < steps. window_ok m c (generate_signal tr (window_size c) step))"

context record_layer
begin

lemma run_steps_delivers:
  assumes m: "libm_ok m" and sig: "signals_ok m tr c steps"
  shows "step + n = steps \<Longrightarrow> pipeline_ready seal opn overhead synced (1088 * n + k) p l \<Longrightarrow> pl_config p = c \<Longrightarrow>
    \<exists>rows p' l'. run_steps m tr c steps step p l = (ADAPTIVE_OK, rows, p', l') \<and>
      rows_complete step (next_window_id p) n rows \<and> pipeline_ready seal opn overhead synced k p' l' \<and>
      complete_windows l' = complete_windows l + n"
proof (induction n arbitrary: step p l)
  case 0
  then show ?case by (simp add: run_steps.simps rows_complete_def)
next
  case (Suc n)
  have ready: "pipeline_ready seal opn overhead synced (1088 + (1088 * n + k)) p l" using Suc.prems(2) by (simp add: algebra_simps)
  define xs where "xs = generate_signal tr (window_size c) step"
  have xs: "window_ok m (pl_config p) xs" "length xs = window_size c"
    using sig Suc.prems by (simp_all add: signals_ok_def xs_def)
  obtain stats p' l' where r: "adaptive_pipeline_process m (Some p) (Some xs) (window_size c)
        (Some (generate_network_parameters step)) (Some loopback_send) l = (Inr stats, Some p', l')"
      "window_done xs stats p p' l l'" "pipeline_ready seal opn overhead synced (1088 * n + k) p' l'"
    using process_delivers [OF m generated_sane ready xs(1)] xs(2) by metis
  note d = r(2) [unfolded window_done_def]
  obtain rows p2 l2 where s: "run_steps m tr c steps (step + 1) p' l' = (ADAPTIVE_OK, rows, p2, l2)"
      "rows_complete (step + 1) (next_window_id p + 1) n rows" "pipeline_ready seal opn overhead synced k p2 l2"
      "complete_windows l2 = complete_windows l' + n"
    using Suc.IH [OF _ r(3), of "step + 1"] Suc.prems(1,3) d by auto
  define row where "row = \<lparr>row_step = step, row_stats = stats, row_error = rmse xs (lb_samples l') (window_size c)\<rparr>"
  have "run_steps m tr c steps step p l = (ADAPTIVE_OK, row # rows, p2, l2)"
    using Suc.prems(1) r(1) s(1) d xs(2)
    by (subst run_steps.simps) (simp add: xs_def [symmetric] row_def Let_def)
  moreover have "rows_complete step (next_window_id p) (Suc n) (row # rows)"
    by (rule rows_complete_Cons [OF s(2)]) (use d in \<open>simp_all add: row_def\<close>)
  ultimately show ?case using s(3,4) d by (intro exI [of _ "row # rows"] exI [of _ p2] exI [of _ l2]) simp
qed

end

section \<open>The run of a pair of sessions\<close>

text \<open>What the run needs of the configuration.\<close>

definition demo_config_ok :: "libm \<Rightarrow> trig \<Rightarrow> adaptive_config \<Rightarrow> nat \<Rightarrow> bool" where
  "demo_config_ok m tr c steps \<longleftrightarrow>
     hmm_config_ok c \<and> sendable ADAPTIVE_SECURITY_OVERHEAD c \<and> dbl_in 0 1 (baseline_alpha c) \<and>
     dbl_in 0 1 (baseline_epsilon c) \<and> 0 < fval (baseline_epsilon c) \<and> signals_ok m tr c steps"

lemma run_program_delivers:
  assumes layer: "record_layer sealf openf ADAPTIVE_SECURITY_OVERHEAD fits synced"
    and m: "libm_ok m" and c: "demo_config_ok m tr c steps"
    and ses: "sess_seal client = Some sealf" "sess_overhead client = ADAPTIVE_SECURITY_OVERHEAD" "sess_open server = Some openf"
    and sync: "synced (1088 * steps) (sess_context client) (sess_context server)"
  shows "\<exists>rows. run_program m tr c steps client server = (ADAPTIVE_OK, rows, Some zero_session, Some zero_session) \<and>
    rows_complete 0 1 steps rows"
proof -
  note cc = c [unfolded demo_config_ok_def]
  define r where "r = the (adaptive_receiver_init (Some (lb_receiver zero_loopback)) (Some server))"
  define l where "l = zero_loopback\<lparr>lb_receiver := r\<rparr>"
  have r: "adaptive_receiver_init (Some (lb_receiver zero_loopback)) (Some server) = Some r"
    by (simp add: r_def adaptive_receiver_init_def)
  have pos: "0 < ADAPTIVE_SECURITY_OVERHEAD" by (simp add: security_constants)
  obtain p where p: "adaptive_pipeline_init True (Some c) (Some client) = Inr p" "pl_config p = c" "next_window_id p = 1"
      "pipeline_ready sealf openf ADAPTIVE_SECURITY_OVERHEAD synced (1088 * steps + 0) p l"
    using pipeline_init_ready [where synced = synced and c = c and ss = "replicate ADAPTIVE_MAX_WINDOW fzero" and n = 0 and md = None and w = 0,
        OF ses(1,2) pos ses(3) sync _ _ _ _ _ r] cc
    by (auto simp: l_def zero_loopback_def)
  obtain rows p' l' where run: "run_steps m tr c steps 0 p l = (ADAPTIVE_OK, rows, p', l')"
      "rows_complete 0 1 steps rows" "pipeline_ready sealf openf ADAPTIVE_SECURITY_OVERHEAD synced 0 p' l'"
    using record_layer.run_steps_delivers [OF layer m, of tr c steps 0 steps 0 p l] cc p by auto
  obtain ss rs where "pl_security p' = Some ss" "rv_security (lb_receiver l') = Some rs"
    using run(3) by (auto simp: pipeline_ready_def linked_def)
  then show ?thesis
    using p(1) run(1,2)
    by (simp add: run_program_def l_def r_def Let_def adaptive_security_session_destroy_def adaptive_security_session_reset_def)
qed

section \<open>The program\<close>

lemma parse_steps_small: "parse_arguments args opts0 = Some opts \<Longrightarrow> opt_steps opts0 < 2 ^ 32 \<Longrightarrow> opt_steps opts < 2 ^ 32"
  by (induction args opts0 rule: parse_arguments.induct) (auto split: if_splits option.splits prod.splits)

lemma default_steps: "parse_arguments args default_options = Some opts \<Longrightarrow> 1088 * opt_steps opts < 2 ^ 64"
  using parse_steps_small [of args default_options opts] by (simp add: default_options_def)



section \<open>A silent run\<close>

definition zero_trig :: trig where
  "zero_trig = \<lparr>m_sin = (\<lambda>_. dzero), m_cos = (\<lambda>_. dzero)\<rparr>"

lemma silent_signal: "generate_signal zero_trig n step = replicate n fzero"
proof -
  have c: "fisfinite (ddec 15 2)" "fisfinite (ddec 30 2)" "fisfinite (ddec 5 2)"
    using ddec_facts(1) [of 15 2] ddec_facts(1) [of 30 2] ddec_facts(1) [of 5 2] by (simp_all add: number_def)
  obtain s t u where "dmul (ddec 15 2) dzero = Fin s 0 (-1074)" "dmul (ddec 30 2) dzero = Fin t 0 (-1074)"
      "dmul (ddec 5 2) dzero = Fin u 0 (-1074)"
    using dmul_dzero c by metis
  then have "generate_sample zero_trig n step i = fzero" for i
    by (simp add: generate_sample_def zero_trig_def Let_def zero_operations del: fadd.simps fmul.simps fdiv.simps fcvt.simps)
  then show ?thesis by (simp add: generate_signal_def list_eq_iff_nth_eq)
qed

lemma default_demo_config: "demo_config_ok zero_libm zero_trig default_config steps"
proof -
  have five: "s < 5 \<Longrightarrow> s \<in> {0, 1, 2, 3, 4}" for s :: nat by auto
  have blocks: "\<forall>s < 5. ADAPTIVE_SECURITY_OVERHEAD < adaptive_coap_block_size (block_szx default_config ! s)"
  proof (intro allI impI)
    fix s :: nat assume "s < 5"
    then show "ADAPTIVE_SECURITY_OVERHEAD < adaptive_coap_block_size (block_szx default_config ! s)"
      using five [of s] by (auto simp: default_fields adaptive_coap_block_size_def push_bit_eq_mult security_constants)
  qed
  have uri: "path_segments (uri_path default_config) \<noteq> []" by (simp add: default_fields path_segments_def)
  have "sendable ADAPTIVE_SECURITY_OVERHEAD default_config"
    by (rule validated_sendable [OF default_shape default_valid blocks uri])
  moreover have "dbl_in 0 1 (baseline_alpha default_config)" "dbl_in 0 1 (baseline_epsilon default_config)"
    "0 < fval (baseline_epsilon default_config)"
    by (simp_all add: default_fields unit_ddec ddec_lower)
  ultimately show ?thesis
    using default_hmm_config silent_window_ok [OF default_window_parameters] by (simp add: demo_config_ok_def signals_ok_def silent_signal)
qed

lemma empty_file_loads:
  "adaptive_config_load (adaptive_config_defaults (Some c)) (Some p) (Some 160) (Some ([], False)) = (ADAPTIVE_OK, None, Some default_config)"
  using default_valid by (simp add: adaptive_config_load_def defaults_Some file_lines.simps)



section \<open>The command line\<close>

text \<open>The options of the usage message, as they are written and what they set.\<close>

datatype argument = Config_Path string | Steps string | Oqs "string option"

fun argument_words :: "argument \<Rightarrow> string list" where
  "argument_words (Config_Path p) = [''--config'', p]"
| "argument_words (Steps n) = [''--steps'', n]"
| "argument_words (Oqs None) = [''--oqs'']"
| "argument_words (Oqs (Some a)) = [''--oqs'', a]"

fun argument_ok :: "argument \<Rightarrow> bool" where
  "argument_ok (Config_Path p) = True"
| "argument_ok (Steps n) = (case strtoul n of Some (parsed, end_ptr, errno) \<Rightarrow> end_ptr = [] \<and> 0 < parsed | None \<Rightarrow> False)"
| "argument_ok (Oqs None) = True"
| "argument_ok (Oqs (Some a)) = (take 1 a \<noteq> ''-'')"

fun set_option :: "options \<Rightarrow> argument \<Rightarrow> options" where
  "set_option opts (Config_Path p) = opts\<lparr>config_path := p\<rparr>"
| "set_option opts (Steps n) = opts\<lparr>opt_steps := fst (the (strtoul n)) mod 2 ^ 32\<rparr>"
| "set_option opts (Oqs None) = opts\<lparr>use_oqs := True\<rparr>"
| "set_option opts (Oqs (Some a)) = opts\<lparr>use_oqs := True, oqs_algorithm := Some a\<rparr>"

lemma parse_argument_words:
  "\<forall>a \<in> set as. argument_ok a \<Longrightarrow> parse_arguments (concat (map argument_words as)) opts = Some (foldl set_option opts as)"
proof (induction "as" arbitrary: opts)
  case (Cons a as)
  have dash: "concat (map argument_words as) \<noteq> [] \<Longrightarrow> take 1 (hd (concat (map argument_words as))) = ''-''"
  proof (cases "as")
    case (Cons b bs)
    then show ?thesis by (cases b rule: argument_words.cases) (simp_all add: One_nat_def)
  qed simp
  show ?case
    by (cases a rule: argument_words.cases) (use Cons dash in \<open>auto split: option.splits prod.splits\<close>)
qed simp

lemma parse_arguments_words:
  "parse_arguments args opts = Some opts' \<Longrightarrow>
   \<exists>as. args = concat (map argument_words as) \<and> (\<forall>a \<in> set as. argument_ok a) \<and> opts' = foldl set_option opts as"
proof (induction args opts rule: parse_arguments.induct)
  case (1 opts)
  then show ?case by (intro exI [of _ "[]"]) simp
next
  case (2 a rest opts)
  have add: "\<exists>as. a # rest = concat (map argument_words as) \<and> (\<forall>a \<in> set as. argument_ok a) \<and> opts' = foldl set_option opts as"
    if x: "a # rest = argument_words x @ rest'" "argument_ok x"
      and ex: "\<exists>as. rest' = concat (map argument_words as) \<and> (\<forall>a \<in> set as. argument_ok a) \<and> opts' = foldl set_option (set_option opts x) as"
    for x rest'
  proof -
    obtain as' where "rest' = concat (map argument_words as')" "\<forall>a \<in> set as'. argument_ok a" "opts' = foldl set_option (set_option opts x) as'"
      using ex by blast
    then show ?thesis using x by (intro exI [of _ "x # as'"]) simp
  qed
  consider (config) "a = ''--config''" "rest \<noteq> []" | (number) "a = ''--steps''" "rest \<noteq> []"
    | (named) "a = ''--oqs''" "rest \<noteq> []" "take 1 (hd rest) \<noteq> ''-''" | (alone) "a = ''--oqs''" "\<not> (rest \<noteq> [] \<and> take 1 (hd rest) \<noteq> ''-'')"
    using 2(5) by (force split: if_splits)
  then show ?case
  proof cases
    case config
    then show ?thesis using 2 by (intro add [of "Config_Path (hd rest)" "tl rest"]) simp_all
  next
    case number
    then obtain n e where n: "strtoul (hd rest) = Some (n, [], e)" "0 < n" "parse_arguments (tl rest) (opts\<lparr>opt_steps := n mod 2 ^ 32\<rparr>) = Some opts'"
      using 2(5) by (auto split: option.splits prod.splits if_splits)
    then show ?thesis using 2(2) number by (intro add [of "Steps (hd rest)" "tl rest"]) simp_all
  next
    case named
    then show ?thesis using 2 by (intro add [of "Oqs (Some (hd rest))" "tl rest"]) simp_all
  next
    case alone
    then show ?thesis using 2 by (intro add [of "Oqs None" rest]) auto
  qed
qed

text \<open>
  C40: The command line. The loop over the arguments accepts exactly the sequences of the options of
  the usage message, in any order and number, where the word after
  \<open>--steps\<close> is one that \<open>strtoul\<close> reads to its end and not as zero; later options override
  earlier ones, and the number of steps is kept modulo \<open>2^32\<close>. Everything else is refused.
\<close>

theorem arguments_grammar:
  "parse_arguments args opts = Some opts' \<longleftrightarrow>
   (\<exists>as. args = concat (map argument_words as) \<and> list_all argument_ok as \<and> opts' = foldl set_option opts as)"
  unfolding list_all_iff using parse_arguments_words parse_argument_words by metis

end
