(* ===== verification/Contiki_Port.thy ===== *)
theory Contiki_Port
  imports Metrics
begin

text \<open>
  \<^verbatim>\<open>platform/contiki-ng/contiki-port.h\<close> and \<^verbatim>\<open>contiki-port.c\<close>: the observer that turns the
  outcome of every CoAP exchange into network metrics, and the hooks a board may override.
  \<open>clock_second\<close> is Contiki's \<open>CLOCK_SECOND\<close>, a time is a number of clock ticks.
\<close>

record contiki_observer =
  loss_ewma :: double
  retry_ewma :: double
  rtt_ms_ewma :: double
  goodput_bps_ewma :: double
  consecutive_failures :: u32
  ob_initialized :: bool

definition zero_observer :: contiki_observer where
  "zero_observer =
     \<lparr>loss_ewma = dzero, retry_ewma = dzero, rtt_ms_ewma = dzero, goodput_bps_ewma = dzero,
      consecutive_failures = 0, ob_initialized = False\<rparr>"

definition adaptive_contiki_observer_init :: "contiki_observer option \<Rightarrow> contiki_observer option" where
  "adaptive_contiki_observer_init observer = map_option (\<lambda>_. zero_observer) observer"

definition PORT_EWMA_ALPHA :: double where "PORT_EWMA_ALPHA = ddec 125 3"

definition ewma :: "double \<Rightarrow> double \<Rightarrow> bool \<Rightarrow> double" where
  "ewma previous sample initialized =
     (if initialized
      then dadd (dmul (dsub (ddec 10 1) PORT_EWMA_ALPHA) previous) (dmul PORT_EWMA_ALPHA sample)
      else sample)"

definition adaptive_contiki_observer_record ::
    "nat \<Rightarrow> contiki_observer option \<Rightarrow> nat \<Rightarrow> bool \<Rightarrow> nat \<Rightarrow> contiki_observer option" where
  "adaptive_contiki_observer_record clock_second observer elapsed0 success payload_bytes =
     map_option (\<lambda>o1.
       let elapsed = (if elapsed0 = 0 then 1 else elapsed0);
           rtt_ms = ddiv (dmul (ddec 10000 1) (dint (int elapsed))) (dint (int clock_second));
           goodput = (if success
             then ddiv (dmul (dmul (ddec 80 1) (dint (int payload_bytes))) (dint (int clock_second))) (dint (int elapsed))
             else dzero);
           ready = ob_initialized o1;
           o2 = o1\<lparr>loss_ewma := ewma (loss_ewma o1) (if success then dzero else ddec 10 1) ready,
                   rtt_ms_ewma := ewma (rtt_ms_ewma o1) rtt_ms ready,
                   goodput_bps_ewma := ewma (goodput_bps_ewma o1) goodput ready,
                   consecutive_failures := (if success then 0 else consecutive_failures o1 + 1)\<rparr>
       in o2\<lparr>retry_ewma := ewma (retry_ewma o2) (if 0 < consecutive_failures o2 then ddec 10 1 else dzero) ready,
             ob_initialized := True\<rparr>) observer"

text \<open>The hooks: the two ratios and the reading of a sensor window.\<close>

record platform =
  queue_ratio :: double
  mac_retry_ratio :: double
  read_window :: "nat \<Rightarrow> u32 \<Rightarrow> float32 list"

definition adaptive_contiki_metrics_snapshot ::
    "platform \<Rightarrow> contiki_observer option \<Rightarrow> network_metrics option \<Rightarrow> network_metrics option" where
  "adaptive_contiki_metrics_snapshot pf observer metrics =
     (case (observer, metrics) of
        (Some o1, Some _) \<Rightarrow>
          Some [queue_ratio pf, loss_ewma o1, rtt_ms_ewma o1, dadd (retry_ewma o1) (mac_retry_ratio pf), goodput_bps_ewma o1]
      | _ \<Rightarrow> metrics)"

text \<open>The defaults: no ratios are known, and the window is a triangle of period 32.\<close>

definition adaptive_platform_queue_ratio :: double where "adaptive_platform_queue_ratio = dzero"

definition adaptive_platform_mac_retry_ratio :: double where "adaptive_platform_mac_retry_ratio = dzero"

definition triangle_sample :: "nat \<Rightarrow> float32" where
  "triangle_sample phase =
     (if phase < 16 then fdiv binary32 (fof_int binary32 (int phase)) (fof_int binary32 16)
      else fdiv binary32 (fof_int binary32 (int (32 - phase))) (fof_int binary32 16))"

definition adaptive_platform_read_window :: "nat \<Rightarrow> u32 \<Rightarrow> float32 list" where
  "adaptive_platform_read_window sample_count window_id = map (\<lambda>i. triangle_sample (i mod 32)) [0..<sample_count]"

definition default_platform :: platform where
  "default_platform =
     \<lparr>queue_ratio = adaptive_platform_queue_ratio, mac_retry_ratio = adaptive_platform_mac_retry_ratio,
      read_window = adaptive_platform_read_window\<rparr>"

end
