(* ===== verification/Contiki_Server.thy ===== *)
theory Contiki_Server
  imports Receiver Security_Test
begin

text \<open>
  \<^verbatim>\<open>platform/contiki-ng/adaptive-server.c\<close>: the CoAP resource that receives windows on a
  Contiki node. What Contiki's CoAP engine has parsed is the record \<open>coap_request\<close>, what the
  handler sets in the response is \<open>coap_reply\<close>; the static variables are \<open>server_state\<close>. The
  handler repeats the receiver's logic by hand, and the last section shows that it keeps the
  same state as the receiver of the library.
\<close>

record coap_request =
  rq_type :: u8
  rq_code :: u8
  rq_token :: bytes                                     \<comment> \<open>eight bytes, \<open>rq_token_len\<close> of them used\<close>
  rq_token_len :: nat
  rq_block1 :: "(u32 \<times> u8 \<times> nat) option"                \<comment> \<open>number, more, size; \<open>None\<close>: no option\<close>
  rq_content_format :: "u32 option"
  rq_payload :: "bytes option"

datatype coap_status = BAD_REQUEST_4_00 | UNAUTHORIZED_4_01 | REQUEST_ENTITY_INCOMPLETE_4_08 | CONTINUE_2_31 | CHANGED_2_04

record coap_reply =
  rp_status :: coap_status
  rp_block1 :: "(u32 \<times> u8 \<times> nat) option"

record 'c server_state =
  server_security :: "'c security_session"
  sv_representation :: bytes                            \<comment> \<open>with \<open>representation_length\<close>\<close>
  sv_next_block :: u32
  active_token :: bytes
  active_token_length :: nat
  transfer_active :: bool

definition szx_from_size :: "nat \<Rightarrow> u8 outcome" where
  "szx_from_size bsize =
     (case filter (\<lambda>candidate. adaptive_coap_block_size (word_of_nat candidate) = bsize) [0..<7] of
        [] \<Rightarrow> Inl ADAPTIVE_ERR_RANGE
      | candidate # _ \<Rightarrow> Inr (word_of_nat candidate))"

text \<open>The block the additional data is built from.\<close>

definition request_block :: "coap_request \<Rightarrow> u32 \<Rightarrow> u8 \<Rightarrow> u8 \<Rightarrow> coap_block" where
  "request_block rq number more_blocks z =
     zero_block\<lparr>cb_type := rq_type rq, cb_code := rq_code rq, token_length := rq_token_len rq,
       token := take (rq_token_len rq) (rq_token rq) @ drop (rq_token_len rq) (token zero_block),
       block_number := number, more_flag := more_blocks, szx := z,
       content_format := (case rq_content_format rq of Some c \<Rightarrow> c | None \<Rightarrow> 0)\<rparr>"

text \<open>The start of a transfer in the handler.\<close>

definition server_start_transfer :: "coap_request \<Rightarrow> u32 \<Rightarrow> 'c server_state \<Rightarrow> 'c server_state" where
  "server_start_transfer rq number sv =
     (if number = 0
      then sv\<lparr>sv_representation := [], sv_next_block := 0, active_token_length := rq_token_len rq,
              active_token := take (rq_token_len rq) (rq_token rq) @ drop (rq_token_len rq) (active_token sv),
              transfer_active := True\<rparr>
      else sv)"

text \<open>The negation of the handler's check for 4.08.\<close>

definition continues_transfer :: "coap_request \<Rightarrow> u32 \<Rightarrow> 'c server_state \<Rightarrow> bool" where
  "continues_transfer rq number sv \<longleftrightarrow>
     transfer_active sv \<and> number = sv_next_block sv \<and> rq_token_len rq = active_token_length sv \<and>
     take (active_token_length sv) (rq_token rq) = take (active_token_length sv) (active_token sv)"

text \<open>
  The handler: the reply, the state it leaves and the window it decoded, if any (it logs its
  metadata).
\<close>

definition telemetry_post_handler ::
    "coap_request \<Rightarrow> 'c server_state \<Rightarrow> coap_reply \<times> 'c server_state \<times> (float32 list \<times> codec_metadata) option" where
  "telemetry_post_handler rq sv =
     (let reply = (\<lambda>status. \<lparr>rp_status = status, rp_block1 = None\<rparr>)
      in case (rq_block1 rq, rq_payload rq) of
        (Some (number, more_blocks, bsize), Some pl) \<Rightarrow>
          (case szx_from_size bsize of
             Inl _ \<Rightarrow> (reply BAD_REQUEST_4_00, sv, None)
           | Inr z \<Rightarrow>
               if length pl = 0 \<or> rq_token_len rq = 0 \<or> 8 < rq_token_len rq
               then (reply BAD_REQUEST_4_00, sv, None)
               else
                 let block = request_block rq number more_blocks z;
                     aad = adaptive_pipeline_build_aad (Some block) True;
                     sv1 = server_start_transfer rq number sv
                 in if \<not> continues_transfer rq number sv1
                    then (reply REQUEST_ENTITY_INCOMPLETE_4_08, sv1, None)
                    else
                      let (opened, security) =
                            adaptive_security_open (Some (server_security sv1)) (Some pl) (length pl) (Some aad) 16
                              True ADAPTIVE_MAX_BLOCK_SIZE True;
                          sv2 = sv1\<lparr>server_security := the security\<rparr>
                      in case opened of
                           Inl _ \<Rightarrow> (reply UNAUTHORIZED_4_01, sv2, None)
                         | Inr plaintext \<Rightarrow>
                             if ADAPTIVE_MAX_REPRESENTATION - length (sv_representation sv2) < length plaintext
                             then (reply UNAUTHORIZED_4_01, sv2, None)
                             else
                               let sv3 = sv2\<lparr>sv_representation := sv_representation sv2 @ plaintext,
                                             sv_next_block := sv_next_block sv2 + 1\<rparr>;
                                   answer = (\<lambda>status. \<lparr>rp_status = status, rp_block1 = Some (number, more_blocks, bsize)\<rparr>)
                               in if more_blocks \<noteq> 0 then (answer CONTINUE_2_31, sv3, None)
                                  else case adaptive_codec_decode (Some (sv_representation sv3)) True ADAPTIVE_MAX_WINDOW True of
                                    Inl _ \<Rightarrow> (answer BAD_REQUEST_4_00, sv3, None)
                                  | Inr w \<Rightarrow> (answer CHANGED_2_04, sv3\<lparr>transfer_active := False\<rparr>, Some w))
      | _ \<Rightarrow> (reply BAD_REQUEST_4_00, sv, None))"

definition ADAPTIVE_TEST_SEED :: u64 where "ADAPTIVE_TEST_SEED = 0x6c6f7770616e2026"

text \<open>The start of the process; \<open>None\<close>: it exits. The static variables start at zero.\<close>

definition server_start :: "bool \<Rightarrow> bool \<Rightarrow> test_context server_state option" where
  "server_start client_alloc server_alloc =
     (case adaptive_security_test_pair True True ADAPTIVE_TEST_SEED client_alloc server_alloc of
        Inl _ \<Rightarrow> None
      | Inr (unused_client_security, security) \<Rightarrow>
          Some \<lparr>server_security = security, sv_representation = [], sv_next_block = 0,
            active_token = replicate 8 0, active_token_length = 0, transfer_active = False\<rparr>)"

section \<open>The handler is the receiver\<close>

text \<open>The receiver that holds the same transfer.\<close>

definition receiver_of :: "'c server_state \<Rightarrow> 'c adaptive_receiver" where
  "receiver_of sv =
     \<lparr>rv_security = Some (server_security sv), representation = sv_representation sv, next_block = sv_next_block sv,
      rv_token = active_token sv, rv_token_length = active_token_length sv, rv_active = transfer_active sv\<rparr>"

text \<open>A request with the options the handler insists on, and the block it stands for.\<close>

definition acceptable :: "coap_request \<Rightarrow> bool" where
  "acceptable rq \<longleftrightarrow>
     (case (rq_block1 rq, rq_payload rq) of
        (Some (number, more_blocks, bsize), Some pl) \<Rightarrow>
          \<not> isl (szx_from_size bsize) \<and> pl \<noteq> [] \<and> 0 < rq_token_len rq \<and> rq_token_len rq \<le> 8
      | _ \<Rightarrow> False)"

definition block_of :: "coap_request \<Rightarrow> coap_block" where
  "block_of rq =
     (case (rq_block1 rq, rq_payload rq) of
        (Some (number, more_blocks, bsize), Some pl) \<Rightarrow>
          (case szx_from_size bsize of
             Inr z \<Rightarrow> (request_block rq number more_blocks z)\<lparr>payload := Some pl, payload_length := length pl\<rparr>
           | Inl _ \<Rightarrow> zero_block)
      | _ \<Rightarrow> zero_block)"

lemma acceptableE:
  assumes "acceptable rq"
  obtains number more_blocks bsize pl z where "rq_block1 rq = Some (number, more_blocks, bsize)"
    "rq_payload rq = Some pl" "szx_from_size bsize = Inr z" "pl \<noteq> []" "0 < rq_token_len rq" "rq_token_len rq \<le> 8"
  using assms by (auto simp: acceptable_def isl_def split: option.splits prod.splits sum.splits) (metis sum.exhaust)

lemma unacceptable_answer:
  "\<not> acceptable rq \<Longrightarrow>
   telemetry_post_handler rq sv = (\<lparr>rp_status = BAD_REQUEST_4_00, rp_block1 = None\<rparr>, sv, None)"
  by (auto simp: acceptable_def telemetry_post_handler_def Let_def split: option.splits prod.splits sum.splits if_splits)

lemma security_open_session:
  obtains x s' where "adaptive_security_open (Some s) r n a l ok cap ok' = (x, Some s')"
  by (cases "adaptive_security_open (Some s) r n a l ok cap ok'")
    (auto simp: adaptive_security_open_def split: option.splits if_splits prod.splits)

lemma receiver_of_simps [simp]:
  "rv_security (receiver_of sv) = Some (server_security sv)" "representation (receiver_of sv) = sv_representation sv"
  "next_block (receiver_of sv) = sv_next_block sv" "rv_token (receiver_of sv) = active_token sv"
  "rv_token_length (receiver_of sv) = active_token_length sv" "rv_active (receiver_of sv) = transfer_active sv"
  by (simp_all add: receiver_of_def)

lemma receiver_of_updates [simp]:
  "receiver_of (sv\<lparr>server_security := x\<rparr>) = (receiver_of sv)\<lparr>rv_security := Some x\<rparr>"
  "receiver_of (sv\<lparr>sv_representation := b\<rparr>) = (receiver_of sv)\<lparr>representation := b\<rparr>"
  "receiver_of (sv\<lparr>sv_next_block := n\<rparr>) = (receiver_of sv)\<lparr>next_block := n\<rparr>"
  "receiver_of (sv\<lparr>transfer_active := a\<rparr>) = (receiver_of sv)\<lparr>rv_active := a\<rparr>"
  by (simp_all add: receiver_of_def)

lemma request_block_simps [simp]:
  "cb_type (request_block rq n m z) = rq_type rq" "block_number (request_block rq n m z) = n"
  "more_flag (request_block rq n m z) = m" "token_length (request_block rq n m z) = rq_token_len rq"
  "token (request_block rq n m z) = take (rq_token_len rq) (rq_token rq) @ drop (rq_token_len rq) (replicate 8 0)"
  by (simp_all add: request_block_def zero_block_def)

lemma receiver_of_start [simp]:
  assumes "rq_block1 rq = Some (n, m, bsize)" "rq_payload rq = Some pl" "szx_from_size bsize = Inr z"
    and "length (rq_token rq) = 8" "rq_token_len rq \<le> 8"
  shows "receiver_of (server_start_transfer rq n sv) = start_transfer (receiver_of sv) (block_of rq)"
    and "expected_block (receiver_of sv) (block_of rq) = continues_transfer rq n sv"
  using assms
  by (auto simp: server_start_transfer_def start_transfer_def block_of_def expected_block_def continues_transfer_def receiver_of_def min_def)

text \<open>What the answer says of the result of the receiver.\<close>

definition answer_of ::
    "bool \<Rightarrow> (float32 list \<times> codec_metadata) option outcome \<Rightarrow> coap_status \<Rightarrow> bool" where
  "answer_of expected result status \<longleftrightarrow>
     (if \<not> expected then status = REQUEST_ENTITY_INCOMPLETE_4_08 \<and> result = Inl ADAPTIVE_ERR_FORMAT
      else case result of
        Inl _ \<Rightarrow> status = UNAUTHORIZED_4_01 \<or> status = BAD_REQUEST_4_00
      | Inr None \<Rightarrow> status = CONTINUE_2_31
      | Inr (Some _) \<Rightarrow> status = CHANGED_2_04)"

definition window_of :: "(float32 list \<times> codec_metadata) option outcome \<Rightarrow> (float32 list \<times> codec_metadata) option" where
  "window_of result = (case result of Inr w \<Rightarrow> w | Inl _ \<Rightarrow> None)"

lemma handler_accepts:
  assumes "acceptable rq" and [simp]: "length (rq_token rq) = 8"
    and "telemetry_post_handler rq sv = (rp, sv', w)"
    and "accept_block (receiver_of sv) (block_of rq) ADAPTIVE_MAX_WINDOW = (result, r')"
  shows "receiver_of sv' = r' \<and> window_of result = w \<and>
    answer_of (expected_block (start_transfer (receiver_of sv) (block_of rq)) (block_of rq)) result (rp_status rp)"
proof -
  obtain n m bsize pl z where rq: "rq_block1 rq = Some (n, m, bsize)" "rq_payload rq = Some pl"
    "szx_from_size bsize = Inr z" "pl \<noteq> []" "0 < rq_token_len rq" "rq_token_len rq \<le> 8"
    using assms(1) by (rule acceptableE)
  define sv1 where "sv1 = server_start_transfer rq n sv"
  define aad where "aad = adaptive_pipeline_build_aad (Some (request_block rq n m z)) True"
  have start: "start_transfer (receiver_of sv) (block_of rq) = receiver_of sv1"
    using rq by (simp add: sv1_def)
  have block: "adaptive_pipeline_build_aad (Some (block_of rq)) True = aad" "payload (block_of rq) = Some pl"
    "payload_length (block_of rq) = length pl" "more_flag (block_of rq) = m"
    using rq by (simp_all add: block_of_def aad_def)
  have aad: "length aad = 16" unfolding aad_def by (rule build_aad_length) (use rq in simp)
  obtain x s' where opened: "adaptive_security_open (Some (server_security sv1)) (Some pl) (length pl) (Some aad) 16 True
      ADAPTIVE_MAX_BLOCK_SIZE True = (x, Some s')" by (rule security_open_session)
  have handler: "telemetry_post_handler rq sv = (rp, sv', w)" by (rule assms(3))
  note expected = receiver_of_start(2) [OF rq(1-3) assms(2) rq(6)]
  show ?thesis
  proof (cases "expected_block (receiver_of sv1) (block_of rq)")
    case False
    then show ?thesis
      using handler assms(4) rq
      by (auto simp: telemetry_post_handler_def accept_block_def start expected sv1_def [symmetric] aad_def [symmetric]
          answer_of_def window_of_def Let_def)
  next
    case True
    then show ?thesis
      using handler assms(4) rq
      by (auto simp: telemetry_post_handler_def accept_block_def start expected sv1_def [symmetric] aad_def [symmetric]
          answer_of_def window_of_def Let_def block aad opened split: sum.splits if_splits)
  qed
qed

text \<open>
  C36: The hand-written handler of the Contiki server and the receiver of the library implement
  the same protocol. On every acceptable request the handler leaves exactly the transfer state
  that \<open>accept_block\<close> leaves for the same block and decodes the same window; it answers 4.08
  exactly when the block is not the expected one, 2.31 when the receiver waits for more blocks,
  2.04 when the window is complete, and 4.01 or 4.00 on every error. Any other request is
  answered 4.00 and changes nothing.
\<close>

theorem server_matches_receiver:
  assumes "length (rq_token rq) = 8"
    and "telemetry_post_handler rq sv = (rp, sv', w)"
    and "accept_block (receiver_of sv) (block_of rq) ADAPTIVE_MAX_WINDOW = (result, r')"
  shows "if acceptable rq
    then receiver_of sv' = r' \<and> window_of result = w \<and>
      answer_of (expected_block (start_transfer (receiver_of sv) (block_of rq)) (block_of rq)) result (rp_status rp)
    else rp_status rp = BAD_REQUEST_4_00 \<and> sv' = sv \<and> w = None"
  using assms handler_accepts [OF _ assms] unacceptable_answer [of rq sv] by auto

definition first_request :: coap_request where
  "first_request =
     \<lparr>rq_type = 0, rq_code = 2, rq_token = [1, 2, 3, 4, 0, 0, 0, 0], rq_token_len = 4, rq_block1 = Some (0, 1, 32),
      rq_content_format = Some 42, rq_payload = Some (replicate 48 7)\<rparr>"

definition idle_server :: "test_context server_state" where
  "idle_server =
     \<lparr>server_security = zero_session, sv_representation = [], sv_next_block = 0, active_token = replicate 8 0,
      active_token_length = 0, transfer_active = False\<rparr>"

theorem server_matches_receiver_witness:
  "length (rq_token first_request) = 8 \<and> acceptable first_request \<and>
   receiver_of (fst (snd (telemetry_post_handler first_request idle_server)))
     = snd (accept_block (receiver_of idle_server) (block_of first_request) ADAPTIVE_MAX_WINDOW) \<and>
   \<not> acceptable (first_request\<lparr>rq_payload := None\<rparr>)"
proof -
  have ok: "length (rq_token first_request) = 8" "acceptable first_request" "\<not> acceptable (first_request\<lparr>rq_payload := None\<rparr>)"
    by code_simp+
  show ?thesis
    using server_matches_receiver [OF ok(1), of idle_server "fst (telemetry_post_handler first_request idle_server)"
        "fst (snd (telemetry_post_handler first_request idle_server))"
        "snd (snd (telemetry_post_handler first_request idle_server))"
        "fst (accept_block (receiver_of idle_server) (block_of first_request) ADAPTIVE_MAX_WINDOW)"
        "snd (accept_block (receiver_of idle_server) (block_of first_request) ADAPTIVE_MAX_WINDOW)"] ok
    by simp
qed

end
