(* ===== verification/Contiki_Node.thy ===== *)
theory Contiki_Node
  imports Contiki_Port Pipeline Config Security_Test Contiki_Server
begin

text \<open>
  \<^verbatim>\<open>platform/contiki-ng/adaptive-node.c\<close>: the process that measures, encodes and sends. Its
  static variables that live across windows are \<open>node_state\<close>. One CoAP exchange, the macro
  \<open>COAP_BLOCKING_REQUEST\<close> of Contiki with the two clock readings around it, is the argument
  \<open>exchange\<close>: given the request it yields the responses the handler is called with (\<open>None\<close> is
  a timeout, a null pointer) and the time that passed. The node repeats the logic of the
  pipeline by hand.
\<close>

record 'c node_state =
  nd_config :: adaptive_config
  nd_normalizer :: adaptive_normalizer
  nd_hmm :: adaptive_hmm
  nd_observer :: contiki_observer
  nd_security :: "'c security_session"
  nd_window_id :: u32

text \<open>What the node sets in a request; type, code and message id are fixed.\<close>

record node_request =
  nq_token :: bytes
  nq_uri_path :: string
  nq_content_format :: u32
  nq_block1 :: "u32 \<times> u8 \<times> nat"
  nq_size1 :: nat
  nq_payload :: bytes

type_synonym 's exchange = "node_request \<Rightarrow> 's \<Rightarrow> u8 option list \<times> nat \<times> 's"

definition response_handler :: "u8 option \<Rightarrow> bool" where
  "response_handler response = (case response of None \<Rightarrow> False | Some code \<Rightarrow> 64 \<le> code \<and> code < 96)"

text \<open>\<open>response_ok\<close> after the exchange.\<close>

definition exchange_ok :: "u8 option list \<Rightarrow> bool" where
  "exchange_ok responses = foldl (\<lambda>_ response. response_handler response) False responses"

section \<open>One block\<close>

text \<open>What is fixed while a window is sent: configuration, state, representation and sizes.\<close>

record node_window_plan =
  np_config :: adaptive_config
  np_state :: nat
  np_bytes :: bytes
  np_window_id :: u32
  np_block_size :: nat
  np_capacity :: nat
  np_protected_size :: nat

definition node_aad_block :: "node_window_plan \<Rightarrow> u32 \<Rightarrow> u8 \<Rightarrow> coap_block" where
  "node_aad_block w number more_blocks =
     zero_block\<lparr>cb_type := ADAPTIVE_COAP_TYPE_CON, cb_code := ADAPTIVE_COAP_CODE_POST, token_length := 4,
       token := write_u32_be (np_window_id w) @ drop 4 (token zero_block), block_number := number, more_flag := more_blocks,
       szx := block_szx (np_config w) ! np_state w, content_format := config_content_format (np_config w)\<rparr>"

text \<open>
  The body of the inner loop: whether it goes on, the plaintext bytes it took, and the
  session, the observer and the environment it leaves.
\<close>

definition node_block ::
    "'s exchange \<Rightarrow> nat \<Rightarrow> node_window_plan \<Rightarrow> nat \<Rightarrow> u32 \<Rightarrow> 'c security_session \<Rightarrow> contiki_observer \<Rightarrow> 's \<Rightarrow>
     nat option \<times> 'c security_session \<times> contiki_observer \<times> 's" where
  "node_block exchange clock_second w offset number ses obs s =
     (let remaining = length (np_bytes w) - offset;
          plaintext_length = (if remaining < np_capacity w then remaining else np_capacity w);
          more_blocks = (if offset + plaintext_length < length (np_bytes w) then 1 else 0);
          aad_block = node_aad_block w number more_blocks;
          aad = adaptive_pipeline_build_aad (Some aad_block) True;
          (sealed, security) =
            adaptive_security_seal (Some ses) (Some (drop offset (np_bytes w))) plaintext_length
              (Some aad) 16 True ADAPTIVE_MAX_BLOCK_SIZE True;
          ses1 = the security
      in case sealed of
           Inl e \<Rightarrow> (None, ses1, obs, s)
         | Inr rec \<Rightarrow>
             let request = \<lparr>nq_token = take 4 (token aad_block), nq_uri_path = uri_path (np_config w),
                   nq_content_format = config_content_format (np_config w),
                   nq_block1 = (number, more_blocks, np_block_size w), nq_size1 = np_protected_size w, nq_payload = rec\<rparr>
             in case exchange request s of
                  (responses, elapsed, s1) \<Rightarrow>
                    let success = exchange_ok responses;
                        obs1 = the (adaptive_contiki_observer_record clock_second (Some obs) elapsed success (length rec))
                    in (if success then Some plaintext_length else None, ses1, obs1, s1))"

text \<open>The inner loop; \<open>None\<close>: it never ends. The first result is whether all blocks were sent.\<close>

partial_function (option) node_blocks ::
    "'s exchange \<Rightarrow> nat \<Rightarrow> node_window_plan \<Rightarrow> nat \<Rightarrow> u32 \<Rightarrow> 'c security_session \<Rightarrow> contiki_observer \<Rightarrow> 's \<Rightarrow>
     (bool \<times> 'c security_session \<times> contiki_observer \<times> 's) option" where
  "node_blocks exchange clock_second w offset number ses obs s =
     (if offset < length (np_bytes w) then
        (case node_block exchange clock_second w offset number ses obs s of
           (taken, ses1, obs1, s1) \<Rightarrow>
             (case taken of
                None \<Rightarrow> Some (False, ses1, obs1, s1)
              | Some plaintext_length \<Rightarrow>
                  node_blocks exchange clock_second w (offset + plaintext_length) (number + 1) ses1 obs1 s1))
      else Some (True, ses, obs, s))"

section \<open>One window\<close>

datatype window_report =
    Encode_Error adaptive_result
  | Block_Too_Small
  | Window_Sent (sent_all: bool) (sent_state: nat) (sent_blocks: nat) (sent_bytes: nat)

text \<open>The estimate and the encoding of one turn of the process, before anything is sent.\<close>

definition node_encode ::
    "libm \<Rightarrow> platform \<Rightarrow> 'c node_state \<Rightarrow> (nat \<times> bytes) outcome \<times> 'c node_state" where
  "node_encode m pf nd =
     (let c = nd_config nd;
          samples = read_window pf (window_size c) (nd_window_id nd);
          raw = the (adaptive_contiki_metrics_snapshot pf (Some (nd_observer nd)) (Some (replicate 5 dzero)))
      in case adaptive_normalizer_update (Some (nd_normalizer nd)) (Some raw) True of
           (Inl e, n) \<Rightarrow> (Inl e, nd\<lparr>nd_normalizer := the n\<rparr>)
         | (Inr normalized, n) \<Rightarrow>
             (case adaptive_hmm_step m (Some (nd_hmm nd)) (Some normalized) True of
                (Inl e, h) \<Rightarrow> (Inl e, nd\<lparr>nd_normalizer := the n, nd_hmm := the h\<rparr>)
              | (Inr (state, probabilities), h) \<Rightarrow>
                  (case adaptive_codec_encode m (Some samples) (window_size c) (nd_window_id nd) state (Some c)
                          True ADAPTIVE_MAX_REPRESENTATION True of
                     Inl e \<Rightarrow> (Inl e, nd\<lparr>nd_normalizer := the n, nd_hmm := the h\<rparr>)
                   | Inr (rep, md) \<Rightarrow> (Inr (state, rep), nd\<lparr>nd_normalizer := the n, nd_hmm := the h\<rparr>))))"

text \<open>
  One turn of the endless loop, from the expiry of the timer to its reset; \<open>None\<close>: the
  inner loop never ends. The window id is kept when nothing was sent.
\<close>

definition node_turn ::
    "libm \<Rightarrow> platform \<Rightarrow> 's exchange \<Rightarrow> nat \<Rightarrow> 'c node_state \<Rightarrow> 's \<Rightarrow> (window_report \<times> 'c node_state \<times> 's) option" where
  "node_turn m pf exchange clock_second nd s =
     (case node_encode m pf nd of
        (Inl e, nd1) \<Rightarrow> Some (Encode_Error e, nd1, s)
      | (Inr (state, rep), nd1) \<Rightarrow>
          let c = nd_config nd1;
              overhead = sess_overhead (nd_security nd1);
              block_size = adaptive_coap_block_size (block_szx c ! state)
          in if block_size \<le> overhead then Some (Block_Too_Small, nd1, s)
             else
               let capacity = block_size - overhead;
                   count = (length rep + capacity - 1) div capacity;
                   plan = \<lparr>np_config = c, np_state = state, np_bytes = rep, np_window_id = nd_window_id nd1,
                           np_block_size = block_size, np_capacity = capacity, np_protected_size = length rep + count * overhead\<rparr>
               in (case node_blocks exchange clock_second plan 0 0 (nd_security nd1) (nd_observer nd1) s of
                     None \<Rightarrow> None
                   | Some (all_sent, ses, obs, s1) \<Rightarrow>
                       Some (Window_Sent all_sent state count (length rep),
                         nd1\<lparr>nd_security := ses, nd_observer := obs, nd_window_id := nd_window_id nd1 + 1\<rparr>, s1)))"

text \<open>
  The start of the process; \<open>None\<close>: it exits. The result of \<open>adaptive_hmm_init\<close> is not
  checked in the code; its model is written by the call in any case.
\<close>

definition node_start :: "adaptive_config \<Rightarrow> adaptive_normalizer \<Rightarrow> bool \<Rightarrow> bool \<Rightarrow> test_context node_state option" where
  "node_start config0 normalizer0 client_alloc server_alloc =
     (let config = the (adaptive_config_defaults (Some config0));
          normalizer = the (adaptive_normalizer_init (Some normalizer0) (baseline_alpha config) (baseline_epsilon config));
          hmm = projr (adaptive_hmm_init True (Some config))
      in case adaptive_security_test_pair True True ADAPTIVE_TEST_SEED client_alloc server_alloc of
           Inl _ \<Rightarrow> None
         | Inr (client, unused_server) \<Rightarrow>
             Some \<lparr>nd_config = config, nd_normalizer = normalizer, nd_hmm = hmm, nd_observer = zero_observer,
               nd_security = client, nd_window_id = 1\<rparr>)"

end
