(* ===== verification/Contiki_Observer.thy ===== *)
theory Contiki_Observer
  imports Contiki_Port Float_Ranges Hmm_Start
begin

text \<open>
  The observer of the Contiki port: its estimates stay in bounds whatever the exchanges are,
  what it reports is accepted by the baseline, and what the default hooks yield.
\<close>

declare One_nat_def [simp del]

section \<open>The moving average\<close>

lemma ewma_constants: "dbl_in (1 / 8) (1 / 8) PORT_EWMA_ALPHA" "dbl_in 1 1 (ddec 10 1)"
  "dbl_in (7 / 8) (7 / 8) (dsub (ddec 10 1) PORT_EWMA_ALPHA)"
proof -
  have g: "grid (1 / 8)" "grid (7 / 8)" using grid_dyadic [of 1 3] grid_dyadic [of 7 3] by simp_all
  show a: "dbl_in (1 / 8) (1 / 8) PORT_EWMA_ALPHA" "dbl_in 1 1 (ddec 10 1)"
    unfolding PORT_EWMA_ALPHA_def by (rule ddec_in; simp add: g)+
  note x = dbl_in_facts [OF a(2)] and y = dbl_in_facts [OF a(1)]
  show "dbl_in (7 / 8) (7 / 8) (dsub (ddec 10 1) PORT_EWMA_ALPHA)"
    by (rule dsub_in(1) [OF x(1,2) y(1,2)]) (use x y g in simp_all)
qed

lemma ewma_in:
  assumes "dbl_in 0 (p2 k) prev" "dbl_in 0 (p2 k) sample" "- 1000 \<le> k" "k \<le> 900"
  shows "dbl_in 0 (p2 k) (ewma prev sample init)"
proof -
  have "(7 :: real) / 8 * p2 k = of_int 7 * p2 (k - 3)" "(1 :: real) / 8 * p2 k = of_int 1 * p2 (k - 3)"
    by (simp_all add: power_int_diff)
  then have g: "grid (7 / 8 * p2 k)" "grid (1 / 8 * p2 k)"
    using grid_scaled [of 7 "k - 3"] grid_scaled [of 1 "k - 3"] assms(3,4) by simp_all
  have c: "dbl_in 0 (7 / 8) (dsub (ddec 10 1) PORT_EWMA_ALPHA)" "dbl_in 0 (1 / 8) PORT_EWMA_ALPHA"
    by (rule dbl_in_weaken [OF ewma_constants(3)]; simp) (rule dbl_in_weaken [OF ewma_constants(1)]; simp)
  have "dbl_in 0 (p2 k) (dadd (dmul (dsub (ddec 10 1) PORT_EWMA_ALPHA) prev) (dmul PORT_EWMA_ALPHA sample))"
    by (rule dadd_range [OF dmul_nonneg_in [OF c(1) assms(1) g(1)] dmul_nonneg_in [OF c(2) assms(2) g(2)]])
      (use assms in \<open>simp_all add: field_simps\<close>)
  then show ?thesis using assms by (simp add: ewma_def)
qed

text \<open>A value of the format between 1/8 and 1 less 1/8 is a value of the format.\<close>

lemma grid_minus_eighth:
  assumes "dbl_in 0 1 x" "1 / 8 \<le> fval x" shows "grid (fval x - 1 / 8)"
proof -
  note f = dbl_in_facts [OF assms(1)]
  obtain s m e where x: "x = Fin s m e" using f(2) by (cases x) simp_all
  have w: "0 \<le> m" "m < 2 ^ 53" "- 1074 \<le> e" "- 1074 < e \<longrightarrow> 2 ^ 52 \<le> m" using f(1) by (simp_all add: x binary64_def)
  have v: "fval x = of_int m * p2 e"
  proof (cases s)
    case True
    have "0 \<le> of_int m * p2 e" using w(1) by simp
    then show ?thesis using assms(2) True by (simp add: x smant_def)
  qed (simp add: x smant_def)
  have e: "e \<le> - 52"
  proof (rule ccontr)
    assume e: "\<not> e \<le> - 52"
    then have "2 ^ 52 \<le> m" using w(4) by simp
    then have "real_of_int (2 ^ 52) \<le> of_int m" by (simp only: of_int_le_iff)
    moreover have "p2 (- 51) \<le> p2 e" unfolding p2_le using e by simp
    ultimately have "of_int (2 ^ 52) * p2 (- 51) \<le> of_int m * p2 e" by (intro mult_mono) simp_all
    then show False using f(4) v by simp
  qed
  define k where "k = nat (- 3 - e)"
  have k: "p2 (- 3) = of_int (2 ^ k) * p2 e"
  proof -
    have "of_int (2 ^ k) * p2 e = p2 (int k) * p2 e" by simp
    also have "\<dots> = p2 (int k + e)" by (rule power_int_add [symmetric]) simp
    also have "int k + e = - 3" using e by (simp add: k_def)
    finally show ?thesis by simp
  qed
  have eighth: "p2 (- 3) = 1 / 8" by simp
  have eq: "fval x - 1 / 8 = of_int (m - 2 ^ k) * p2 e" using k eighth v by (simp add: left_diff_distrib)
  have "0 \<le> of_int (m - 2 ^ k) * p2 e" using assms(2) eq by simp
  then have "0 \<le> m - 2 ^ k" by (simp add: zero_le_mult_iff)
  moreover have "m - 2 ^ k < 2 ^ 53" using w(2) zero_le_power [of "2 :: int" k] by linarith
  ultimately show ?thesis using grid_scaled [of "m - 2 ^ k" e] w e eq by simp
qed

text \<open>Towards a lower sample it does not rise, towards a higher one it does not fall.\<close>

lemma ewma_moves:
  assumes "dbl_in 0 1 prev"
  shows "fval (ewma prev dzero True) \<le> fval prev" "fval prev \<le> fval (ewma prev (ddec 10 1) True)"
proof -
  note p = dbl_in_facts [OF assms] and a = dbl_in_facts [OF ewma_constants(1)] and b = dbl_in_facts [OF ewma_constants(3)]
    and o = dbl_in_facts [OF ewma_constants(2)]
  define x where "x = dmul (dsub (ddec 10 1) PORT_EWMA_ALPHA) prev"
  have "\<bar>fval prev\<bar> \<le> big" using p(3,4) big_pos(2) by linarith
  then have gp: "grid (fval prev)" by (rule grid_fval [OF p(1)])
  have bv: "fval (dsub (ddec 10 1) PORT_EWMA_ALPHA) = 7 / 8" using b by simp
  have av: "fval PORT_EWMA_ALPHA = 1 / 8" using a by simp
  have ov: "fval (ddec 10 1) = 1" using o by simp
  have g: "grid (7 / 8)" "grid (1 / 8)" using grid_dyadic [of 7 3] grid_dyadic [of 1 3] by simp_all
  have x1: "dbl_in 0 (7 / 8) x" "fval x = rnd binary64 (7 / 8 * fval prev)"
    unfolding x_def using dmul_in [OF b(1,2) p(1,2) grid_zero g(1)] p(3,4) bv by simp_all
  note x = dbl_in_facts [OF x1(1)]
  have "rnd binary64 (7 / 8 * fval prev) \<le> rnd binary64 (fval prev)"
    by (rule rnd_mono [OF valid_format_binary(1)]) (use p(3) in simp)
  then have x2: "fval x \<le> fval prev" using x1(2) gp by (simp add: grid_def)
  obtain s where z: "dmul PORT_EWMA_ALPHA dzero = Fin s 0 (-1074)" using dmul_dzero [OF a(2)] by blast
  have zero: "wfd (Fin s 0 (-1074))" "fisfinite (Fin s 0 (-1074))" "fval (Fin s 0 (-1074)) = 0"
    by (simp_all add: binary64_def smant_def)
  have "dbl_in 0 (fval prev) (dadd x (Fin s 0 (-1074)))"
    by (rule dadd_in(1) [OF x(1,2) zero(1,2) grid_zero gp]) (use x(3) x2 zero(3) in simp_all)
  then show "fval (ewma prev dzero True) \<le> fval prev"
    using dbl_in_facts(4) z by (simp add: ewma_def x_def [symmetric])
  have y1: "dbl_in (1 / 8) (1 / 8) (dmul PORT_EWMA_ALPHA (ddec 10 1))"
    by (rule dmul_in(1) [OF a(1,2) o(1,2) g(2) g(2)]) (use av ov in simp_all)
  note y = dbl_in_facts [OF y1]
  have up: "fval prev \<le> fval x + 1 / 8"
  proof (cases "fval prev < 1 / 8")
    case False
    then have "grid (fval prev - 1 / 8)" by (intro grid_minus_eighth [OF assms]) simp
    moreover have "rnd binary64 (fval prev - 1 / 8) \<le> rnd binary64 (7 / 8 * fval prev)"
      by (rule rnd_mono [OF valid_format_binary(1)]) (use p(4) in simp)
    ultimately show ?thesis using x1(2) by (simp add: grid_def)
  qed (use x(3) in simp)
  have "dbl_in (fval prev) 1 (dadd x (dmul PORT_EWMA_ALPHA (ddec 10 1)))"
    by (rule dadd_in(1) [OF x(1,2) y(1,2) gp grid_one]) (use y up x in simp_all)
  then show "fval prev \<le> fval (ewma prev (ddec 10 1) True)"
    using dbl_in_facts(3) by (simp add: ewma_def x_def [symmetric])
qed

section \<open>The observer\<close>

definition observer_inv :: "contiki_observer \<Rightarrow> bool" where
  "observer_inv o1 \<longleftrightarrow>
     dbl_in 0 1 (loss_ewma o1) \<and> dbl_in 0 1 (retry_ewma o1) \<and> dbl_in 0 (p2 200) (rtt_ms_ewma o1) \<and>
     dbl_in 0 (p2 200) (goodput_bps_ewma o1)"

lemma dbl_in_units: "dbl_in 0 (p2 0) dzero" "dbl_in 0 (p2 0) (ddec 10 1)"
  using dbl_in_zero [of 0 1] dbl_in_weaken [OF ewma_constants(2), of 0 1] by simp_all

lemma observer_record_keeps:
  assumes o1: "observer_inv o1" and n: "0 < clock_second" "clock_second \<le> 2 ^ 64" "elapsed \<le> 2 ^ 64" "bytes \<le> 2 ^ 64"
  shows "\<exists>o2. adaptive_contiki_observer_record clock_second (Some o1) elapsed success bytes = Some o2 \<and> observer_inv o2 \<and>
    ob_initialized o2"
proof -
  define t where "t = (if elapsed = 0 then 1 else elapsed)"
  have t: "dbl_in 1 (p2 64) (dint (int t))" "dbl_in 1 (p2 64) (dint (int clock_second))" "dbl_in 0 (p2 64) (dint (int bytes))"
    using dint_in [of 1 "int t"] dint_in [of 1 "int clock_second"] dint_in [of 0 "int bytes"] n by (simp_all add: t_def)
  have t0: "dbl_in 0 (p2 64) (dint (int t))" "dbl_in 0 (p2 64) (dint (int clock_second))"
    by (rule dbl_in_weaken [OF t(1)]; simp) (rule dbl_in_weaken [OF t(2)]; simp)
  have c: "dbl_in 0 (p2 10) (ddec 10000 1)" "dbl_in 0 (p2 3) (ddec 80 1)"
    using grid_p2 [of 3] by (rule_tac [!] ddec_in; simp)+
  have g: "grid (p2 10 * p2 64)" "grid (p2 3 * p2 64)" "grid (p2 3 * p2 64 * p2 64)"
    using grid_p2 [of 74] grid_p2 [of 67] grid_p2 [of 131] by (simp_all add: power_int_add [symmetric])
  have le: "p2 10 * p2 64 \<le> p2 200" "p2 3 * p2 64 * p2 64 \<le> p2 200"
    by (simp_all add: power_int_add [symmetric])
  have rtt: "dbl_in 0 (p2 200) (ddiv (dmul (ddec 10000 1) (dint (int t))) (dint (int clock_second)))"
    by (rule dbl_in_weaken [OF ddiv_at_least_one [OF dmul_nonneg_in [OF c(1) t0(1) g(1)] t(2) g(1)] order_refl le(1)])
  have gp: "dbl_in 0 (p2 200) (ddiv (dmul (dmul (ddec 80 1) (dint (int bytes))) (dint (int clock_second))) (dint (int t)))"
    by (rule dbl_in_weaken [OF ddiv_at_least_one [OF dmul_nonneg_in [OF dmul_nonneg_in [OF c(2) t(3) g(2)] t0(2) g(3)] t(1) g(3)]
          order_refl le(2)])
  have z: "dbl_in 0 (p2 200) dzero" by (rule dbl_in_zero) simp_all
  note o = o1 [unfolded observer_inv_def]
  note unit = ewma_in [where k = 0, simplified, OF _ _] and wide = ewma_in [where k = 200]
  show ?thesis
    using o rtt gp z dbl_in_units unit wide
    by (auto simp: adaptive_contiki_observer_record_def observer_inv_def Let_def t_def [symmetric])
qed

lemma zero_observer_inv: "observer_inv zero_observer"
  using dbl_in_zero [of 0 1] dbl_in_zero [of 0 "p2 200"] by (simp add: observer_inv_def zero_observer_def)

lemma snapshot_sane:
  assumes "observer_inv o1" "dbl_in 0 1 (queue_ratio pf)" "dbl_in 0 1 (mac_retry_ratio pf)"
  shows "\<exists>ms. adaptive_contiki_metrics_snapshot pf (Some o1) (Some ms0) = Some ms \<and> sane_metrics ms"
proof -
  have g: "grid 2" using grid_p2 [of 1] by simp
  note o = assms(1) [unfolded observer_inv_def]
  have "p2 200 \<le> metric_bound" unfolding metric_bound_def p2_le by simp
  moreover have "p2 1 \<le> metric_bound" unfolding metric_bound_def p2_le by simp
  ultimately have b: "p2 200 \<le> metric_bound" "2 \<le> metric_bound" "1 \<le> metric_bound" by simp_all
  have r: "dbl_in 0 2 (dadd (retry_ewma o1) (mac_retry_ratio pf))"
    by (rule dadd_range [of 0 1 _ 0 1]) (use o assms(3) g in simp_all)
  have sane: "sane_metric (queue_ratio pf)" "sane_metric (loss_ewma o1)" "sane_metric (rtt_ms_ewma o1)"
    "sane_metric (dadd (retry_ewma o1) (mac_retry_ratio pf))" "sane_metric (goodput_bps_ewma o1)"
    using o r assms(2) b by (auto elim!: dbl_in_weaken)
  have "sane_metric ([queue_ratio pf, loss_ewma o1, rtt_ms_ewma o1, dadd (retry_ewma o1) (mac_retry_ratio pf), goodput_bps_ewma o1] ! i)"
    if "i < 5" for i
    using that sane by (auto simp: less_Suc_eq numeral_eq_Suc One_nat_def)
  then show ?thesis by (simp add: adaptive_contiki_metrics_snapshot_def sane_metrics_def)
qed

text \<open>A history of exchanges: the time it took, whether it succeeded and the bytes it carried.\<close>

definition record_all ::
    "nat \<Rightarrow> contiki_observer \<Rightarrow> (nat \<times> bool \<times> nat) list \<Rightarrow> contiki_observer" where
  "record_all clock_second =
     foldl (\<lambda>o1 (elapsed, success, bytes). the (adaptive_contiki_observer_record clock_second (Some o1) elapsed success bytes))"

lemma record_all_keeps:
  "observer_inv o1 \<Longrightarrow> 0 < clock_second \<Longrightarrow> clock_second \<le> 2 ^ 64 \<Longrightarrow>
   \<forall>(elapsed, success, bytes) \<in> set history. elapsed \<le> 2 ^ 64 \<and> bytes \<le> 2 ^ 64 \<Longrightarrow>
   observer_inv (record_all clock_second o1 history)"
proof (induction history arbitrary: o1)
  case (Cons h history)
  obtain elapsed success bytes where h: "h = (elapsed, success, bytes)" by (cases h)
  obtain o2 where "adaptive_contiki_observer_record clock_second (Some o1) elapsed success bytes = Some o2" "observer_inv o2"
    using observer_record_keeps [of o1 clock_second elapsed bytes success] Cons.prems by (auto simp: h)
  then show ?case using Cons by (simp add: record_all_def h)
qed (simp add: record_all_def)

text \<open>
  C37: Whatever the exchanges of a node are, its observer keeps loss and retry ratios
  between 0 and 1 and finite non-negative round trips and goodputs, in double precision and
  over any history from the start; so, with platform ratios between 0 and 1, the metrics it
  reports are always within what the baseline takes.
\<close>

theorem observer_reports_sane:
  fixes uninitialised :: contiki_observer and clock_second :: nat and history :: "(nat \<times> bool \<times> nat) list"
  assumes "0 < clock_second" "clock_second \<le> 2 ^ 64"
    and "\<forall>(elapsed, success, bytes) \<in> set history. elapsed \<le> 2 ^ 64 \<and> bytes \<le> 2 ^ 64"
    and "dbl_in 0 1 (queue_ratio pf)" "dbl_in 0 1 (mac_retry_ratio pf)"
  defines "observer \<equiv> record_all clock_second (the (adaptive_contiki_observer_init (Some uninitialised))) history"
  shows "dbl_in 0 1 (loss_ewma observer) \<and> dbl_in 0 1 (retry_ewma observer) \<and>
    dbl_in 0 (p2 200) (rtt_ms_ewma observer) \<and> dbl_in 0 (p2 200) (goodput_bps_ewma observer) \<and>
    (\<exists>ms. adaptive_contiki_metrics_snapshot pf (Some observer) (Some old) = Some ms \<and> sane_metrics ms)"
proof -
  have inv: "observer_inv observer"
    unfolding observer_def using record_all_keeps [OF zero_observer_inv assms(1-3)]
    by (simp add: adaptive_contiki_observer_init_def)
  then show ?thesis using snapshot_sane [OF inv assms(4,5), of old] by (simp add: observer_inv_def)
qed

lemma observer_reports_sane_witness:
  "dbl_in 0 1 (loss_ewma (record_all 128 (the (adaptive_contiki_observer_init (Some zero_observer))) [(5, True, 48), (0, False, 20)])) \<and>
   (\<exists>ms. adaptive_contiki_metrics_snapshot default_platform
      (Some (record_all 128 (the (adaptive_contiki_observer_init (Some zero_observer))) [(5, True, 48), (0, False, 20)]))
      (Some (replicate 5 dzero)) = Some ms \<and> sane_metrics ms)"
  using observer_reports_sane [of 128 "[(5, True, 48), (0, False, 20)]" default_platform zero_observer "replicate 5 dzero"]
    dbl_in_zero [of 0 1]
  by (simp add: default_platform_def adaptive_platform_queue_ratio_def adaptive_platform_mac_retry_ratio_def)

text \<open>
  C38: The retry estimate carries no information of its own: the observer raises and lowers it with
  the same samples as the loss estimate, so over any history of fewer than \<open>2^32\<close>
  exchanges the two are the same number.
\<close>

theorem retry_estimate_is_loss:
  fixes uninitialised :: contiki_observer and clock_second :: nat and history :: "(nat \<times> bool \<times> nat) list"
  assumes "length history < 2 ^ 32"
  defines "observer \<equiv> record_all clock_second (the (adaptive_contiki_observer_init (Some uninitialised))) history"
  shows "retry_ewma observer = loss_ewma observer"
proof -
  have "retry_ewma (record_all clock_second o1 hs) = loss_ewma (record_all clock_second o1 hs)"
    if "retry_ewma o1 = loss_ewma o1" "unat (consecutive_failures o1) + length hs < 2 ^ 32" for o1 hs
    using that
  proof (induction hs arbitrary: o1)
    case (Cons h hs)
    obtain elapsed success bytes where h: "h = (elapsed, success, bytes)" by (cases h)
    define o2 where "o2 = the (adaptive_contiki_observer_record clock_second (Some o1) elapsed success bytes)"
    have inc: "unat (consecutive_failures o1 + 1) = unat (consecutive_failures o1) + 1"
      using Cons.prems(2) by (subst unat_add_lem [THEN iffD1]) simp_all
    then have pos: "0 < consecutive_failures o1 + 1" by (simp add: word_less_nat_alt)
    have "retry_ewma o2 = loss_ewma o2"
      using pos Cons.prems(1) by (simp add: o2_def adaptive_contiki_observer_record_def Let_def)
    moreover have "unat (consecutive_failures o2) + length hs < 2 ^ 32"
      using inc Cons.prems(2) by (simp add: o2_def adaptive_contiki_observer_record_def Let_def)
    ultimately show ?case using Cons.IH by (simp add: record_all_def h o2_def)
  qed (simp add: record_all_def)
  from this [of zero_observer history] show ?thesis
    using assms(1) by (simp add: observer_def adaptive_contiki_observer_init_def zero_observer_def)
qed

lemma retry_estimate_is_loss_witness:
  "retry_ewma (record_all 128 (the (adaptive_contiki_observer_init (Some zero_observer))) [(5, True, 48), (0, False, 20)]) =
   loss_ewma (record_all 128 (the (adaptive_contiki_observer_init (Some zero_observer))) [(5, True, 48), (0, False, 20)])"
  by (rule retry_estimate_is_loss) simp

section \<open>The default window\<close>

text \<open>
  The default sensor window is exactly the triangle of period 32 between 0 and 1: at
  phase \<open>p\<close> it is \<open>p / 16\<close> up to the middle of the period and \<open>(32 - p) / 16\<close> after it, without
  any rounding error, whatever the window id.
\<close>

lemma default_window_triangle:
  "list_all wfs (adaptive_platform_read_window n window_id) \<and>
   map fval (adaptive_platform_read_window n window_id) = map (\<lambda>i. real (min (i mod 32) (32 - i mod 32)) / 16) [0..<n]"
proof -
  have f: "wfs (fof_int binary32 k) \<and> fisfinite (fof_int binary32 k) \<and> fval (fof_int binary32 k) = of_int k"
    if k: "0 \<le> k" "k \<le> 16" for k
  proof -
    have r: "rnd binary32 (of_int k) = of_int k"
      using rnd_representable_pos [OF valid_format_binary(2), of k 0] k by (simp add: rnd_eq_pos binary32_def)
    have "\<bar>real_of_int k\<bar> \<le> p2 10" using k by simp
    then have "in_range binary32 (of_int k)" by (rule in_range_p2 [OF valid_format_binary(2)]) (simp_all add: binary32_def)
    then show ?thesis using fof_int_facts [OF valid_format_binary(2), of k] r by simp
  qed
  have q: "wfs (fdiv binary32 (fof_int binary32 k) (fof_int binary32 16)) \<and>
      fval (fdiv binary32 (fof_int binary32 k) (fof_int binary32 16)) = of_int k / 16"
    if k: "0 \<le> k" "k \<le> 16" for k
  proof -
    have "of_int k / 16 = of_int k * p2 (- 4)" by simp
    then have r: "rnd binary32 (of_int k / 16) = of_int k / 16"
      using rnd_representable_pos [OF valid_format_binary(2), of k "- 4"] k by (simp add: rnd_eq_pos binary32_def)
    have "\<bar>real_of_int k / 16\<bar> \<le> p2 10" using k by simp
    then have "in_range binary32 (of_int k / 16)" by (rule in_range_p2 [OF valid_format_binary(2)]) (simp_all add: binary32_def)
    moreover have k16: "fval (fof_int binary32 16) \<noteq> 0" using f [of 16] by simp
    have x: "fisfinite (fof_int binary32 k)" "wfs (fof_int binary32 k)" "fisfinite (fof_int binary32 16)" "wfs (fof_int binary32 16)"
      using f [OF k] f [of 16] by simp_all
    note d = fdiv_facts [OF valid_format_binary(2) x k16]
    ultimately show ?thesis using d f [OF k] f [of 16] r by simp
  qed
  have "wfs (triangle_sample p) \<and> fval (triangle_sample p) = real (min p (32 - p)) / 16" if "p < 32" for p
    unfolding triangle_sample_def using that q [of "int p"] q [of "int (32 - p)"] by (cases "p < 16") (auto simp: min_def)
  then show ?thesis by (simp add: adaptive_platform_read_window_def list_all_iff)
qed

end
