(* ===== verification/Node_Progress.thy ===== *)
theory Node_Progress
  imports Contiki_Node Contiki_Observer Window_Delivery
begin

text \<open>
  The node makes progress whatever the network does: every turn of its process ends, keeps the
  invariants of its components and never fails to encode.
\<close>

declare One_nat_def [simp del]

section \<open>The session of the node\<close>

lemma test_seal_length: "test_seal c p a cap = (Inr r, c') \<Longrightarrow> length r \<le> cap"
  by (auto simp: test_seal_def Let_def security_constants split: option.splits if_splits)

lemma node_seal_length:
  assumes "sess_seal ses = Some test_seal"
    and "adaptive_security_seal (Some ses) (Some p) n (Some a) an True cap True = (x, ses')"
  shows "\<exists>c. ses' = Some (ses\<lparr>sess_context := c\<rparr>) \<and> (\<forall>r. x = Inr r \<longrightarrow> length r \<le> cap)"
  using assms test_seal_length by (fastforce simp: adaptive_security_seal_def split: prod.splits if_splits)

section \<open>The inner loop ends\<close>

text \<open>The environment answers within \<open>2^64\<close> clock ticks.\<close>

definition answers_in_time :: "'s exchange \<Rightarrow> bool" where
  "answers_in_time exchange \<longleftrightarrow> (\<forall>request s. fst (snd (exchange request s)) \<le> 2 ^ 64)"

definition clock_ok :: "nat \<Rightarrow> bool" where
  "clock_ok clock_second \<longleftrightarrow> 0 < clock_second \<and> clock_second \<le> 2 ^ 64"

lemma node_block_keeps:
  assumes ex: "answers_in_time exchange" "clock_ok clock_second"
    and ses: "sess_seal ses = Some test_seal" and obs: "observer_inv obs"
    and off: "offset < length (np_bytes w)" "0 < np_capacity w"
    and run: "node_block exchange clock_second w offset nr ses obs s = (taken, ses1, obs1, s1)"
  shows "\<exists>c. ses1 = ses\<lparr>sess_context := c\<rparr>" "observer_inv obs1" "taken = Some k \<Longrightarrow> 0 < k"
proof -
  define n where "n = (if length (np_bytes w) - offset < np_capacity w then length (np_bytes w) - offset else np_capacity w)"
  define b where "b = node_aad_block w nr (if offset + n < length (np_bytes w) then 1 else 0)"
  obtain x ses' where sealed: "adaptive_security_seal (Some ses) (Some (drop offset (np_bytes w))) n
      (Some (adaptive_pipeline_build_aad (Some b) True)) 16 True ADAPTIVE_MAX_BLOCK_SIZE True = (x, ses')" by fastforce
  obtain c where c: "ses' = Some (ses\<lparr>sess_context := c\<rparr>)" "\<And>r. x = Inr r \<Longrightarrow> length r \<le> ADAPTIVE_MAX_BLOCK_SIZE"
    using node_seal_length [OF ses sealed] by blast
  have n: "0 < n" using off by (simp add: n_def)
  have "(\<exists>c. ses1 = ses\<lparr>sess_context := c\<rparr>) \<and> observer_inv obs1 \<and> (\<forall>k. taken = Some k \<longrightarrow> 0 < k)"
  proof (cases x)
    case (Inl e)
    then show ?thesis
      using run sealed c(1) obs
      by (auto simp: node_block_def n_def [symmetric] b_def [symmetric] Let_def)
  next
    case (Inr rec)
    define rq where "rq = \<lparr>nq_token = take 4 (token b), nq_uri_path = uri_path (np_config w),
      nq_content_format = config_content_format (np_config w),
      nq_block1 = (nr, if offset + n < length (np_bytes w) then 1 else 0, np_block_size w), nq_size1 = np_protected_size w, nq_payload = rec\<rparr>"
    obtain rs t s2 where answer: "exchange rq s = (rs, t, s2)" by (cases "exchange rq s")
    have "t \<le> 2 ^ 64" using ex(1) answer unfolding answers_in_time_def by (metis fst_conv snd_conv)
    moreover have "length rec \<le> 2 ^ 64" using c(2) [OF Inr] by (simp add: ADAPTIVE_MAX_BLOCK_SIZE_def)
    ultimately obtain o2 where o2: "adaptive_contiki_observer_record clock_second (Some obs) t (exchange_ok rs) (length rec) = Some o2"
        "observer_inv o2"
      using observer_record_keeps [OF obs, of clock_second t "length rec" "exchange_ok rs"] ex(2) by (auto simp: clock_ok_def)
    then show ?thesis
      using run sealed c(1) n Inr answer
      by (auto simp: node_block_def n_def [symmetric] b_def [symmetric] rq_def [symmetric] Let_def split: if_splits)
  qed
  then show "\<exists>c. ses1 = ses\<lparr>sess_context := c\<rparr>" "observer_inv obs1" "taken = Some k \<Longrightarrow> 0 < k" by blast+
qed

lemma node_blocks_end:
  assumes ex: "answers_in_time exchange" "clock_ok clock_second" and cap: "0 < np_capacity w"
  shows "sess_seal ses = Some test_seal \<Longrightarrow> observer_inv obs \<Longrightarrow>
    \<exists>done1 c obs1 s1. node_blocks exchange clock_second w offset nr ses obs s = Some (done1, ses\<lparr>sess_context := c\<rparr>, obs1, s1) \<and>
      observer_inv obs1"
proof (induction "length (np_bytes w) - offset" arbitrary: offset nr ses obs s rule: less_induct)
  case less
  note step = node_blocks.simps [of exchange clock_second w offset nr ses obs s]
  show ?case
  proof (cases "offset < length (np_bytes w)")
    case False
    then show ?thesis using step less.prems by (intro exI [of _ True] exI [of _ "sess_context ses"]) simp
  next
    case True
    obtain taken ses1 obs1 s1 where run: "node_block exchange clock_second w offset nr ses obs s = (taken, ses1, obs1, s1)"
      by (cases "node_block exchange clock_second w offset nr ses obs s")
    note k = node_block_keeps [OF ex less.prems True cap run]
    obtain c where c: "ses1 = ses\<lparr>sess_context := c\<rparr>" using k(1) by blast
    show ?thesis
    proof (cases taken)
      case None
      then show ?thesis using step True run c k(2) by auto
    next
      case (Some n)
      have "0 < n" by (rule k(3) [OF Some])
      then have "length (np_bytes w) - (offset + n) < length (np_bytes w) - offset" using True by simp
      from less.hyps [OF this, of ses1 obs1 "nr + 1" s1] show ?thesis
        using step True run c k(2) Some less.prems(1) by simp
    qed
  qed
qed

section \<open>A turn of the process\<close>

definition platform_ok :: "platform \<Rightarrow> bool" where
  "platform_ok pf \<longleftrightarrow> dbl_in 0 1 (queue_ratio pf) \<and> dbl_in 0 1 (mac_retry_ratio pf)"

definition node_inv :: "'c node_state \<Rightarrow> bool" where
  "node_inv nd \<longleftrightarrow>
     normalizer_inv (nd_normalizer nd) \<and> hmm_inv (nd_hmm nd) \<and> observer_inv (nd_observer nd) \<and>
     validate_transform (window_size (nd_config nd)) (wavelet_levels (nd_config nd)) ADAPTIVE_MAX_WINDOW = Inr ()"

lemma node_encode_keeps:
  assumes m: "libm_ok m" and pf: "platform_ok pf" and nd: "node_inv nd"
  obtains st rep md n h where
    "node_encode m pf nd = (Inr (st, rep), nd\<lparr>nd_normalizer := n, nd_hmm := h\<rparr>)" "st < 5"
    "adaptive_codec_encode m (Some (read_window pf (window_size (nd_config nd)) (nd_window_id nd))) (window_size (nd_config nd))
       (nd_window_id nd) st (Some (nd_config nd)) True ADAPTIVE_MAX_REPRESENTATION True = Inr (rep, md)"
    "0 < length rep" "node_inv (nd\<lparr>nd_normalizer := n, nd_hmm := h\<rparr>)" "hmm_state h = st"
proof -
  note inv = nd [unfolded node_inv_def]
  obtain ms where ms: "adaptive_contiki_metrics_snapshot pf (Some (nd_observer nd)) (Some (replicate 5 dzero)) = Some ms" "sane_metrics ms"
    using snapshot_sane inv pf unfolding platform_ok_def by blast
  obtain z n where nz: "adaptive_normalizer_update (Some (nd_normalizer nd)) (Some ms) True = (Inr z, Some n)"
      "length z = 5" "\<forall>i < 5. dbl_in (-6) 6 (z ! i)" "normalizer_inv n"
    using normalizer_update_keeps [OF _ ms(2)] inv by blast
  have "scores z" using nz by (simp add: scores_def)
  from hmm_step_keeps [OF m _ this] inv obtain st prob h where
    hm: "adaptive_hmm_step m (Some (nd_hmm nd)) (Some z) True = (Inr (st, prob), Some h)" "st < 5" "hmm_state h = st" "hmm_inv h"
    by blast
  have v: "validate_transform (window_size (nd_config nd)) (wavelet_levels (nd_config nd)) ADAPTIVE_MAX_WINDOW = Inr ()"
    using inv by blast
  have n: "window_size (nd_config nd) \<le> 256" using v by (simp add: validate_transform_cases ADAPTIVE_MAX_WINDOW_def)
  then have room: "28 + 4 * window_size (nd_config nd) \<le> ADAPTIVE_MAX_REPRESENTATION"
    by (simp add: ADAPTIVE_MAX_REPRESENTATION_def ADAPTIVE_MAX_WINDOW_def)
  obtain rep md where enc: "adaptive_codec_encode m (Some (read_window pf (window_size (nd_config nd)) (nd_window_id nd)))
      (window_size (nd_config nd)) (nd_window_id nd) st (Some (nd_config nd)) True ADAPTIVE_MAX_REPRESENTATION True = Inr (rep, md)"
      "length rep = 28 + 4 * md_nonzero md"
    using encode_returns [OF v hm(2) room] by blast
  show thesis
  proof (rule that [OF _ hm(2) enc(1)])
    show "node_encode m pf nd = (Inr (st, rep), nd\<lparr>nd_normalizer := n, nd_hmm := h\<rparr>)"
      using ms(1) nz(1) hm(1) enc(1) by (simp add: node_encode_def Let_def)
    show "0 < length rep" using enc(2) by simp
    show "node_inv (nd\<lparr>nd_normalizer := n, nd_hmm := h\<rparr>)" using inv nz(4) hm(4) by (simp add: node_inv_def)
    show "hmm_state h = st" by (rule hm(3))
  qed
qed

lemma node_turn_ends:
  assumes m: "libm_ok m" and pf: "platform_ok pf" and ex: "answers_in_time exchange" "clock_ok clock_second"
    and nd: "node_inv nd" "sess_seal (nd_security nd) = Some test_seal"
  shows "\<exists>report nd' s'. node_turn m pf exchange clock_second nd s = Some (report, nd', s') \<and> node_inv nd' \<and>
    sess_seal (nd_security nd') = Some test_seal \<and> sess_overhead (nd_security nd') = sess_overhead (nd_security nd) \<and>
    nd_config nd' = nd_config nd \<and>
    (if \<exists>st < 5. adaptive_coap_block_size (block_szx (nd_config nd) ! st) \<le> sess_overhead (nd_security nd) \<and> report = Block_Too_Small
     then nd_window_id nd' = nd_window_id nd
     else (\<exists>all_sent st count n. report = Window_Sent all_sent st count n) \<and> nd_window_id nd' = nd_window_id nd + 1)"
proof -
  obtain st rep md n h where e: "node_encode m pf nd = (Inr (st, rep), nd\<lparr>nd_normalizer := n, nd_hmm := h\<rparr>)" "st < 5"
      "node_inv (nd\<lparr>nd_normalizer := n, nd_hmm := h\<rparr>)"
    by (rule node_encode_keeps [OF m pf nd(1)])
  define nd1 where "nd1 = nd\<lparr>nd_normalizer := n, nd_hmm := h\<rparr>"
  have nd1: "nd_config nd1 = nd_config nd" "nd_security nd1 = nd_security nd" "nd_window_id nd1 = nd_window_id nd"
    "nd_observer nd1 = nd_observer nd" by (simp_all add: nd1_def)
  define size where "size = adaptive_coap_block_size (block_szx (nd_config nd) ! st)"
  define ov where "ov = sess_overhead (nd_security nd)"
  show ?thesis
  proof (cases "size \<le> ov")
    case True
    then show ?thesis
      using e nd by (auto simp: node_turn_def size_def ov_def Let_def)
  next
    case False
    define plan where "plan = \<lparr>np_config = nd_config nd, np_state = st, np_bytes = rep, np_window_id = nd_window_id nd,
      np_block_size = size, np_capacity = size - ov, np_protected_size = length rep + (length rep + (size - ov) - 1) div (size - ov) * ov\<rparr>"
    have "0 < np_capacity plan" "observer_inv (nd_observer nd)" using False nd(1) by (simp_all add: plan_def node_inv_def)
    from node_blocks_end [OF ex this(1) nd(2) this(2), of 0 0 s] obtain done1 c obs1 s1 where
      b: "node_blocks exchange clock_second plan 0 0 (nd_security nd) (nd_observer nd) s =
        Some (done1, (nd_security nd)\<lparr>sess_context := c\<rparr>, obs1, s1)" "observer_inv obs1" by blast
    then have turn: "node_turn m pf exchange clock_second nd s =
        Some (Window_Sent done1 st ((length rep + (size - ov) - 1) div (size - ov)) (length rep),
          nd1\<lparr>nd_security := (nd_security nd)\<lparr>sess_context := c\<rparr>, nd_observer := obs1, nd_window_id := nd_window_id nd + 1\<rparr>, s1)"
      using e(1) False unfolding plan_def nd1_def
      by (simp add: node_turn_def size_def [symmetric] ov_def [symmetric] Let_def)
    have "node_inv (nd1\<lparr>nd_security := (nd_security nd)\<lparr>sess_context := c\<rparr>, nd_observer := obs1, nd_window_id := nd_window_id nd + 1\<rparr>)"
      using e(3) b(2) by (simp add: node_inv_def nd1_def)
    then show ?thesis using turn nd(2) by (simp add: ov_def nd1_def)
  qed
qed

section \<open>The process\<close>

text \<open>The first \<open>k\<close> turns of the endless loop.\<close>

fun node_turns ::
    "libm \<Rightarrow> platform \<Rightarrow> 's exchange \<Rightarrow> nat \<Rightarrow> nat \<Rightarrow> 'c node_state \<Rightarrow> 's \<Rightarrow> (window_report list \<times> 'c node_state \<times> 's) option" where
  "node_turns m pf exchange clock_second 0 nd s = Some ([], nd, s)"
| "node_turns m pf exchange clock_second (Suc k) nd s =
     (case node_turn m pf exchange clock_second nd s of
        None \<Rightarrow> None
      | Some (report, nd1, s1) \<Rightarrow>
          (case node_turns m pf exchange clock_second k nd1 s1 of
             None \<Rightarrow> None
           | Some (reports, nd2, s2) \<Rightarrow> Some (report # reports, nd2, s2)))"

text \<open>Every block size of the configuration has room for a record.\<close>

definition blocks_usable :: "'c node_state \<Rightarrow> bool" where
  "blocks_usable nd \<longleftrightarrow>
     (\<forall>st < 5. sess_overhead (nd_security nd) < adaptive_coap_block_size (block_szx (nd_config nd) ! st))"

fun is_sent :: "window_report \<Rightarrow> bool" where
  "is_sent (Window_Sent a st count n) = True"
| "is_sent _ = False"

lemma node_turns_end:
  assumes m: "libm_ok m" and pf: "platform_ok pf" and ex: "answers_in_time exchange" "clock_ok clock_second"
  shows "node_inv nd \<Longrightarrow> sess_seal (nd_security nd) = Some test_seal \<Longrightarrow> blocks_usable nd \<Longrightarrow>
    \<exists>reports nd' s'. node_turns m pf exchange clock_second k nd s = Some (reports, nd', s') \<and> length reports = k \<and>
      list_all is_sent reports \<and> node_inv nd' \<and> nd_window_id nd' = nd_window_id nd + word_of_nat k"
proof (induction k arbitrary: nd s)
  case (Suc k)
  obtain report nd1 s1 where t: "node_turn m pf exchange clock_second nd s = Some (report, nd1, s1)" "node_inv nd1"
      "sess_seal (nd_security nd1) = Some test_seal" "sess_overhead (nd_security nd1) = sess_overhead (nd_security nd)"
      "nd_config nd1 = nd_config nd" "is_sent report" "nd_window_id nd1 = nd_window_id nd + 1"
    using node_turn_ends [OF m pf ex Suc.prems(1,2), of s] Suc.prems(3) unfolding blocks_usable_def
    by (auto split: if_splits simp: not_le)
  have "blocks_usable nd1" using Suc.prems(3) t(4,5) by (simp add: blocks_usable_def)
  from Suc.IH [OF t(2,3) this, of s1] show ?case using t(1,6,7) by (auto simp: algebra_simps)
qed simp

lemma node_start_inv:
  assumes "node_start config0 normalizer0 client_alloc server_alloc = Some nd"
  shows "node_inv nd" "sess_seal (nd_security nd) = Some test_seal" "blocks_usable nd" "nd_window_id nd = 1"
    "nd_config nd = default_config" "sess_overhead (nd_security nd) = ADAPTIVE_SECURITY_OVERHEAD"
proof -
  have five: "s < 5 \<Longrightarrow> s \<in> {0, 1, 2, 3, 4}" for s :: nat by auto
  obtain h where h: "adaptive_hmm_init True (Some default_config) = Inr h" "hmm_inv h" using default_hmm by blast
  obtain client server where pair: "adaptive_security_test_pair True True ADAPTIVE_TEST_SEED client_alloc server_alloc = Inr (client, server)"
    using assms by (auto simp: node_start_def Let_def split: sum.splits)
  have ses: "sess_seal client = Some test_seal" "sess_overhead client = ADAPTIVE_SECURITY_OVERHEAD"
    using pair by (auto simp: adaptive_security_test_pair_def security_constants Let_def split: if_splits)
  have nd: "nd = \<lparr>nd_config = default_config,
      nd_normalizer = the (adaptive_normalizer_init (Some normalizer0) (baseline_alpha default_config) (baseline_epsilon default_config)),
      nd_hmm = h, nd_observer = zero_observer, nd_security = client, nd_window_id = 1\<rparr>"
    using assms pair h by (simp add: node_start_def defaults_Some Let_def)
  have "normalizer_inv (the (adaptive_normalizer_init (Some normalizer0) (baseline_alpha default_config) (baseline_epsilon default_config)))"
    by (rule normalizer_init_inv) (simp_all add: default_fields unit_ddec ddec_lower)
  moreover have "validate_transform (window_size default_config) (wavelet_levels default_config) ADAPTIVE_MAX_WINDOW = Inr ()"
    using validated_facts [OF default_shape default_valid] by simp
  ultimately show "node_inv nd" using h(2) zero_observer_inv by (simp add: nd node_inv_def)
  show "blocks_usable nd"
    unfolding blocks_usable_def
  proof (intro allI impI)
    fix s :: nat assume "s < 5"
    then show "sess_overhead (nd_security nd) < adaptive_coap_block_size (block_szx (nd_config nd) ! s)"
      using five [of s] by (auto simp: nd ses default_fields adaptive_coap_block_size_def push_bit_eq_mult security_constants)
  qed
  show "sess_seal (nd_security nd) = Some test_seal" "nd_window_id nd = 1" "nd_config nd = default_config"
    "sess_overhead (nd_security nd) = ADAPTIVE_SECURITY_OVERHEAD"
    by (simp_all add: nd ses)
qed

text \<open>
  C3: The Contiki node never stops. From the start of its process, whatever the sensor yields,
  whatever the server or the network answer to each block (acceptance, rejection, a timeout)
  and however long they take, every turn of its endless loop comes to its end, no turn fails
  to encode or finds the block size too small, each takes the next window id, and baseline,
  hidden Markov model and observer keep their invariants.
\<close>

theorem node_never_stops:
  assumes "node_start config0 normalizer0 client_alloc server_alloc = Some nd"
    and "libm_ok m" "platform_ok pf" "answers_in_time exchange" "clock_ok clock_second"
  shows "\<exists>reports nd' s'. node_turns m pf exchange clock_second k nd s = Some (reports, nd', s') \<and> length reports = k \<and>
    list_all is_sent reports \<and> node_inv nd' \<and> nd_window_id nd' = 1 + word_of_nat k"
  using node_turns_end [OF assms(2-5) node_start_inv(1-3) [OF assms(1)]] node_start_inv(4) [OF assms(1)] by metis

text \<open>A network that never answers.\<close>

lemma node_never_stops_witness:
  "\<exists>nd reports nd' s'. node_start zero_config zero_normalizer True True = Some nd \<and>
    node_turns zero_libm default_platform (\<lambda>request s. ([None], 640, s + 1)) 128 3 nd (0 :: nat) = Some (reports, nd', s') \<and>
    length reports = 3 \<and> nd_window_id nd' = 4"
proof -
  obtain nd where nd: "node_start zero_config zero_normalizer True True = Some nd"
    by (auto simp: node_start_def adaptive_security_test_pair_def Let_def)
  have "platform_ok default_platform"
    using dbl_in_zero [of 0 1]
    by (simp add: platform_ok_def default_platform_def adaptive_platform_queue_ratio_def adaptive_platform_mac_retry_ratio_def)
  moreover have "answers_in_time (\<lambda>request s. ([None], 640, s + 1) :: u8 option list \<times> nat \<times> nat)" "clock_ok 128"
    by (simp_all add: answers_in_time_def clock_ok_def)
  ultimately show ?thesis
    using node_never_stops [OF nd zero_libm_ok, of default_platform "\<lambda>request s. ([None], 640, s + 1)" 128 3 "0 :: nat"] nd by fastforce
qed

end
