(* ===== verification/Node_Server.thy ===== *)
theory Node_Server
  imports Node_Progress Silent_Window
begin

text \<open>
  The two Contiki processes together: what the node sends over a network that delivers is
  what the server decodes, block by block and window by window.
\<close>

declare One_nat_def [simp del]

section \<open>A network that delivers\<close>

text \<open>The response codes of RFC 7252 and RFC 7959: class and detail.\<close>

fun status_code :: "coap_status \<Rightarrow> u8" where
  "status_code BAD_REQUEST_4_00 = 128"
| "status_code UNAUTHORIZED_4_01 = 129"
| "status_code REQUEST_ENTITY_INCOMPLETE_4_08 = 136"
| "status_code CONTINUE_2_31 = 95"
| "status_code CHANGED_2_04 = 68"

text \<open>What the server's CoAP engine parses of a request of the node.\<close>

definition delivered_request :: "node_request \<Rightarrow> coap_request" where
  "delivered_request rq =
     \<lparr>rq_type = ADAPTIVE_COAP_TYPE_CON, rq_code = ADAPTIVE_COAP_CODE_POST, rq_token = nq_token rq @ replicate 4 0,
      rq_token_len = 4, rq_block1 = Some (nq_block1 rq), rq_content_format = Some (nq_content_format rq),
      rq_payload = Some (nq_payload rq)\<rparr>"

text \<open>The exchange with the server, which keeps the windows it decoded; \<open>delay\<close> is the time it takes.\<close>

definition server_exchange ::
    "(node_request \<Rightarrow> nat) \<Rightarrow> ('c server_state \<times> (float32 list \<times> codec_metadata) list) exchange" where
  "server_exchange delay rq sw =
     (case telemetry_post_handler (delivered_request rq) (fst sw) of
        (reply, sv, w) \<Rightarrow>
          ([Some (status_code (rp_status reply))], delay rq,
           (sv, snd sw @ (case w of None \<Rightarrow> [] | Some x \<Rightarrow> [x]))))"

section \<open>One block\<close>

lemma szx_of_block_size: "z \<le> 6 \<Longrightarrow> szx_from_size (adaptive_coap_block_size z) = Inr z"
proof -
  assume "z \<le> 6"
  then have k: "unat z \<le> 6" by (simp add: word_le_nat_alt)
  have "szx_from_size (adaptive_coap_block_size (word_of_nat k)) = Inr (word_of_nat k)" if "k \<in> {0, 1, 2, 3, 4, 5, 6}" for k
    using that by (elim insertE emptyE; hypsubst) code_simp+
  from this [of "unat z"] k show ?thesis by fastforce
qed

definition plan_of :: "adaptive_config \<Rightarrow> transfer \<Rightarrow> node_window_plan" where
  "plan_of c t =
     \<lparr>np_config = c, np_state = tr_state t, np_bytes = tr_bytes t, np_window_id = tr_window_id t,
      np_block_size = tr_block_size t, np_capacity = tr_capacity t, np_protected_size = tr_total t\<rparr>"

lemma node_aad_block_eq:
  "node_aad_block (plan_of c t) (word_of_nat n) mf = (pipeline_block c t 0 n mf)\<lparr>size1 := 0\<rparr>"
  by (simp add: node_aad_block_def plan_of_def pipeline_block_def zero_block_def)

definition node_request_of :: "adaptive_config \<Rightarrow> transfer \<Rightarrow> nat \<Rightarrow> bytes \<Rightarrow> node_request" where
  "node_request_of c t n rec =
     \<lparr>nq_token = write_u32_be (tr_window_id t), nq_uri_path = uri_path c, nq_content_format = config_content_format c,
      nq_block1 = (word_of_nat n, more_blocks t n, tr_block_size t), nq_size1 = tr_total t, nq_payload = rec\<rparr>"

text \<open>The server sees the block of the pipeline, but for Size1.\<close>

lemma delivered_block:
  assumes "block_szx c ! tr_state t \<le> 6" "tr_block_size t = adaptive_coap_block_size (block_szx c ! tr_state t)" "rec \<noteq> []"
  shows "acceptable (delivered_request (node_request_of c t n rec))"
    "length (rq_token (delivered_request (node_request_of c t n rec))) = 8"
    "block_of (delivered_request (node_request_of c t n rec)) = (record_block c t 0 n rec)\<lparr>size1 := 0\<rparr>"
  using assms(3) szx_of_block_size [OF assms(1), folded assms(2)]
  by (simp_all add: acceptable_def delivered_request_def node_request_of_def block_of_def request_block_def
      record_block_def pipeline_block_def zero_block_def)

lemma expected_ignores [simp]:
  "start_transfer r (b\<lparr>size1 := s\<rparr>) = start_transfer r b" "expected_block r (b\<lparr>size1 := s\<rparr>) = expected_block r b"
  by (simp_all add: start_transfer_def expected_block_def)

lemma server_takes_block:
  assumes ok: "transfer_ok c overhead t" "n < tr_count t" and ready: "receiver_ready t n (receiver_of sv)"
    and size: "tr_block_size t = adaptive_coap_block_size (block_szx c ! tr_state t)"
    and opn: "sess_open (server_security sv) = Some opn" and rec: "length rec \<le> 1024" "0 < length rec"
    and opened: "opn (sess_context (server_security sv)) rec (block_aad c t 0 n) 1024 = (Inr (block_chunk t n), s')"
    and dec: "\<not> n + 1 < tr_count t \<Longrightarrow> adaptive_codec_decode (Some (tr_bytes t)) True 256 True = Inr w"
  shows "\<exists>sv'. server_exchange delay (node_request_of c t n rec) (sv, ws) =
      ([Some (if n + 1 < tr_count t then 95 else 68)], delay (node_request_of c t n rec),
       (sv', if n + 1 < tr_count t then ws else ws @ [w])) \<and>
    server_security sv' = (server_security sv)\<lparr>sess_context := s'\<rparr> \<and> 4 \<le> length (active_token sv') \<and>
    (n + 1 < tr_count t \<longrightarrow> receiver_ready t (n + 1) (receiver_of sv')) \<and> (\<not> n + 1 < tr_count t \<longrightarrow> \<not> transfer_active sv')"
proof -
  define rq where "rq = delivered_request (node_request_of c t n rec)"
  define b where "b = record_block c t 0 n rec"
  define r' where "r' = took_block t n b ((server_security sv)\<lparr>sess_context := s'\<rparr>) (receiver_of sv)"
  have z: "block_szx c ! tr_state t \<le> 6" using ok(1) by (simp add: transfer_ok_def)
  have "rec \<noteq> []" using rec by auto
  note rq = delivered_block [OF z size this, of n, folded rq_def, folded b_def]
  have acc: "accept_block (receiver_of sv) (block_of rq) ADAPTIVE_MAX_WINDOW =
      (if n + 1 < tr_count t then (Inr None, r') else (Inr (Some w), r'\<lparr>rv_active := False\<rparr>))"
    using accept_block_chunk [OF ok ready _ opn rec opened, folded b_def, of 256] dec
    by (simp add: rq(3) ADAPTIVE_MAX_WINDOW_def r'_def)
  have exp: "expected_block (start_transfer (receiver_of sv) (block_of rq)) (block_of rq)"
    using start_transfer_ready(1) [OF ready block_chunk_length(6) [OF ok] b_def] by (simp add: rq(3))
  obtain rp sv' win where h: "telemetry_post_handler rq sv = (rp, sv', win)" by (metis prod.exhaust)
  note st = start_transfer_ready [OF ready block_chunk_length(6) [OF ok] b_def]
  have tok: "4 \<le> length (rv_token r')" using st(8) by (simp add: r'_def took_block_def)
  have sec: "rv_security r' = Some ((server_security sv)\<lparr>sess_context := s'\<rparr>)" by (simp add: r'_def took_block_def)
  show ?thesis
  proof (cases "n + 1 < tr_count t")
    case True
    have k: "receiver_of sv' = r'" "win = None" "rp_status rp = CONTINUE_2_31"
      using handler_accepts [OF rq(1,2) h, of "Inr None" r'] acc exp True by (simp_all add: answer_of_def window_of_def)
    have "server_security sv' = (server_security sv)\<lparr>sess_context := s'\<rparr>" "4 \<le> length (active_token sv')"
      using sec tok receiver_of_simps(1,4) [of sv'] k(1) by simp_all
    moreover have "receiver_ready t (n + 1) (receiver_of sv')"
      unfolding k(1) r'_def b_def by (rule took_block_ready [OF ready block_chunk_length(6) [OF ok]])
    ultimately show ?thesis using True h k by (simp add: server_exchange_def rq_def)
  next
    case False
    have k: "receiver_of sv' = r'\<lparr>rv_active := False\<rparr>" "win = Some w" "rp_status rp = CHANGED_2_04"
      using handler_accepts [OF rq(1,2) h, of "Inr (Some w)" "r'\<lparr>rv_active := False\<rparr>"] acc exp False
      by (simp_all add: answer_of_def window_of_def)
    have "server_security sv' = (server_security sv)\<lparr>sess_context := s'\<rparr>" "4 \<le> length (active_token sv')" "\<not> transfer_active sv'"
      using sec tok receiver_of_simps(1,4,6) [of sv'] k(1) by simp_all
    then show ?thesis using False h k by (simp add: server_exchange_def rq_def)
  qed
qed

section \<open>The blocks of a window\<close>

text \<open>Node and server are in step for \<open>k\<close> more records.\<close>

definition node_linked ::
    "'c seal_fn \<Rightarrow> 'c open_fn \<Rightarrow> (nat \<Rightarrow> 'c option \<Rightarrow> 'c option \<Rightarrow> bool) \<Rightarrow> nat \<Rightarrow>
     'c security_session \<Rightarrow> 'c server_state \<Rightarrow> bool" where
  "node_linked sealf openf synced k ses sv \<longleftrightarrow>
     sess_seal ses = Some sealf \<and> sess_open (server_security sv) = Some openf \<and>
     synced k (sess_context ses) (sess_context (server_security sv)) \<and> 4 \<le> length (active_token sv)"

context record_layer
begin

lemma node_block_delivers:
  assumes ok: "transfer_ok c overhead t" "n < tr_count t" and size: "tr_block_size t = adaptive_coap_block_size (block_szx c ! tr_state t)"
    and link: "node_linked seal opn synced (Suc k) ses sv" and ready: "receiver_ready t n (receiver_of sv)"
    and dec: "\<not> n + 1 < tr_count t \<Longrightarrow> adaptive_codec_decode (Some (tr_bytes t)) True 256 True = Inr w"
  shows "\<exists>ctx obs' sv'. node_block (server_exchange delay) clock_second (plan_of c t) (n * tr_capacity t) (word_of_nat n) ses obs (sv, ws) =
      (Some (length (block_chunk t n)), ses\<lparr>sess_context := ctx\<rparr>, obs', (sv', if n + 1 < tr_count t then ws else ws @ [w])) \<and>
    node_linked seal opn synced k (ses\<lparr>sess_context := ctx\<rparr>) sv' \<and>
    (n + 1 < tr_count t \<longrightarrow> receiver_ready t (n + 1) (receiver_of sv')) \<and> (\<not> n + 1 < tr_count t \<longrightarrow> \<not> transfer_active sv')"
proof -
  note ch = block_chunk_length [OF ok] and lk = link [unfolded node_linked_def]
  define aad where "aad = block_aad c t 0 n"
  define len where "len = length (block_chunk t n)"
  have fit: "length (block_chunk t n) + overhead \<le> 1024" "length (block_chunk t n) \<le> 1024"
    using ch(1) ok(1) by (auto simp: transfer_ok_def)
  have al: "length aad = 16"
    using build_aad_length [of "pipeline_block c t 0 n (more_blocks t n)"] by (simp add: aad_def block_aad_def pipeline_block_def zero_block_def)
  have small: "fits (length (block_chunk t n)) (length aad)"
    using fit(2) al by (intro block_fits) (simp_all add: ADAPTIVE_MAX_BLOCK_SIZE_def)
  obtain rec c' s' where rec: "seal (sess_context ses) (block_chunk t n) aad 1024 = (Inr rec, c')"
      "length rec = length (block_chunk t n) + overhead"
      "opn (sess_context (server_security sv)) rec aad 1024 = (Inr (block_chunk t n), s')" "synced k c' s'"
    by (rule seal_open_step [OF _ fit(1) small fit(2)]) (use lk in auto)
  have reclen: "length rec \<le> 1024" "0 < length rec" using rec(2) fit ch(3) by simp_all
  have opened: "sess_open (server_security sv) = Some opn" using lk by blast
  define rq where "rq = node_request_of c t n rec"
  obtain sv' where sv': "server_exchange delay rq (sv, ws) =
        ([Some (if n + 1 < tr_count t then 95 else 68)], delay rq, (sv', if n + 1 < tr_count t then ws else ws @ [w]))"
      "server_security sv' = (server_security sv)\<lparr>sess_context := s'\<rparr>" "4 \<le> length (active_token sv')"
      "n + 1 < tr_count t \<longrightarrow> receiver_ready t (n + 1) (receiver_of sv')" "\<not> n + 1 < tr_count t \<longrightarrow> \<not> transfer_active sv'"
    using server_takes_block [OF ok ready size opened reclen rec(3) [unfolded aad_def] dec] unfolding rq_def by blast
  have plen: "(if length (tr_bytes t) - n * tr_capacity t < tr_capacity t then length (tr_bytes t) - n * tr_capacity t
      else tr_capacity t) = len" by (simp add: len_def block_chunk_def)
  have pt: "pointed_bytes (Some (drop (n * tr_capacity t) (tr_bytes t))) len = block_chunk t n"
    by (simp add: pointed_bytes_def len_def block_chunk_def min_def)
  have pa: "pointed_bytes (Some aad) 16 = aad" using al by (simp add: pointed_bytes_def)
  have mf: "(if n * tr_capacity t + len < length (tr_bytes t) then 1 else 0) = more_blocks t n"
  proof (cases "more_blocks t n = 0")
    case True
    then have "take (n * tr_capacity t) (tr_bytes t) @ block_chunk t n = tr_bytes t" using ch(4,5) by simp
    then have "length (tr_bytes t) = min (length (tr_bytes t)) (n * tr_capacity t) + len" by (metis len_def length_append length_take)
    then show ?thesis using True by (simp add: min_def split: if_splits)
  next
    case False
    then have "n + 1 < tr_count t" "len = tr_capacity t" using ch(2) by (auto simp: more_blocks_def len_def split: if_splits)
    moreover have cnt: "tr_count t = (length (tr_bytes t) + tr_capacity t - 1) div tr_capacity t" using ok(1) by (simp add: transfer_ok_def)
    moreover have "(n + 1) * tr_capacity t = n * tr_capacity t + tr_capacity t" by (simp add: add_mult_distrib)
    ultimately have "n * tr_capacity t + len < length (tr_bytes t)"
      using ceiling_bounds(2) [OF ch(7) cnt ok(2)] by linarith
    then show ?thesis using False by (simp add: more_blocks_def split: if_splits)
  qed
  have aad': "adaptive_pipeline_build_aad (Some ((pipeline_block c t 0 n (more_blocks t n))\<lparr>size1 := 0\<rparr>)) True = aad"
    by (simp add: aad_def block_aad_def)
  have sealed: "adaptive_security_seal (Some ses) (Some (drop (n * tr_capacity t) (tr_bytes t))) len (Some aad) 16 True
      1024 True = (Inr rec, Some (ses\<lparr>sess_context := c'\<rparr>))"
    using lk pa by (simp add: adaptive_security_seal_def pt rec(1))
  have tok: "take 4 (token (pipeline_block c t 0 n (more_blocks t n))) = write_u32_be (tr_window_id t)"
    by (simp add: pipeline_block_def zero_block_def)
  have rq: "rq = \<lparr>nq_token = write_u32_be (tr_window_id t), nq_uri_path = uri_path c, nq_content_format = config_content_format c,
      nq_block1 = (word_of_nat n, more_blocks t n, tr_block_size t), nq_size1 = tr_total t, nq_payload = rec\<rparr>"
    by (simp add: rq_def node_request_of_def)
  have code: "exchange_ok [Some (if n + 1 < tr_count t then 95 else 68)]"
    by (simp add: exchange_ok_def response_handler_def)
  have plan: "np_bytes (plan_of c t) = tr_bytes t" "np_capacity (plan_of c t) = tr_capacity t" "np_config (plan_of c t) = c"
    "np_block_size (plan_of c t) = tr_block_size t" "np_protected_size (plan_of c t) = tr_total t" by (simp_all add: plan_of_def)
  have run: "node_block (server_exchange delay) clock_second (plan_of c t) (n * tr_capacity t) (word_of_nat n) ses obs (sv, ws) =
      (Some len, ses\<lparr>sess_context := c'\<rparr>,
       the (adaptive_contiki_observer_record clock_second (Some obs) (delay rq) True (length rec)),
       (sv', if n + 1 < tr_count t then ws else ws @ [w]))"
    unfolding node_block_def Let_def plan plen mf node_aad_block_eq aad' ADAPTIVE_MAX_BLOCK_SIZE_def
    using code by (simp add: sealed tok rq [symmetric] sv'(1))
  show ?thesis
    using run rec(4) lk sv'(2-5) by (auto simp: node_linked_def len_def)
qed

lemma node_blocks_deliver:
  assumes dec: "adaptive_codec_decode (Some (tr_bytes t)) True 256 True = Inr w" and ok: "transfer_ok c overhead t"
    and size: "tr_block_size t = adaptive_coap_block_size (block_szx c ! tr_state t)"
  shows "n < tr_count t \<Longrightarrow> node_linked seal opn synced (tr_count t - n + k) ses sv \<Longrightarrow> receiver_ready t n (receiver_of sv) \<Longrightarrow>
    \<exists>ctx obs' sv'. node_blocks (server_exchange delay) clock_second (plan_of c t) (n * tr_capacity t) (word_of_nat n) ses obs (sv, ws) =
        Some (True, ses\<lparr>sess_context := ctx\<rparr>, obs', (sv', ws @ [w])) \<and>
      node_linked seal opn synced k (ses\<lparr>sess_context := ctx\<rparr>) sv' \<and> \<not> transfer_active sv'"
proof (induction "tr_count t - n" arbitrary: n ses obs sv)
  case (Suc d)
  have link: "node_linked seal opn synced (Suc (tr_count t - (n + 1) + k)) ses sv"
  proof -
    have "tr_count t - n + k = Suc (tr_count t - (n + 1) + k)" using Suc.prems(1) by linarith
    then show ?thesis using Suc.prems(2) by (simp only:)
  qed
  obtain ctx obs1 sv1 where one:
    "node_block (server_exchange delay) clock_second (plan_of c t) (n * tr_capacity t) (word_of_nat n) ses obs (sv, ws) =
      (Some (length (block_chunk t n)), ses\<lparr>sess_context := ctx\<rparr>, obs1, (sv1, if n + 1 < tr_count t then ws else ws @ [w]))"
    "node_linked seal opn synced (tr_count t - (n + 1) + k) (ses\<lparr>sess_context := ctx\<rparr>) sv1"
    "n + 1 < tr_count t \<longrightarrow> receiver_ready t (n + 1) (receiver_of sv1)" "\<not> n + 1 < tr_count t \<longrightarrow> \<not> transfer_active sv1"
    using node_block_delivers [OF ok Suc.prems(1) size link Suc.prems(3) dec, of delay clock_second obs ws] by blast
  note ch = block_chunk_length [OF ok Suc.prems(1)]
  have cnt: "tr_count t = (length (tr_bytes t) + tr_capacity t - 1) div tr_capacity t" using ok by (simp add: transfer_ok_def)
  have off: "n * tr_capacity t < length (np_bytes (plan_of c t))"
    using ceiling_bounds(1) [OF ch(7) cnt Suc.prems(1)] by (simp add: plan_of_def)
  note step = node_blocks.simps [of "server_exchange delay" clock_second "plan_of c t" "n * tr_capacity t" "word_of_nat n" ses obs "(sv, ws)"]
  show ?case
  proof (cases "n + 1 < tr_count t")
    case True
    have len: "n * tr_capacity t + length (block_chunk t n) = (n + 1) * tr_capacity t"
      using ch(2) True by (simp add: more_blocks_def add_mult_distrib)
    have d: "d = tr_count t - (n + 1)" using Suc.hyps(2) by simp
    have w1: "(word_of_nat n :: u32) + 1 = word_of_nat (n + 1)" by simp
    obtain ctx2 obs2 sv2 where rest:
      "node_blocks (server_exchange delay) clock_second (plan_of c t) ((n + 1) * tr_capacity t) (word_of_nat (n + 1))
          (ses\<lparr>sess_context := ctx\<rparr>) obs1 (sv1, ws) = Some (True, ses\<lparr>sess_context := ctx2\<rparr>, obs2, (sv2, ws @ [w]))"
      "node_linked seal opn synced k (ses\<lparr>sess_context := ctx2\<rparr>) sv2" "\<not> transfer_active sv2"
      using Suc.hyps(1) [OF d True one(2), of obs1] one(3) True by auto
    have "node_blocks (server_exchange delay) clock_second (plan_of c t) (n * tr_capacity t) (word_of_nat n) ses obs (sv, ws) =
        Some (True, ses\<lparr>sess_context := ctx2\<rparr>, obs2, (sv2, ws @ [w]))"
      unfolding step by (simp only: off one(1) True if_True prod.case option.case len w1 rest(1))
    then show ?thesis using rest(2,3) by blast
  next
    case False
    then have "more_blocks t n = 0" by (simp add: more_blocks_def)
    then have "take (n * tr_capacity t) (tr_bytes t) @ block_chunk t n = tr_bytes t" using ch(4,5) by simp
    then have "length (tr_bytes t) = min (length (tr_bytes t)) (n * tr_capacity t) + length (block_chunk t n)"
      by (metis length_append length_take)
    then have stop: "\<not> n * tr_capacity t + length (block_chunk t n) < length (np_bytes (plan_of c t))"
      by (simp add: plan_of_def min_def split: if_splits)
    have last: "node_blocks (server_exchange delay) clock_second (plan_of c t) (n * tr_capacity t + length (block_chunk t n))
        (word_of_nat n + 1) (ses\<lparr>sess_context := ctx\<rparr>) obs1 (sv1, ws @ [w]) = Some (True, ses\<lparr>sess_context := ctx\<rparr>, obs1, (sv1, ws @ [w]))"
      using stop by (simp add: node_blocks.simps)
    have "node_blocks (server_exchange delay) clock_second (plan_of c t) (n * tr_capacity t) (word_of_nat n) ses obs (sv, ws) =
        Some (True, ses\<lparr>sess_context := ctx\<rparr>, obs1, (sv1, ws @ [w]))"
      unfolding step by (simp only: off one(1) False if_True if_False prod.case option.case last)
    moreover have "node_linked seal opn synced k (ses\<lparr>sess_context := ctx\<rparr>) sv1" using one(2) False by simp
    ultimately show ?thesis using one(4) False by blast
  qed
qed simp

lemma node_turn_delivers:
  assumes m: "libm_ok m" and pf: "platform_ok pf" and nd: "node_inv nd" "sendable overhead (nd_config nd)"
    and ov: "sess_overhead (nd_security nd) = overhead" and link: "node_linked seal opn synced (1088 + k) (nd_security nd) sv"
    and xs: "window_ok m (nd_config nd) (read_window pf (window_size (nd_config nd)) (nd_window_id nd))"
  shows "\<exists>st count n nd' sv' ys md.
    node_turn m pf (server_exchange delay) clock_second nd (sv, ws) =
      Some (Window_Sent True st count n, nd', (sv', ws @ [(ys, md)])) \<and>
    md_window_id md = nd_window_id nd \<and> md_state md = st \<and> length ys = window_size (nd_config nd) \<and> n \<le> 1052 \<and>
    node_linked seal opn synced k (nd_security nd') sv'"
proof -
  define c where "c = nd_config nd"
  define xs where "xs = read_window pf (window_size c) (nd_window_id nd)"
  have len: "length xs = window_size c" and ok: "window_ok m c xs" using assms(7) by (simp_all add: window_ok_def xs_def c_def)
  obtain st rep md0 n h where e: "node_encode m pf nd = (Inr (st, rep), nd\<lparr>nd_normalizer := n, nd_hmm := h\<rparr>)" "st < 5"
      "adaptive_codec_encode m (Some xs) (window_size c) (nd_window_id nd) st (Some c) True ADAPTIVE_MAX_REPRESENTATION True = Inr (rep, md0)"
    unfolding xs_def c_def by (rule node_encode_keeps [OF m pf nd(1)])
  obtain rep' md0' ys md where enc:
    "adaptive_codec_encode m (Some xs) (length xs) (nd_window_id nd) st (Some c) True ADAPTIVE_MAX_REPRESENTATION True = Inr (rep', md0')"
    "0 < length rep'" "length rep' \<le> 1052" "adaptive_codec_decode (Some rep') True 256 True = Inr (ys, md)" "length ys = length xs"
    "md_window_id md = nd_window_id nd" "md_state md = st" "md_sample_count md = length xs"
    by (rule window_encodes [OF nd(2) [folded c_def] e(2) ok])
  have rep: "rep' = rep" using enc(1) e(3) len by simp
  have len2: "0 < length rep" "length rep \<le> 1088" using enc(2,3) by (simp_all add: rep)
  obtain t where t: "plan_transfer c overhead (nd_window_id nd) st rep = Inr t" "transfer_ok c overhead t"
      "tr_bytes t = rep" "tr_window_id t = nd_window_id nd" "tr_state t = st" "0 < tr_count t" "tr_count t \<le> 1088"
    by (rule plan_transfer_ok [OF nd(2) [folded c_def] e(2) len2])
  define bsize where "bsize = adaptive_coap_block_size (block_szx c ! st)"
  have size: "tr_block_size t = bsize" "\<not> bsize \<le> overhead" "tr_capacity t = bsize - overhead"
      "tr_count t = (length rep + (bsize - overhead) - 1) div (bsize - overhead)"
      "tr_total t = length rep + (length rep + (bsize - overhead) - 1) div (bsize - overhead) * overhead"
    using t(1) by (auto simp: plan_transfer_def Let_def bsize_def [symmetric] simp del: diff_diff_left split: if_splits)
  have plan: "\<lparr>np_config = c, np_state = st, np_bytes = rep, np_window_id = nd_window_id nd, np_block_size = bsize,
      np_capacity = bsize - overhead,
      np_protected_size = length rep + (length rep + (bsize - overhead) - 1) div (bsize - overhead) * overhead\<rparr> = plan_of c t"
    unfolding plan_of_def t(3-5) size(1,3,5) by (rule refl)
  have link': "node_linked seal opn synced (tr_count t - 0 + k) (nd_security nd) sv"
    using link t(7) synced_less [of _ "1088 + k"] by (auto simp: node_linked_def)
  have ready: "receiver_ready t 0 (receiver_of sv)" using link by (simp add: receiver_ready_def node_linked_def)
  have size': "tr_block_size t = adaptive_coap_block_size (block_szx c ! tr_state t)" by (simp add: size(1) bsize_def t(5))
  obtain ctx obs' sv' where b: "node_blocks (server_exchange delay) clock_second (plan_of c t) 0 0 (nd_security nd) (nd_observer nd) (sv, ws) =
        Some (True, (nd_security nd)\<lparr>sess_context := ctx\<rparr>, obs', (sv', ws @ [(ys, md)]))"
      "node_linked seal opn synced k ((nd_security nd)\<lparr>sess_context := ctx\<rparr>) sv'"
    using node_blocks_deliver [OF _ t(2) size' t(6) link' ready, of "(ys, md)" delay clock_second "nd_observer nd" ws]
      enc(4) t(3) by (auto simp: rep)
  have "node_turn m pf (server_exchange delay) clock_second nd (sv, ws) =
      Some (Window_Sent True st (tr_count t) (length rep),
        nd\<lparr>nd_normalizer := n, nd_hmm := h, nd_security := (nd_security nd)\<lparr>sess_context := ctx\<rparr>, nd_observer := obs',
           nd_window_id := nd_window_id nd + 1\<rparr>, (sv', ws @ [(ys, md)]))"
    unfolding node_turn_def e(1) prod.case sum.case Let_def
    using size(2) by (simp add: c_def [symmetric] ov bsize_def [symmetric] plan b(1) size(4) del: diff_diff_left Nat.add_diff_assoc)
  then show ?thesis using enc(3,5-7) len b(2) by (auto simp: rep c_def)
qed

end

section \<open>Both processes from their start\<close>

text \<open>What the node reports of a turn and what the server decoded in it belong together.\<close>

definition window_matches :: "adaptive_config \<Rightarrow> u32 \<Rightarrow> window_report \<Rightarrow> float32 list \<times> codec_metadata \<Rightarrow> bool" where
  "window_matches c wid report w \<longleftrightarrow>
     report = Window_Sent True (md_state (snd w)) (sent_blocks report) (sent_bytes report) \<and>
     md_window_id (snd w) = wid \<and> length (fst w) = window_size c"

fun windows_match :: "adaptive_config \<Rightarrow> u32 \<Rightarrow> window_report list \<Rightarrow> (float32 list \<times> codec_metadata) list \<Rightarrow> bool" where
  "windows_match c wid [] [] = True"
| "windows_match c wid (r # rs) (w # ws) = (window_matches c wid r w \<and> windows_match c (wid + 1) rs ws)"
| "windows_match c wid _ _ = False"

lemma node_turns_deliver:
  assumes m: "libm_ok m" and pf: "platform_ok pf" and ex: "answers_in_time (server_exchange delay :: (test_context server_state \<times> _) exchange)" "clock_ok clock_second"
    and xs: "\<And>wid. window_ok m c (read_window pf (window_size c) wid)" and c: "sendable ADAPTIVE_SECURITY_OVERHEAD c"
  shows "node_inv nd \<Longrightarrow> nd_config nd = c \<Longrightarrow> sess_overhead (nd_security nd) = ADAPTIVE_SECURITY_OVERHEAD \<Longrightarrow>
    node_linked test_seal test_open test_synced (1088 * k) (nd_security nd) sv \<Longrightarrow>
    \<exists>reports nd' sv' ws'. node_turns m pf (server_exchange delay) clock_second k nd (sv, ws) = Some (reports, nd', (sv', ws @ ws')) \<and>
      length reports = k \<and> windows_match c (nd_window_id nd) reports ws'"
proof (induction k arbitrary: nd sv ws)
  case 0
  have "node_turns m pf (server_exchange delay) clock_second 0 nd (sv, ws) = Some ([], nd, (sv, ws @ []))" by simp
  then show ?case by (metis list.size(3) windows_match.simps(1))
next
  case (Suc k)
  have link: "node_linked test_seal test_open test_synced (1088 + 1088 * k) (nd_security nd) sv" using Suc.prems(4) by (simp add: algebra_simps)
  have ses: "sess_seal (nd_security nd) = Some test_seal" using link by (simp add: node_linked_def)
  obtain st count n nd1 sv1 ys md where t:
    "node_turn m pf (server_exchange delay) clock_second nd (sv, ws) = Some (Window_Sent True st count n, nd1, (sv1, ws @ [(ys, md)]))"
    "md_window_id md = nd_window_id nd" "md_state md = st" "length ys = window_size c"
    "node_linked test_seal test_open test_synced (1088 * k) (nd_security nd1) sv1"
    using test_layer.node_turn_delivers [OF m pf Suc.prems(1) _ Suc.prems(3) link, of delay clock_second ws] c xs Suc.prems(2) by auto
  have u: "node_inv nd1" "sess_overhead (nd_security nd1) = ADAPTIVE_SECURITY_OVERHEAD" "nd_config nd1 = c" "nd_window_id nd1 = nd_window_id nd + 1"
    using node_turn_ends [OF m pf ex Suc.prems(1) ses, of "(sv, ws)"] t(1) Suc.prems(2,3) by auto
  obtain reports nd' sv' ws' where r: "node_turns m pf (server_exchange delay) clock_second k nd1 (sv1, ws @ [(ys, md)]) =
        Some (reports, nd', (sv', (ws @ [(ys, md)]) @ ws'))" "length reports = k" "windows_match c (nd_window_id nd1) reports ws'"
    using Suc.IH [OF u(1,3,2) t(5), of "ws @ [(ys, md)]"] by blast
  have "windows_match c (nd_window_id nd) (Window_Sent True st count n # reports) ((ys, md) # ws')"
    using r(3) t(2-4) u(4) by (simp add: window_matches_def)
  then show ?case using t(1) r(1,2)
    by (intro exI [of _ "Window_Sent True st count n # reports"] exI [of _ nd'] exI [of _ sv'] exI [of _ "(ys, md) # ws'"]) simp
qed

lemma server_start_state:
  assumes "server_start client_alloc server_alloc = Some sv" "node_start config0 normalizer0 ca sa = Some nd" "k < 2 ^ 64"
  shows "node_linked test_seal test_open test_synced k (nd_security nd) sv"
proof -
  obtain cl sl where p1: "adaptive_security_test_pair True True ADAPTIVE_TEST_SEED client_alloc server_alloc = Inr (cl, sl)"
    and sv: "server_security sv = sl" "active_token sv = replicate 8 0"
    using assms(1) by (auto simp: server_start_def split: sum.splits)
  obtain cl' sl' where p2: "adaptive_security_test_pair True True ADAPTIVE_TEST_SEED ca sa = Inr (cl', sl')" and nd: "nd_security nd = cl'"
    using assms(2) by (auto simp: node_start_def Let_def split: sum.splits)
  have same: "cl' = cl" using p1 p2 by (auto simp: adaptive_security_test_pair_def Let_def split: if_splits)
  have "sess_seal cl = Some test_seal" "sess_open sl = Some test_open"
    using p1 by (auto simp: adaptive_security_test_pair_def Let_def split: if_splits)
  moreover have "adaptive_security_test_pair True True ADAPTIVE_TEST_SEED True True = Inr (cl, sl)"
    using p1 by (auto simp: adaptive_security_test_pair_def Let_def split: if_splits)
  then have "test_synced k (sess_context cl) (sess_context sl)" using assms(3) by (rule test_pair_synced(1))
  ultimately show ?thesis using sv nd same by (simp add: node_linked_def)
qed

text \<open>
  C2: The two Contiki programs, started independently of each other, work together over a network
  that delivers: after any number of turns of the node (as long as the sequence numbers of
  the session last) each turn has sent a whole window, every block of it was accepted, and
  the server has decoded exactly the windows of these turns, in order, each with the window
  id and the state of the node and with as many samples.
\<close>

theorem node_and_server_agree:
  assumes "node_start config0 normalizer0 ca sa = Some nd" and "server_start client_alloc server_alloc = Some sv"
    and "libm_ok m" "platform_ok pf" "clock_ok clock_second" "\<forall>rq. delay rq \<le> 2 ^ 64"
    and "\<forall>wid. window_ok m (nd_config nd) (read_window pf (window_size (nd_config nd)) wid)"
    and "1088 * k < 2 ^ 64"
  shows "\<exists>reports nd' sv' ws. node_turns m pf (server_exchange delay) clock_second k nd (sv, []) = Some (reports, nd', (sv', ws)) \<and>
    length reports = k \<and> windows_match (nd_config nd) 1 reports ws"
proof -
  note nd = node_start_inv [OF assms(1)]
  have ex: "answers_in_time (server_exchange delay :: (test_context server_state \<times> _) exchange)"
    using assms(6) by (auto simp: answers_in_time_def server_exchange_def split: prod.split)
  have c: "sendable ADAPTIVE_SECURITY_OVERHEAD (nd_config nd)"
    unfolding nd(5)
  proof (rule validated_sendable [OF default_shape default_valid])
    show "\<forall>s < 5. ADAPTIVE_SECURITY_OVERHEAD < adaptive_coap_block_size (block_szx default_config ! s)"
      using nd(3,5,6) by (simp add: blocks_usable_def)
    show "path_segments (uri_path default_config) \<noteq> []" by (simp add: default_fields path_segments_def)
  qed
  have "\<And>wid. window_ok m (nd_config nd) (read_window pf (window_size (nd_config nd)) wid)" using assms(7) by blast
  from node_turns_deliver [OF assms(3,4) ex assms(5) this c nd(1) refl nd(6) server_start_state [OF assms(2,1,8)], of "[]"]
  show ?thesis using nd(4) by simp
qed

text \<open>Three silent windows.\<close>

definition silent_platform :: platform where
  "silent_platform = default_platform\<lparr>read_window := (\<lambda>n wid. replicate n fzero)\<rparr>"

lemma node_and_server_agree_witness:
  "\<exists>nd sv reports nd' sv' ws. node_start zero_config zero_normalizer True True = Some nd \<and> server_start True True = Some sv \<and>
    node_turns zero_libm silent_platform (server_exchange (\<lambda>rq. 12)) 128 3 nd (sv, []) = Some (reports, nd', (sv', ws)) \<and>
    length reports = 3 \<and> windows_match default_config 1 reports ws"
proof -
  obtain nd where nd: "node_start zero_config zero_normalizer True True = Some nd"
    by (auto simp: node_start_def adaptive_security_test_pair_def Let_def)
  obtain sv where sv: "server_start True True = Some sv"
    by (auto simp: server_start_def adaptive_security_test_pair_def Let_def)
  have pf: "platform_ok silent_platform" "clock_ok 128"
    using dbl_in_zero [of 0 1]
    by (simp_all add: platform_ok_def silent_platform_def default_platform_def adaptive_platform_queue_ratio_def
        adaptive_platform_mac_retry_ratio_def clock_ok_def)
  have w: "window_ok zero_libm default_config (replicate (window_size default_config) fzero)"
    by (rule silent_window_ok) (use default_window_parameters in simp_all)
  then have "\<forall>wid. window_ok zero_libm (nd_config nd) (read_window silent_platform (window_size (nd_config nd)) wid)"
    by (simp add: node_start_inv(5) [OF nd] silent_platform_def)
  moreover have "\<forall>rq :: node_request. (12 :: nat) \<le> 2 ^ 64" "1088 * 3 < (2 :: nat) ^ 64" by simp_all
  ultimately have "\<exists>reports nd' sv' ws. node_turns zero_libm silent_platform (server_exchange (\<lambda>rq. 12)) 128 3 nd (sv, []) =
      Some (reports, nd', (sv', ws)) \<and> length reports = 3 \<and> windows_match (nd_config nd) 1 reports ws"
    by (intro node_and_server_agree [OF nd sv zero_libm_ok pf])
  then show ?thesis
    using nd sv node_start_inv(5) [OF nd] by auto
qed

end
