(* ===== verification/Spec2Isabelle.thy ===== *)
theory Spec2Isabelle
  imports Coap_Roundtrip Receiver_Assembly Security_Test Aad Wavelet_Reconstruction Wavelet_Sort Config_Defaults Codec_Silence
    Hmm_Recovery Demo_Delivery Node_Server
begin

text \<open>
  A model of the adaptive 6LoWPAN telemetry library and the theorems about it.

  \<^bold>\<open>The program.\<close> A sensor node measures its network (queue, loss, round trip time,
  retries, goodput), scores the measurements against a running baseline, and lets a hidden
  Markov model with five states (GOOD, NORMAL, DEGRADED, CONGESTED, RECOVERY) choose how hard a
  window of samples is compressed. The window goes through a Daubechies wavelet transform, a
  soft threshold and a quantiser; the remaining coefficients are serialised with a checksum,
  cut into blocks, sealed one by one by a security provider that binds each record to its CoAP
  header, and sent as CoAP Block1 requests. The receiver parses, opens and reassembles the
  blocks, and decodes the window. Two programs are built on the library: a demonstration
  program that joins both ends in one process, and a pair of Contiki-NG processes, a node and
  a server. Below, a bare file name is a file of the
  repository's \<^verbatim>\<open>src/\<close>, its header is the one of the same name in \<^verbatim>\<open>include/adaptive/\<close>, and
  \<^verbatim>\<open>contiki/\<close> stands for \<^verbatim>\<open>platform/contiki-ng/\<close>.

  \<^bold>\<open>How the code is read.\<close> Every C function is a definition of the same name; a loop or
  a phase of a long function is a definition of its own, composed as the code composes it, and
  the body of a Contiki process is its start (\<open>node_start\<close>, \<open>server_start\<close>) and a turn of its
  loop (\<open>node_turn\<close>). A struct is a record, an enumeration a datatype (or its number where
  the code indexes with it), \<^verbatim>\<open>uint8_t\<close> to \<^verbatim>\<open>uint64_t\<close> are machine words that wrap, and
  \<^verbatim>\<open>size_t\<close> is a natural number where the code's bounds keep it small. A pointer that the
  code compares with NULL is an option or a truth value. A function that returns an
  \<^verbatim>\<open>adaptive_result_t\<close> returns \<open>Inl\<close> the error or \<open>Inr\<close> what it wrote to its out parameters;
  when it also changes a struct, the struct is passed in and returned, on the error paths as
  the code leaves it. \<^verbatim>\<open>float\<close> and \<^verbatim>\<open>double\<close> are executable IEEE 754 numbers with infinities,
  NaN and rounding to the nearest, not real numbers.

  \<^bold>\<open>The theories and the code.\<close>

  \<^item> \<^verbatim>\<open>Prelude\<close>, \<^verbatim>\<open>Types\<close> (\<^verbatim>\<open>types.c\<close>), \<^verbatim>\<open>Byte_Order\<close> (the integer
    serialisers of \<^verbatim>\<open>codec.c\<close>, \<^verbatim>\<open>aad.c\<close>, \<^verbatim>\<open>pipeline.c\<close>, the node and the two providers, some of
    which the files repeat word for word): the shared vocabulary.
  \<^item> \<^verbatim>\<open>Floats\<close>: the arithmetic of the machine. \<^verbatim>\<open>Float_Reals\<close> relates it to the real numbers,
    \<^verbatim>\<open>Float_Closure\<close> shows that it never leaves its format, \<^verbatim>\<open>Float_Bounds\<close> and
    \<^verbatim>\<open>Float_Ranges\<close> are interval arithmetic under rounding.
  \<^item> \<^verbatim>\<open>Coap\<close> (\<^verbatim>\<open>coap_block.c\<close>): the packet writer and parser; \<^verbatim>\<open>Coap_Roundtrip\<close> shows what the
    writer writes, that the parser gives back the block, and what the parser can accept at all.
  \<^item> \<^verbatim>\<open>Security\<close> (\<^verbatim>\<open>security.c\<close>): a session is a record of the provider's functions and their
    context. The locale \<open>record_layer\<close> states what a client relies on (a record of a known
    size that the peer opens to the plaintext while both stay in step), \<open>replay_protected\<close>
    extends it. \<^verbatim>\<open>Security_Test\<close> (\<^verbatim>\<open>security_test.c\<close>) interprets them on the test provider as
    \<open>test_layer\<close>; \<^verbatim>\<open>Security_Oqs\<close> (\<^verbatim>\<open>security_oqs.c\<close>) is the production provider, and
    \<^verbatim>\<open>Oqs_Properties\<close> proves the same contract of it (\<open>oqs_record_layer\<close>), given AES-GCM.
  \<^item> \<^verbatim>\<open>Aad\<close> (\<^verbatim>\<open>aad.c\<close>): the header fields a record is bound to.
  \<^item> \<^verbatim>\<open>Wavelet\<close> (\<^verbatim>\<open>wavelet_db4.c\<close>): transform, noise estimate, soft threshold. The transform is
    written over an arithmetic, so that the same definition runs on floats and on real numbers.
    \<^verbatim>\<open>Wavelet_Reconstruction\<close>, \<^verbatim>\<open>Wavelet_Threshold\<close> and \<^verbatim>\<open>Wavelet_Sort\<close> hold its theorems.
  \<^item> \<^verbatim>\<open>Config\<close> (\<^verbatim>\<open>config.c\<close>): defaults, the text parser, validation. \<^verbatim>\<open>Config_Properties\<close> shows
    what a loaded file guarantees, \<^verbatim>\<open>Config_Defaults\<close> that the defaults are valid.
  \<^item> \<^verbatim>\<open>Codec\<close> (\<^verbatim>\<open>codec.c\<close>): encoder, decoder, CRC-32. \<^verbatim>\<open>Codec_Roundtrip\<close>,
    \<^verbatim>\<open>Codec_Accuracy\<close>, \<^verbatim>\<open>Codec_Integrity\<close> and \<^verbatim>\<open>Codec_Silence\<close> (a window of zeros, computed
    step by step) hold its theorems; \<^verbatim>\<open>Silent_Window\<close> does the same for every configuration.
  \<^item> \<^verbatim>\<open>Metrics\<close> (\<^verbatim>\<open>metrics.c\<close>) and \<^verbatim>\<open>Metrics_Properties\<close>: the baseline of the metrics.
  \<^item> \<^verbatim>\<open>Hmm\<close> (\<^verbatim>\<open>hmm.c\<close>): the model. \<^verbatim>\<open>Hmm_Start\<close> and \<^verbatim>\<open>Hmm_Invariant\<close> show that it never
    leaves its numeric ranges, \<^verbatim>\<open>Hmm_Recovery\<close> refines the reported state to the step relation
    \<open>mode_step\<close>.
  \<^item> \<^verbatim>\<open>Pipeline\<close> (\<^verbatim>\<open>pipeline.c\<close>): one window from metrics to packets over any transport, which
    is a function on the transport's own state. \<^verbatim>\<open>Receiver\<close> (\<^verbatim>\<open>receiver.c\<close>): reassembly.
    \<^verbatim>\<open>Receiver_Assembly\<close> refines it to a machine that only knows a token and a list of
    plaintexts.
  \<^item> \<^verbatim>\<open>Loopback\<close> and \<^verbatim>\<open>Demo\<close> (\<^verbatim>\<open>main.c\<close>): the demonstration program. \<^verbatim>\<open>Delivery\<close> proves, inside
    the locale \<open>record_layer\<close>, that the blocks of a window arrive; \<^verbatim>\<open>Window_Delivery\<close> that a
    whole window does; \<^verbatim>\<open>Demo_Metrics\<close> that the generated metrics are sane; \<^verbatim>\<open>Demo_Delivery\<close>
    that the program delivers all its steps and returns 0.
  \<^item> \<^verbatim>\<open>Contiki_Port\<close> (\<^verbatim>\<open>contiki/contiki-port.c\<close>), \<^verbatim>\<open>Contiki_Node\<close>
    (\<^verbatim>\<open>contiki/adaptive-node.c\<close>) and \<^verbatim>\<open>Contiki_Server\<close> (\<^verbatim>\<open>contiki/adaptive-server.c\<close>): the
    observer and the two processes. \<^verbatim>\<open>Contiki_Observer\<close> bounds what the observer reports,
    \<^verbatim>\<open>Node_Progress\<close> shows that no turn of the node hangs or fails to encode, \<^verbatim>\<open>Node_Server\<close>
    that the two processes, started independently, understand each other.

  \<^bold>\<open>What the theorems show.\<close> C1 to C5 are about the composed program: a sane input is
  delivered, window after window, over either provider, by the demonstration program and by
  the two Contiki processes, and a network that loses everything cannot stop the node. C6 and
  C36 say what a receiver does with arbitrary packets. The rest are the components:
  CoAP (C7 to C9), the test provider and the additional data (C10 to C13), the wavelet
  transform (C14 to C17), the configuration (C18 to C21), the codec (C22 to C26), baseline and
  model (C27 to C31), the production provider (C32 to C35), the Contiki observer (C37, C38)
  and the demonstration program's metrics and arguments (C39, C40).

  \<^bold>\<open>Bounds.\<close> No definition runs on fuel. A representation has at most 1088 bytes
  (\<open>ADAPTIVE_MAX_REPRESENTATION\<close>); the encoder writes at most 28 + 4 * 256 = 1052, so it never
  lacks room. A block carries at least one byte of it, so a window uses at most 1088 sequence
  numbers, and a theorem about \<open>k\<close> windows assumes that 1088 * \<open>k\<close> sequence numbers are left
  of the 2^64. The block number is 32 bits wide in the receiver and wraps in the model as in
  the code. The node's loop over the blocks ends only if the plaintext of a block is not
  empty: it is a \<open>partial_function\<close>, and C3 proves that it returns.

  \<^bold>\<open>What is assumed of code that is not in the repository.\<close> Each is an argument of the
  definitions and, where a theorem needs it, a named hypothesis, with a witness on a concrete
  function. \<open>libm_ok\<close>: the logarithm of a positive finite double is finite and at most 1024 in
  magnitude, the exponential of a non-positive one lies between 0 and 1. The record \<open>trig\<close> is
  sine and cosine. What the codec's input needs is \<open>window_ok\<close>: in no state are the
  coefficients of the window so small that their scale vanishes as a float, or beyond 2^126. The record
  \<open>crypto_library\<close> stands for OpenSSL and liboqs; \<open>gcm_ok\<close>: AES-256-GCM encrypts any plaintext
  to a text of its length with a 16 byte tag, and decryption accepts exactly what encryption
  produces. Allocations may fail (truth values say which do). Files are the bytes that reading
  them yields. \<open>exchange\<close> is one CoAP exchange of Contiki (any list of responses, any elapsed
  time), \<open>platform\<close> the board's hooks.

  \<^bold>\<open>Not modelled.\<close> \<^verbatim>\<open>contiki/project-conf.h\<close> (compile-time settings of Contiki's own
  buffers), the tests, the build files, documents and scripts. Inside modelled files: printing
  and logging (the table of the demonstration program is the list of its rows), zeroing and
  freeing of memory beyond what a session remembers of it, and the
  messages the programs print about an error (those of \<^verbatim>\<open>config.c\<close> are modelled). What Contiki's CoAP engine does between the two
  processes is the argument \<open>exchange\<close>; C2 takes for it the engine that hands each request to
  the server's handler and the answer back.
\<close>

end
